(* ===== verification/Prelude.thy ===== *)
theory Prelude
  imports Complex_Main "HOL-Library.AList" "HOL-Library.Sublist" "HOL-Library.Word"
begin

text \<open>
  What every component shares: the collections of rewrite rules, the reading of Go's built-in
  types (64-bit signed integers that wrap, truncating division, maps as association lists with
  an explicit iteration order), and two generic interfaces: invariants of reachable states and
  tables of bounded size.
\<close>

named_theorems go_defs \<open>definitions of Go's built-in operations, unfolded on concrete values\<close>
named_theorems map_simps \<open>how lookups, key sets and sizes of Go maps change\<close>

subsection \<open>Go integers\<close>

text \<open>
  Go's \<open>int\<close>, \<open>int64\<close> and \<open>time.Duration\<close> are 64-bit two's complement. A value is an \<open>int\<close>
  in range, and an operation that may overflow is followed by \<open>wrap64\<close>.
\<close>

definition wrap64 :: "int \<Rightarrow> int" where
  "wrap64 x = (x + 2 ^ 63) mod 2 ^ 64 - 2 ^ 63"

definition in64 :: "int \<Rightarrow> bool" where
  "in64 x \<longleftrightarrow> - (2 ^ 63) \<le> x \<and> x < 2 ^ 63"

lemma wrap64_id [simp]: "in64 x \<Longrightarrow> wrap64 x = x"
  by (simp add: wrap64_def in64_def)

lemma in64_wrap64 [simp]: "in64 (wrap64 x)"
  using pos_mod_bound [of "2 ^ 64" "x + 2 ^ 63"] pos_mod_sign [of "2 ^ 64" "x + 2 ^ 63"]
  by (simp add: in64_def wrap64_def)

text \<open>Go's integer division truncates towards zero.\<close>

definition go_div :: "int \<Rightarrow> int \<Rightarrow> int" where
  "go_div a b = sgn a * sgn b * (\<bar>a\<bar> div \<bar>b\<bar>)"

lemma go_div_nonneg: "0 \<le> a \<Longrightarrow> 0 < b \<Longrightarrow> go_div a b = a div b"
  by (cases "a = 0") (simp_all add: go_div_def)

declare wrap64_def [go_defs] go_div_def [go_defs]

subsection \<open>Go maps\<close>

text \<open>
  A Go map is an association list with distinct keys. The order in which \<open>range\<close> visits the
  keys is chosen by the runtime: an operation whose result depends on it takes that order as
  an argument.
\<close>

type_synonym ('k, 'v) go_map = "('k \<times> 'v) list"

abbreviation map_ok :: "('k, 'v) go_map \<Rightarrow> bool" where
  "map_ok m \<equiv> distinct (map fst m)"

abbreviation go_get :: "('k, 'v) go_map \<Rightarrow> 'k \<Rightarrow> 'v option" where
  "go_get \<equiv> map_of"

abbreviation go_put :: "'k \<Rightarrow> 'v \<Rightarrow> ('k, 'v) go_map \<Rightarrow> ('k, 'v) go_map" where
  "go_put \<equiv> AList.update"

abbreviation go_del :: "'k \<Rightarrow> ('k, 'v) go_map \<Rightarrow> ('k, 'v) go_map" where
  "go_del \<equiv> AList.delete"

text \<open>The keys a \<open>range\<close> over \<open>m\<close> visits, in the runtime's order \<open>ord\<close>.\<close>

definition range_keys :: "'k list \<Rightarrow> ('k, 'v) go_map \<Rightarrow> 'k list" where
  "range_keys ord m = filter (\<lambda>k. map_of m k \<noteq> None) ord"

definition covers :: "'k list \<Rightarrow> ('k, 'v) go_map \<Rightarrow> bool" where
  "covers ord m \<longleftrightarrow> distinct ord \<and> fst ` set m \<subseteq> set ord"

lemma set_range_keys: "covers ord m \<Longrightarrow> set (range_keys ord m) = fst ` set m"
  by (auto simp: range_keys_def covers_def map_of_eq_None_iff)

lemma range_keys_sub: "set (range_keys ord m) \<subseteq> fst ` set m"
  by (auto simp: range_keys_def map_of_eq_None_iff)

lemma range_keys_Nil: "covers ord m \<Longrightarrow> range_keys ord m = [] \<longleftrightarrow> m = []"
  using set_range_keys [of ord m] by (metis empty_set image_is_empty set_empty)

lemma map_ok_put [simp]: "map_ok m \<Longrightarrow> map_ok (go_put k v m)"
  by (rule distinct_update)

lemma map_ok_del [simp]: "map_ok m \<Longrightarrow> map_ok (go_del k m)"
  by (rule distinct_delete)

lemma map_ok_filter [simp]: "map_ok m \<Longrightarrow> map_ok (filter P m)"
  by (rule distinct_map_filter)

lemma get_put [map_simps]: "go_get (go_put k v m) j = (if j = k then Some v else go_get m j)"
  by (simp add: update_conv')

lemma get_del [map_simps]: "go_get (go_del k m) j = (if j = k then None else go_get m j)"
  by (simp add: delete_conv')

lemma keys_put [map_simps]: "fst ` set (go_put k v m) = insert k (fst ` set m)"
  by (induction m) auto

lemma keys_del [map_simps]: "fst ` set (go_del k m) = fst ` set m - {k}"
  by (induction m) auto

lemma length_put [map_simps]:
  "length (go_put k v m) = (if k \<in> fst ` set m then length m else Suc (length m))"
  by (induction m) auto

lemma length_del_le: "length (go_del k m) \<le> length m"
  by (simp add: AList.delete_eq)

lemma length_del_less: "k \<in> fst ` set m \<Longrightarrow> length (go_del k m) < length m"
  by (auto simp: AList.delete_eq intro!: length_filter_less)

lemma set_del_sub: "set (go_del k m) \<subseteq> set m"
  by (auto simp: AList.delete_eq)

lemma put_sub: "set (go_put k v m) \<subseteq> insert (k, v) (set m)"
  by (induction m) auto

subsection \<open>Invariants of reachable states\<close>

text \<open>
  A component with concurrent users is a predicate on its start states and a labelled step
  relation. \<open>reach\<close> is the set of states some interleaving of steps leads to.
\<close>

inductive reach :: "('s \<Rightarrow> bool) \<Rightarrow> ('s \<Rightarrow> 'e \<Rightarrow> 's \<Rightarrow> bool) \<Rightarrow> 's \<Rightarrow> bool" for start step where
  reach_start: "start s \<Longrightarrow> reach start step s"
| reach_step: "reach start step s \<Longrightarrow> step s e t \<Longrightarrow> reach start step t"

fun steps_along :: "('s \<Rightarrow> 'e \<Rightarrow> 's \<Rightarrow> bool) \<Rightarrow> 's \<Rightarrow> ('e \<times> 's) list \<Rightarrow> bool" where
  "steps_along step s [] = True"
| "steps_along step s ((e, t) # run) = (step s e t \<and> steps_along step t run)"

lemma reach_along:
  "reach start step s \<Longrightarrow> steps_along step s run \<Longrightarrow> t \<in> set (s # map snd run) \<Longrightarrow> reach start step t"
proof (induction run arbitrary: s)
  case Nil
  then show ?case by simp
next
  case (Cons et run)
  obtain e u where et: "et = (e, u)" by (cases et)
  with Cons.prems have u: "reach start step u" "steps_along step u run"
    by (auto intro: reach_step)
  show ?case
    using Cons.prems Cons.IH [OF u] by (auto simp: et)
qed

locale invariant_of =
  fixes start :: "'s \<Rightarrow> bool"
    and step :: "'s \<Rightarrow> 'e \<Rightarrow> 's \<Rightarrow> bool"
    and inv :: "'s \<Rightarrow> bool"
  assumes inv_start: "start s \<Longrightarrow> inv s"
    and inv_step: "inv s \<Longrightarrow> step s e t \<Longrightarrow> inv t"
begin

lemma holds_reach: "reach start step s \<Longrightarrow> inv s"
  by (induction rule: reach.induct) (auto intro: inv_start inv_step)

end

subsection \<open>Tables of bounded size\<close>

text \<open>
  The sessions, the login limiter and the host throttles are maps that a client could grow
  without limit. Each makes room before it inserts a new key; the contract is that making room
  in a table at its bound leaves it below the bound, and never adds or changes an entry.
\<close>

locale capped_table =
  fixes make_room :: "'env \<Rightarrow> ('k, 'v) go_map \<Rightarrow> ('k, 'v) go_map"
    and env_ok :: "'env \<Rightarrow> ('k, 'v) go_map \<Rightarrow> bool"
    and cap :: nat
  assumes room_sub: "set (make_room e m) \<subseteq> set m"
    and room_ok: "map_ok m \<Longrightarrow> map_ok (make_room e m)"
    and room_below: "map_ok m \<Longrightarrow> env_ok e m \<Longrightarrow> length m \<le> cap \<Longrightarrow> length (make_room e m) < cap"
begin

lemma insert_within:
  "map_ok m \<Longrightarrow> env_ok e m \<Longrightarrow> length m \<le> cap \<Longrightarrow> length (go_put k v (make_room e m)) \<le> cap"
  using room_below [of m e] by (simp add: length_put)

lemma insert_ok: "map_ok m \<Longrightarrow> map_ok (go_put k v (make_room e m))"
  by (simp add: room_ok)

lemma insert_get: "go_get (go_put k v (make_room e m)) k = Some v"
  by (simp add: get_put)

lemma insert_others:
  assumes "map_ok m" "go_get (go_put k v (make_room e m)) j = Some w" "j \<noteq> k"
  shows "go_get m j = Some w"
proof -
  have "(j, w) \<in> set (make_room e m)"
    using assms by (auto simp: get_put dest: map_of_SomeD)
  then show ?thesis
    using room_sub assms(1) by (auto intro: map_of_is_SomeI)
qed

end

end
