(* ===== verification/Go_Text.thy ===== *)
theory Go_Text
  imports Prelude
begin

text \<open>
  The part of Go's \<open>strings\<close> and \<open>strconv\<close> packages the program calls. A Go string is a
  sequence of bytes, which is what \<open>string\<close> is: a \<open>char\<close> is one byte.
\<close>

subsection \<open>Package strings\<close>

definition has_prefix :: "string \<Rightarrow> string \<Rightarrow> bool" where
  "has_prefix s p \<longleftrightarrow> take (length p) s = p"

definition contains_str :: "string \<Rightarrow> string \<Rightarrow> bool" where
  "contains_str s sub \<longleftrightarrow> sublist sub s"

fun split_on :: "char \<Rightarrow> string \<Rightarrow> string list" where
  "split_on c [] = [[]]"
| "split_on c (x # xs) =
     (if x = c then [] # split_on c xs
      else (case split_on c xs of [] \<Rightarrow> [[x]] | w # ws \<Rightarrow> (x # w) # ws))"

fun join_with :: "string \<Rightarrow> string list \<Rightarrow> string" where
  "join_with sep [] = []"
| "join_with sep [w] = w"
| "join_with sep (w # v # ws) = w @ sep @ join_with sep (v # ws)"

definition replace_char :: "char \<Rightarrow> char \<Rightarrow> string \<Rightarrow> string" where
  "replace_char a b s = map (\<lambda>x. if x = a then b else x) s"

lemma has_prefix_iff: "has_prefix s p \<longleftrightarrow> (\<exists>r. s = p @ r)"
  by (metis append_eq_conv_conj append_take_drop_id has_prefix_def)

lemma has_prefix_append [simp]: "has_prefix (p @ r) p"
  by (simp add: has_prefix_def)

lemma split_on_nonempty [simp]: "split_on c s \<noteq> []"
  by (induction s) (auto split: list.splits)

lemma split_on_no_sep: "w \<in> set (split_on c s) \<Longrightarrow> c \<notin> set w"
  by (induction s arbitrary: w) (auto split: if_splits list.splits)

lemma split_on_append_sep: "split_on c (w @ c # s) = split_on c w @ split_on c s"
  by (induction w) (auto split: list.splits simp: append_eq_Cons_conv)

lemma split_on_clean: "c \<notin> set w \<Longrightarrow> split_on c w = [w]"
  by (induction w) auto

lemma split_join:
  "ws \<noteq> [] \<Longrightarrow> \<forall>w\<in>set ws. c \<notin> set w \<Longrightarrow> split_on c (join_with [c] ws) = ws"
  by (induction "[c]" ws rule: join_with.induct) (auto simp: split_on_clean split_on_append_sep)

lemma join_split: "join_with [c] (split_on c s) = s"
proof (induction s)
  case Nil
  then show ?case by simp
next
  case (Cons x s)
  obtain w ws where "split_on c s = w # ws"
    by (cases "split_on c s") simp_all
  with Cons show ?case
    by (cases ws) auto
qed

text \<open>
  \<open>TrimSpace\<close> removes the characters \<open>unicode.IsSpace\<close> accepts, here as their UTF-8 bytes.
\<close>

definition space_codes :: "string list" where
  "space_codes = map (\<lambda>c. [c]) [CHR 0x09, CHR 0x0A, CHR 0x0B, CHR 0x0C, CHR 0x0D, CHR '' '']
     @ [[CHR 0xC2, CHR 0x85], [CHR 0xC2, CHR 0xA0], [CHR 0xE1, CHR 0x9A, CHR 0x80]]
     @ map (\<lambda>b. [CHR 0xE2, CHR 0x80, b])
         [CHR 0x80, CHR 0x81, CHR 0x82, CHR 0x83, CHR 0x84, CHR 0x85, CHR 0x86, CHR 0x87,
          CHR 0x88, CHR 0x89, CHR 0x8A, CHR 0xA8, CHR 0xA9, CHR 0xAF]
     @ [[CHR 0xE2, CHR 0x81, CHR 0x9F], [CHR 0xE3, CHR 0x80, CHR 0x80]]"

lemma space_codes_nonempty: "w \<in> set space_codes \<Longrightarrow> w \<noteq> []"
  by (auto simp: space_codes_def)

function trim_left :: "string list \<Rightarrow> string \<Rightarrow> string" where
  "trim_left codes s =
     (case find (\<lambda>w. w \<noteq> [] \<and> has_prefix s w) codes of
        None \<Rightarrow> s
      | Some w \<Rightarrow> trim_left codes (drop (length w) s))"
  by pat_completeness auto
termination
  by (relation "measure (\<lambda>(_, s). length s)") (auto simp: find_Some_iff has_prefix_iff)

declare trim_left.simps [simp del]

definition trim_space :: "string \<Rightarrow> string" where
  "trim_space s =
     rev (trim_left (map rev space_codes) (rev (trim_left space_codes s)))"

lemma trim_left_clean:
  "(\<And>w. w \<in> set codes \<Longrightarrow> w \<noteq> [] \<Longrightarrow> \<not> has_prefix s w) \<Longrightarrow> trim_left codes s = s"
  by (subst trim_left.simps) (auto split: option.splits simp: find_Some_iff)

text \<open>ASCII case folding, enough for the comparisons the program makes.\<close>

definition lower_char :: "char \<Rightarrow> char" where
  "lower_char c = (let n = of_char c :: nat in
     if 65 \<le> n \<and> n \<le> 90 then char_of (n + 32) else c)"

definition to_lower :: "string \<Rightarrow> string" where
  "to_lower s = map lower_char s"

subsection \<open>Package strconv\<close>

definition digit_char :: "nat \<Rightarrow> char" where
  "digit_char d = char_of (48 + d)"

definition digit_val :: "char \<Rightarrow> nat option" where
  "digit_val c = (let n = of_char c :: nat in if 48 \<le> n \<and> n \<le> 57 then Some (n - 48) else None)"

fun format_uint :: "nat \<Rightarrow> string" where
  "format_uint n = (if n < 10 then [digit_char n] else format_uint (n div 10) @ [digit_char (n mod 10)])"

declare format_uint.simps [simp del]

definition itoa :: "int \<Rightarrow> string" where
  "itoa i = (if i < 0 then CHR ''-'' # format_uint (nat (- i)) else format_uint (nat i))"

datatype num_error = ErrSyntax | ErrRange

definition max_uint64 :: nat where
  "max_uint64 = 2 ^ 64 - 1"

text \<open>
  \<open>ParseUint(s, 10, 64)\<close> returns a value even when it returns an error: 0 on a syntax error and
  the largest value on overflow. The caller may ignore the error.
\<close>

fun parse_digits :: "nat \<Rightarrow> string \<Rightarrow> nat \<times> num_error option" where
  "parse_digits n [] = (n, None)"
| "parse_digits n (c # cs) =
     (case digit_val c of
        None \<Rightarrow> (0, Some ErrSyntax)
      | Some d \<Rightarrow>
          if n * 10 + d > max_uint64 then (max_uint64, Some ErrRange)
          else parse_digits (n * 10 + d) cs)"

definition parse_uint :: "string \<Rightarrow> nat \<times> num_error option" where
  "parse_uint s = (if s = [] then (0, Some ErrSyntax) else parse_digits 0 s)"

definition atoi :: "string \<Rightarrow> num_error + int" where
  "atoi s =
     (if s = [] then Inl ErrSyntax
      else
        let neg = hd s = CHR ''-'';
            body = (if hd s = CHR ''+'' \<or> neg then tl s else s)
        in case parse_uint body of
             (un, Some ErrSyntax) \<Rightarrow> Inl ErrSyntax
           | (un, _) \<Rightarrow>
               if \<not> neg \<and> un \<ge> 2 ^ 63 then Inl ErrRange
               else if neg \<and> un > 2 ^ 63 then Inl ErrRange
               else Inr (if neg then - int un else int un))"

lemma digit_val_char [simp]: "d < 10 \<Longrightarrow> digit_val (digit_char d) = Some d"
  by (simp add: digit_val_def digit_char_def)

lemma format_uint_nonempty [simp]: "format_uint n \<noteq> []"
  by (subst format_uint.simps) simp

lemma parse_digits_snoc:
  "parse_digits n s = (m, None) \<Longrightarrow> d < 10 \<Longrightarrow> m * 10 + d \<le> max_uint64 \<Longrightarrow>
     parse_digits n (s @ [digit_char d]) = (m * 10 + d, None)"
  by (induction n s rule: parse_digits.induct) (auto split: option.splits if_splits)

lemma parse_format_digits: "n \<le> max_uint64 \<Longrightarrow> parse_digits 0 (format_uint n) = (n, None)"
proof (induction n rule: format_uint.induct)
  case (1 n)
  show ?case
  proof (cases "n < 10")
    case True
    then show ?thesis
      using 1 by (subst format_uint.simps) (simp add: max_uint64_def)
  next
    case False
    with 1 have "parse_digits 0 (format_uint (n div 10)) = (n div 10, None)"
      by simp
    then have "parse_digits 0 (format_uint (n div 10) @ [digit_char (n mod 10)]) = (n div 10 * 10 + n mod 10, None)"
      by (rule parse_digits_snoc) (use 1 in simp_all)
    with False show ?thesis
      by (subst format_uint.simps) simp
  qed
qed

lemma parse_format: "n \<le> max_uint64 \<Longrightarrow> parse_uint (format_uint n) = (n, None)"
  by (simp add: parse_uint_def parse_format_digits)

lemma format_uint_inj: "format_uint m = format_uint n \<Longrightarrow> m \<le> max_uint64 \<Longrightarrow> n \<le> max_uint64 \<Longrightarrow> m = n"
  by (metis parse_format prod.inject)

lemma parse_digits_le: "n \<le> max_uint64 \<Longrightarrow> fst (parse_digits n s) \<le> max_uint64"
  by (induction n s rule: parse_digits.induct) (auto split: option.splits)

lemma parse_uint_le: "fst (parse_uint s) \<le> max_uint64"
  by (simp add: parse_uint_def parse_digits_le)

end
