(* ===== verification/Go_Path.thy ===== *)
theory Go_Path
  imports Go_Text
begin

text \<open>
  Slash-separated paths as \<open>path\<close> and (on Unix) \<open>path/filepath\<close> treat them: \<open>Clean\<close>, \<open>Join\<close>,
  \<open>Base\<close>, \<open>Dir\<close>, \<open>IsAbs\<close>, \<open>Rel\<close> and \<open>IsLocal\<close>. A path is split into components, the
  components are normalised with a stack, and the result is joined again. \<open>ToSlash\<close> and
  \<open>FromSlash\<close> are the identity on Unix. The theory closes with the containment test that the
  program repeats in front of every file operation: \<open>Rel\<close> succeeds and its result does not start
  with \<open>..\<close>. The test is shown equivalent to an extension of the base directory's components.
\<close>

subsection \<open>Operations\<close>

definition is_abs :: "string \<Rightarrow> bool" where
  "is_abs p \<longleftrightarrow> has_prefix p ''/''"

abbreviation path_parts :: "string \<Rightarrow> string list" where
  "path_parts \<equiv> split_on (CHR ''/'')"

abbreviation parts_path :: "string list \<Rightarrow> string" where
  "parts_path \<equiv> join_with ''/''"

fun clean_parts :: "bool \<Rightarrow> string list \<Rightarrow> string list \<Rightarrow> string list" where
  "clean_parts r out [] = rev out"
| "clean_parts r out (c # cs) =
     (if c = [] \<or> c = ''.'' then clean_parts r out cs
      else if c = ''..'' then
        (if out \<noteq> [] \<and> hd out \<noteq> ''..'' then clean_parts r (tl out) cs
         else if r then clean_parts r out cs
         else clean_parts r (c # out) cs)
      else clean_parts r (c # out) cs)"

definition norm_parts :: "string \<Rightarrow> string list" where
  "norm_parts p = clean_parts (is_abs p) [] (path_parts p)"

definition show_path :: "bool \<Rightarrow> string list \<Rightarrow> string" where
  "show_path r cs = (if r then CHR ''/'' # parts_path cs else if cs = [] then ''.'' else parts_path cs)"

definition path_clean :: "string \<Rightarrow> string" where
  "path_clean p = show_path (is_abs p) (norm_parts p)"

definition path_join :: "string list \<Rightarrow> string" where
  "path_join es =
     (let ne = filter (\<lambda>e. e \<noteq> []) es in if ne = [] then [] else path_clean (parts_path ne))"

definition path_base :: "string \<Rightarrow> string" where
  "path_base p =
     (if p = [] then ''.''
      else let q = rev (dropWhile (\<lambda>c. c = CHR ''/'') (rev p)) in
        if q = [] then ''/'' else last (path_parts q))"

definition path_dir :: "string \<Rightarrow> string" where
  "path_dir p = path_clean (rev (dropWhile (\<lambda>c. c \<noteq> CHR ''/'') (rev p)))"

definition rel_words :: "string \<Rightarrow> string list" where
  "rel_words p = filter (\<lambda>w. w \<noteq> []) (path_parts p)"

fun drop_common :: "string list \<Rightarrow> string list \<Rightarrow> string list \<times> string list" where
  "drop_common (b # bs) (t # ts) = (if b = t then drop_common bs ts else (b # bs, t # ts))"
| "drop_common bs ts = (bs, ts)"

definition path_rel :: "string \<Rightarrow> string \<Rightarrow> string option" where
  "path_rel basepath targpath =
     (let base = path_clean basepath; targ = path_clean targpath in
      if targ = base then Some ''.''
      else if is_abs base \<noteq> is_abs targ then None
      else
        (case drop_common (if base = ''.'' then [] else rel_words base) (rel_words targ) of
           (bs, ts) \<Rightarrow>
             if bs \<noteq> [] \<and> hd bs = ''..'' then None
             else if bs \<noteq> [] then Some (parts_path (replicate (length bs) ''..'' @ ts))
             else Some (parts_path ts)))"

text \<open>The test \<open>rel == ".." || strings.HasPrefix(rel, "../")\<close>.\<close>

definition escapes :: "string \<Rightarrow> bool" where
  "escapes rel \<longleftrightarrow> rel = ''..'' \<or> has_prefix rel ''../''"

definition contained :: "string \<Rightarrow> string \<Rightarrow> bool" where
  "contained base targ = (case path_rel base targ of None \<Rightarrow> False | Some rel \<Rightarrow> \<not> escapes rel)"

definition is_local :: "string \<Rightarrow> bool" where
  "is_local p \<longleftrightarrow> p \<noteq> [] \<and> \<not> is_abs p \<and> \<not> escapes (path_clean p)"

subsection \<open>Normal component lists\<close>

definition part :: "string \<Rightarrow> bool" where
  "part c \<longleftrightarrow> c \<noteq> [] \<and> c \<noteq> ''.'' \<and> CHR ''/'' \<notin> set c"

text \<open>Parts of a clean path: \<open>..\<close> only at the front, and never in a rooted path.\<close>

definition normal :: "bool \<Rightarrow> string list \<Rightarrow> bool" where
  "normal r cs \<longleftrightarrow> (\<forall>c\<in>set cs. part c) \<and> (r \<longrightarrow> ''..'' \<notin> set cs) \<and>
     ''..'' \<notin> set (dropWhile (\<lambda>c. c = ''..'') cs)"

lemma normal_snoc:
  "normal r (cs @ [c]) \<longleftrightarrow>
     normal r cs \<and> part c \<and> (c = ''..'' \<longrightarrow> \<not> r \<and> set cs \<subseteq> {''..''})"
proof (cases "set cs \<subseteq> {''..''}")
  case True
  then have dw: "dropWhile (\<lambda>c. c = ''..'') cs = []" by auto
  from True show ?thesis by (auto simp: normal_def dropWhile_append dw)
next
  case False
  then have "\<exists>x\<in>set cs. x \<noteq> ''..''" by auto
  with False show ?thesis by (auto simp: normal_def dropWhile_append)
qed

lemma normal_Nil [simp]: "normal r []"
  by (simp add: normal_def)

lemma normal_part: "normal r cs \<Longrightarrow> c \<in> set cs \<Longrightarrow> part c"
  by (simp add: normal_def)

lemma normal_rooted: "normal True cs \<Longrightarrow> ''..'' \<notin> set cs"
  by (simp add: normal_def)

lemma normal_suffix_up:
  assumes "normal r (bs @ ts)" "''..'' \<in> set ts"
  shows "hd ts = ''..''"
  using assms by (cases ts) (auto simp: normal_def dropWhile_append split: if_splits)

lemma normal_Cons_up: "normal r (xs @ ''..'' # ys) \<Longrightarrow> \<not> r \<and> set xs \<subseteq> {''..''}"
  by (auto simp: normal_def dropWhile_append split: if_splits)

lemma normal_last_up: "normal r cs \<Longrightarrow> cs \<noteq> [] \<Longrightarrow> last cs = ''..'' \<Longrightarrow> \<not> r \<and> set cs \<subseteq> {''..''}"
  by (cases cs rule: rev_cases) (auto simp: normal_snoc)

lemma clean_parts_normal:
  "normal r (rev out) \<Longrightarrow> \<forall>c\<in>set cs. CHR ''/'' \<notin> set c \<Longrightarrow> normal r (clean_parts r out cs)"
proof (induction r out cs rule: clean_parts.induct)
  case (1 r out)
  then show ?case by simp
next
  case (2 r out c cs)
  have tl: "normal r (rev (tl out))" if "out \<noteq> []"
    using 2 that by (cases out) (auto simp: normal_snoc)
  have up: "normal r (rev (c # out))" if "c = ''..''" "\<not> r" "out = [] \<or> hd out = ''..''"
  proof -
    have "set (rev out) \<subseteq> {''..''}"
      using that(3) 2(6) normal_last_up [of r "rev out"] by (cases "out = []") (simp_all add: last_rev)
    then show ?thesis
      using that 2(6) by (simp add: normal_snoc part_def)
  qed
  have plain: "normal r (rev (c # out))" if "c \<noteq> []" "c \<noteq> ''.''" "c \<noteq> ''..''"
    using that 2 by (auto simp: normal_snoc part_def)
  show ?case
    using 2 tl up plain by auto
qed

lemma clean_parts_id:
  "normal r (rev out @ cs) \<Longrightarrow> clean_parts r out cs = rev out @ cs"
proof (induction cs arbitrary: out)
  case Nil
  then show ?case by simp
next
  case (Cons c cs)
  have c: "part c" "normal r (rev (c # out) @ cs)"
    using Cons.prems by (auto intro: normal_part)
  have up: "\<not> r \<and> (out = [] \<or> hd out = ''..'')" if "c = ''..''"
  proof -
    have "set (rev out) \<subseteq> {''..''}" "\<not> r"
      using normal_Cons_up [of r "rev out" cs] Cons.prems that by simp_all
    then show ?thesis by (cases out) auto
  qed
  show ?case
    using Cons.IH [OF c(2)] c(1) up by (auto simp: part_def)
qed

lemma clean_parts_append:
  "clean_parts r out (xs @ ys) = clean_parts r (rev (clean_parts r out xs)) ys"
  by (induction r out xs rule: clean_parts.induct) auto

lemma clean_parts_drop_empty: "clean_parts r out (filter (\<lambda>c. c \<noteq> []) cs) = clean_parts r out cs"
  by (induction r out cs rule: clean_parts.induct) auto

lemma norm_parts_normal: "normal (is_abs p) (norm_parts p)"
  unfolding norm_parts_def
  by (rule clean_parts_normal) (auto dest: split_on_no_sep)

lemma is_abs_Cons: "is_abs p \<longleftrightarrow> (\<exists>q. p = CHR ''/'' # q)"
  by (auto simp: is_abs_def has_prefix_iff)

lemma join_with_head: "\<exists>r. join_with sep (w # ws) = w @ r"
  by (cases ws) auto

lemma parts_path_not_abs:
  assumes "\<forall>c\<in>set cs. part c"
  shows "\<not> is_abs (parts_path cs)"
proof (cases cs)
  case Nil
  then show ?thesis by (simp add: is_abs_def has_prefix_def)
next
  case (Cons c ds)
  obtain r where r: "parts_path cs = c @ r"
    using join_with_head Cons by metis
  obtain x xs where "c = x # xs" "x \<noteq> CHR ''/''"
    using assms Cons by (cases c) (auto simp: part_def)
  with r show ?thesis by (simp add: is_abs_Cons)
qed

lemma is_abs_show [simp]: "normal r cs \<Longrightarrow> is_abs (show_path r cs) = r"
  using parts_path_not_abs [of cs]
  by (auto simp: show_path_def is_abs_Cons normal_def)

lemma path_parts_join: "\<forall>c\<in>set cs. part c \<Longrightarrow> cs \<noteq> [] \<Longrightarrow> path_parts (parts_path cs) = cs"
  by (rule split_join) (auto simp: part_def)

lemma rel_words_show:
  assumes "normal r cs"
  shows "rel_words (show_path r cs) = (if \<not> r \<and> cs = [] then [''.''] else cs)"
proof -
  have parts: "\<forall>c\<in>set cs. part c"
    using assms by (simp add: normal_def)
  then have "filter (\<lambda>w. w \<noteq> []) cs = cs"
    by (auto simp: filter_id_conv part_def)
  then show ?thesis
    using path_parts_join [OF parts] by (cases "cs = []") (auto simp: rel_words_def show_path_def)
qed

lemma norm_parts_words: "norm_parts p = clean_parts (is_abs p) [] (rel_words p)"
  by (simp add: norm_parts_def rel_words_def clean_parts_drop_empty)

lemma norm_show [simp]: "normal r cs \<Longrightarrow> norm_parts (show_path r cs) = cs"
  by (auto simp: norm_parts_words rel_words_show clean_parts_id)

lemma norm_clean [simp]: "norm_parts (path_clean p) = norm_parts p"
  by (simp add: path_clean_def norm_parts_normal)

lemma is_abs_clean [simp]: "is_abs (path_clean p) = is_abs p"
  by (simp add: path_clean_def norm_parts_normal)

lemma clean_idem: "path_clean (path_clean p) = path_clean p"
  by (simp add: path_clean_def norm_parts_normal)

lemma clean_eq_iff: "path_clean p = path_clean q \<longleftrightarrow> is_abs p = is_abs q \<and> norm_parts p = norm_parts q"
proof
  assume eq: "path_clean p = path_clean q"
  have "is_abs (path_clean p) = is_abs (path_clean q)" "norm_parts (path_clean p) = norm_parts (path_clean q)"
    by (simp_all only: eq)
  then show "is_abs p = is_abs q \<and> norm_parts p = norm_parts q"
    by simp
qed (simp add: path_clean_def)

subsection \<open>The containment test\<close>

lemma drop_common_split:
  "drop_common bs ts = (bs', ts') \<Longrightarrow> \<exists>p. bs = p @ bs' \<and> ts = p @ ts'"
  by (induction bs ts rule: drop_common.induct) (auto split: if_splits intro: exI [of _ "_ # _"])

lemma drop_common_prefix: "drop_common bs (bs @ rest) = ([], rest)"
  by (induction bs) auto

lemma parts_path_up:
  assumes "\<forall>c\<in>set cs. part c" "cs \<noteq> []"
  shows "escapes (parts_path cs) \<longleftrightarrow> hd cs = ''..''"
proof -
  obtain c ds where cs: "cs = c # ds" using assms(2) by (cases cs) auto
  have c: "CHR ''/'' \<notin> set c" "c \<noteq> []" using assms(1) cs by (auto simp: part_def)
  show ?thesis
  proof (cases ds)
    case Nil
    with cs c show ?thesis by (auto simp: escapes_def has_prefix_iff)
  next
    case (Cons d es)
    then have eq: "parts_path cs = c @ CHR ''/'' # parts_path ds" using cs by simp
    have "c = ''..''" if "c @ CHR ''/'' # q = ''../'' @ r" for q r
    proof -
      have "takeWhile (\<lambda>x. x \<noteq> CHR ''/'') (c @ CHR ''/'' # q) = c"
        using c(1) by (subst takeWhile_append2) auto
      then show ?thesis using that by simp
    qed
    moreover have "c @ CHR ''/'' # q \<noteq> ''..''" for q
      using c by (auto simp: append_eq_Cons_conv)
    ultimately show ?thesis
      using eq cs by (auto simp: escapes_def has_prefix_iff)
  qed
qed

lemma drop_common_here: "''.'' \<notin> set bs \<Longrightarrow> bs \<noteq> [] \<Longrightarrow> drop_common bs [''.''] = (bs, [''.''])"
  by (cases bs) auto

lemma escapes_up: "n > 0 \<Longrightarrow> escapes (parts_path (replicate n ''..'' @ ts))"
  by (cases n; cases "replicate (n - 1) ''..'' @ ts") (auto simp: escapes_def has_prefix_iff)

lemma show_path_eq:
  assumes "normal r bs" "normal q ts"
  shows "show_path r bs = show_path q ts \<longleftrightarrow> r = q \<and> bs = ts"
proof
  assume eq: "show_path r bs = show_path q ts"
  have "is_abs (show_path r bs) = is_abs (show_path q ts)"
    "norm_parts (show_path r bs) = norm_parts (show_path q ts)"
    by (simp_all only: eq)
  with assms show "r = q \<and> bs = ts" by simp
qed simp

text \<open>What the test decides, over the components of both paths.\<close>

definition under :: "string list \<Rightarrow> string list \<Rightarrow> bool" where
  "under bs ts \<longleftrightarrow> take (length bs) ts = bs \<and> ''..'' \<notin> set (drop (length bs) ts)"

lemma under_iff: "under bs ts \<longleftrightarrow> (\<exists>rest. ts = bs @ rest \<and> ''..'' \<notin> set rest)"
  unfolding under_def by (metis append_eq_conv_conj append_take_drop_id)

lemma path_rel_parts:
  assumes "normal r bs" "normal r ts" "bs \<noteq> ts"
  shows "(case drop_common bs (if \<not> r \<and> ts = [] then [''.''] else ts) of
      (bs', ts') \<Rightarrow> bs' = [] \<and> \<not> escapes (parts_path ts')) \<longleftrightarrow> under bs ts"
proof (cases "\<not> r \<and> ts = []")
  case True
  have "''.'' \<notin> set bs" using assms(1) by (auto simp: normal_def part_def)
  with True assms(3) show ?thesis
    by (simp add: drop_common_here under_def)
next
  case False
  obtain bs' ts' where d: "drop_common bs ts = (bs', ts')" by (cases "drop_common bs ts")
  obtain p where p: "bs = p @ bs'" "ts = p @ ts'" using drop_common_split [OF d] by auto
  have "bs' = [] \<and> \<not> escapes (parts_path ts') \<longleftrightarrow> under bs ts"
  proof (cases "bs' = []")
    case True
    then have ts: "ts = bs @ ts'" "ts' \<noteq> []" using p assms(3) by auto
    then have "escapes (parts_path ts') \<longleftrightarrow> hd ts' = ''..''"
      using assms(2) by (intro parts_path_up) (auto simp: normal_def)
    moreover have "hd ts' = ''..'' \<longleftrightarrow> ''..'' \<in> set ts'"
      using ts normal_suffix_up assms(2) hd_in_set by metis
    ultimately show ?thesis using ts True by (auto simp: under_iff)
  next
    case nonempty: False
    then have "\<not> under bs ts"
      using d by (auto simp: under_iff drop_common_prefix)
    with nonempty show ?thesis by simp
  qed
  then show ?thesis
    unfolding if_not_P [OF False] d by simp
qed

lemma contained_unfold:
  "contained base targ \<longleftrightarrow> path_clean targ = path_clean base \<or>
     (is_abs base = is_abs targ \<and>
      (case drop_common (norm_parts base)
          (if \<not> is_abs targ \<and> norm_parts targ = [] then [''.''] else norm_parts targ) of
         (bs, ts) \<Rightarrow> bs = [] \<and> \<not> escapes (parts_path ts)))"
proof -
  have base: "(if path_clean base = ''.'' then [] else rel_words (path_clean base)) = norm_parts base"
  proof (cases "\<not> is_abs base \<and> norm_parts base = []")
    case False
    then have "path_clean base \<noteq> show_path False []"
      using norm_parts_normal [of base]
      by (auto simp: path_clean_def show_path_eq simp del: not_False_eq_True)
    with False show ?thesis
      using norm_parts_normal [of base]
      by (simp add: path_clean_def rel_words_show) (simp add: show_path_def)
  qed (simp add: path_clean_def show_path_def)
  have targ: "rel_words (path_clean targ) =
      (if \<not> is_abs targ \<and> norm_parts targ = [] then [''.''] else norm_parts targ)"
    by (simp add: path_clean_def rel_words_show norm_parts_normal)
  show ?thesis
    unfolding contained_def path_rel_def Let_def base targ is_abs_clean
    by (auto split: prod.splits simp: escapes_up)
       (auto simp: escapes_def has_prefix_iff)
qed

theorem contained_iff:
  "contained base targ \<longleftrightarrow>
     is_abs base = is_abs targ \<and> under (norm_parts base) (norm_parts targ)"
proof (cases "path_clean targ = path_clean base")
  case True
  then show ?thesis
    by (auto simp: contained_unfold clean_eq_iff under_def)
next
  case False
  show ?thesis
  proof (cases "is_abs base = is_abs targ")
    case True
    then have "norm_parts base \<noteq> norm_parts targ"
      using False by (auto simp: clean_eq_iff)
    with False True show ?thesis
      using path_rel_parts [OF norm_parts_normal, of base "norm_parts targ"] norm_parts_normal [of targ]
      by (simp add: contained_unfold)
  qed (use False in \<open>simp add: contained_unfold\<close>)
qed

subsection \<open>Joining, and what the operating system resolves\<close>

lemma clean_parts_rev: "normal r cs \<Longrightarrow> clean_parts r [] (cs @ ds) = clean_parts r (rev cs) ds"
  by (simp add: clean_parts_append clean_parts_id [of r "[]" cs, simplified])

lemma norm_parts_append:
  assumes "a \<noteq> []"
  shows "norm_parts (a @ CHR ''/'' # b) = clean_parts (is_abs a) (rev (norm_parts a)) (path_parts b)"
proof -
  have "is_abs (a @ CHR ''/'' # b) = is_abs a"
    using assms by (cases a) (auto simp: is_abs_Cons)
  then show ?thesis
    by (simp add: norm_parts_def split_on_append_sep clean_parts_append)
qed

lemma path_join2:
  assumes "a \<noteq> []"
  shows "is_abs (path_join [a, b]) = is_abs a"
    and "norm_parts (path_join [a, b]) = clean_parts (is_abs a) (rev (norm_parts a)) (path_parts b)"
proof -
  have "is_abs (a @ CHR ''/'' # b) = is_abs a"
    using assms by (cases a) (auto simp: is_abs_Cons)
  then show "is_abs (path_join [a, b]) = is_abs a"
    using assms by (simp add: path_join_def)
  have "norm_parts a = clean_parts (is_abs a) (rev (norm_parts a)) (path_parts [])"
    by simp
  then show "norm_parts (path_join [a, b]) = clean_parts (is_abs a) (rev (norm_parts a)) (path_parts b)"
    using norm_parts_append [OF assms, of b] assms by (cases "b = []") (auto simp: path_join_def)
qed

lemma clean_Nil: "path_clean [] = ''.''"
  by (simp add: path_clean_def norm_parts_def show_path_def is_abs_def has_prefix_def)

lemma clean_nonempty: "path_clean p \<noteq> []"
proof (cases "norm_parts p")
  case Nil
  then show ?thesis by (simp add: path_clean_def show_path_def)
next
  case (Cons c ds)
  then have "c \<noteq> []"
    using norm_parts_normal [of p] by (auto simp: normal_def part_def)
  with Cons show ?thesis
    using join_with_head [of "''/''" c ds] by (auto simp: path_clean_def show_path_def)
qed

lemma path_join_clean: "path_clean (path_join es) = (if path_join es = [] then ''.'' else path_join es)"
  using clean_nonempty by (simp add: path_join_def clean_idem Let_def clean_Nil)

lemma join_part:
  assumes "a \<noteq> []" "part c" "c \<noteq> ''..''"
  shows "norm_parts (path_join [a, c]) = norm_parts a @ [c]"
  using assms by (simp add: path_join2 part_def split_on_clean)

text \<open>
  How a kernel without symbolic links walks components from a directory, itself the list of
  names from the root: \<open>..\<close> pops, and popping at the root stays there.
\<close>

fun walk :: "string list \<Rightarrow> string list \<Rightarrow> string list" where
  "walk dir [] = dir"
| "walk dir (c # cs) =
     (if c = [] \<or> c = ''.'' then walk dir cs
      else if c = ''..'' then walk (butlast dir) cs
      else walk (dir @ [c]) cs)"

definition resolve :: "string list \<Rightarrow> string \<Rightarrow> string list" where
  "resolve cwd p = walk (if is_abs p then [] else cwd) (path_parts p)"

lemma walk_append: "walk dir (xs @ ys) = walk (walk dir xs) ys"
  by (induction dir xs rule: walk.induct) auto

lemma walk_down: "\<forall>c\<in>set cs. part c \<and> c \<noteq> ''..'' \<Longrightarrow> walk dir cs = dir @ cs"
  by (induction cs arbitrary: dir) (auto simp: part_def)

lemma walk_clean_parts:
  "(r \<Longrightarrow> dir = [] \<and> ''..'' \<notin> set out) \<Longrightarrow> \<forall>c\<in>set out. part c \<Longrightarrow> \<forall>c\<in>set cs. CHR ''/'' \<notin> set c \<Longrightarrow>
     walk dir (clean_parts r out cs) = walk dir (rev out @ cs)"
proof (induction r out cs rule: clean_parts.induct)
  case (1 r out)
  then show ?case by simp
next
  case (2 r out c cs)
  consider "c = [] \<or> c = ''.''" | "c = ''..''" "out \<noteq> []" "hd out \<noteq> ''..''"
    | "c = ''..''" "out = [] \<or> hd out = ''..''" "r"
    | "c = ''..''" "out = [] \<or> hd out = ''..''" "\<not> r"
    | "c \<noteq> []" "c \<noteq> ''.''" "c \<noteq> ''..''"
    by blast
  then show ?case
  proof cases
    case 1
    then show ?thesis using "2.IH"(1) "2.prems" by (auto simp: walk_append)
  next
    case h: 2
    then obtain d out' where out: "out = d # out'" by (cases out) auto
    have "walk dir (clean_parts r out' cs) = walk dir (rev out' @ cs)"
      using "2.IH"(2) h "2.prems" out by auto
    then show ?thesis
      using h out "2.prems"(2) by (simp add: walk_append part_def)
  next
    case 3
    then have "out = []" using "2.prems"(1) by (cases out) auto
    then show ?thesis using 3 "2.IH"(3) "2.prems" by (auto simp: walk_append)
  next
    case 4
    then show ?thesis using "2.IH"(4) "2.prems" by (auto simp: part_def)
  next
    case 5
    then show ?thesis using "2.IH"(5) "2.prems" by (auto simp: part_def)
  qed
qed

lemma resolve_norm: "resolve cwd p = walk (if is_abs p then [] else cwd) (norm_parts p)"
  unfolding resolve_def norm_parts_def
  by (subst walk_clean_parts) (auto dest: split_on_no_sep)

lemma resolve_clean [simp]: "resolve cwd (path_clean p) = resolve cwd p"
  by (simp add: resolve_norm)

text \<open>A path that passes the test resolves below what the base resolves to.\<close>

lemma contained_resolve:
  assumes "contained base targ"
  shows "\<exists>rest. resolve cwd targ = resolve cwd base @ rest"
proof -
  obtain rest where abs: "is_abs base = is_abs targ"
    and rest: "norm_parts targ = norm_parts base @ rest" "''..'' \<notin> set rest"
    using assms by (auto simp: contained_iff under_iff)
  have "\<forall>c\<in>set rest. part c \<and> c \<noteq> ''..''"
    using rest norm_parts_normal [of targ] by (auto simp: normal_def)
  then show ?thesis
    using abs rest(1) by (simp add: resolve_norm walk_append walk_down)
qed

lemma is_local_parts: "is_local p \<longleftrightarrow> p \<noteq> [] \<and> \<not> is_abs p \<and> ''..'' \<notin> set (norm_parts p)"
proof (cases "is_abs p")
  case False
  have parts: "\<forall>c\<in>set (norm_parts p). part c"
    using norm_parts_normal [of p] by (simp add: normal_def)
  have up: "hd (norm_parts p) = ''..'' \<longleftrightarrow> ''..'' \<in> set (norm_parts p)" if "norm_parts p \<noteq> []"
    using normal_suffix_up [of _ "[]"] norm_parts_normal [of p] that by (metis append_Nil hd_in_set)
  show ?thesis
    using False parts_path_up [OF parts] up
    by (auto simp: is_local_def path_clean_def show_path_def escapes_def has_prefix_def)
qed (simp add: is_local_def)

subsection \<open>What passes the test\<close>

text \<open>
  The relative path of a contained target names it: its components follow those of the base, and
  it is local.
\<close>

lemma path_rel_under:
  assumes "path_rel base targ = Some rel" "\<not> escapes rel"
  shows "is_abs base = is_abs targ" "norm_parts targ = norm_parts base @ norm_parts rel" "is_local rel"
    "rel = ''.'' \<longleftrightarrow> norm_parts rel = []" "rel \<noteq> []" "''..'' \<notin> set (norm_parts rel)"
proof -
  have "contained base targ" using assms by (simp add: contained_def)
  then obtain rest where abs: "is_abs base = is_abs targ"
    and rest: "norm_parts targ = norm_parts base @ rest" "''..'' \<notin> set rest"
    by (auto simp: contained_iff under_iff)
  have dot: "norm_parts ''.'' = []" "is_local ''.''" by code_simp+
  have parts: "\<forall>c\<in>set rest. part c" using norm_parts_normal [of targ] rest by (simp add: normal_def)
  have n: "normal False rest"
    using rest(2) parts by (auto simp: normal_def dest: set_dropWhileD)
  have "(rest = [] \<and> rel = ''.'') \<or> (rest \<noteq> [] \<and> rel = show_path False rest)"
  proof (cases "rest = []")
    case True
    then have "path_clean targ = path_clean base" using abs rest by (simp add: clean_eq_iff)
    then show ?thesis using assms(1) True by (simp add: path_rel_def)
  next
    case False
    then have ne: "path_clean targ \<noteq> path_clean base" using rest(1) by (simp add: clean_eq_iff)
    have base: "(if path_clean base = ''.'' then [] else rel_words (path_clean base)) = norm_parts base"
    proof (cases "path_clean base = ''.''")
      case True
      then show ?thesis using norm_clean [of base] dot(1) by simp
    next
      case nd: False
      then have "\<not> (\<not> is_abs base \<and> norm_parts base = [])" by (auto simp: path_clean_def show_path_def)
      then show ?thesis using nd by (auto simp: path_clean_def rel_words_show norm_parts_normal)
    qed
    have "norm_parts targ \<noteq> []" using False rest(1) by simp
    then have "rel_words (path_clean targ) = norm_parts targ"
      by (simp add: path_clean_def rel_words_show norm_parts_normal)
    then have targ: "rel_words (path_clean targ) = norm_parts base @ rest" unfolding rest(1) .
    have "rel = parts_path rest"
      using assms(1) ne abs unfolding path_rel_def Let_def base targ by (simp add: drop_common_prefix)
    with False show ?thesis by (simp add: show_path_def)
  qed
  then consider "rest = []" "rel = ''.''" | "rest \<noteq> []" "rel = show_path False rest" by auto
  then have "norm_parts rel = rest \<and> (rel = ''.'' \<longleftrightarrow> rest = []) \<and> \<not> is_abs rel \<and> rel \<noteq> []"
  proof cases
    case 1
    then show ?thesis using dot by (simp add: is_abs_def has_prefix_def)
  next
    case 2
    have sh: "norm_parts rel = rest" "\<not> is_abs rel" using n 2 by simp_all
    have "rel = path_clean rel" using sh by (simp add: path_clean_def flip: 2(2))
    then have "rel \<noteq> []" using clean_nonempty [of rel] by metis
    moreover have "rel \<noteq> ''.''" using sh dot(1) 2(1) by auto
    ultimately show ?thesis using sh 2(1) by simp
  qed
  then have norm: "norm_parts rel = rest" and rel: "rel = ''.'' \<longleftrightarrow> rest = []" and abs_rel: "\<not> is_abs rel"
    and ne: "rel \<noteq> []"
    by simp_all
  from norm rest rel abs abs_rel ne
  show "is_abs base = is_abs targ" "norm_parts targ = norm_parts base @ norm_parts rel" "is_local rel"
    "rel = ''.'' \<longleftrightarrow> norm_parts rel = []" "rel \<noteq> []" "''..'' \<notin> set (norm_parts rel)"
    by (simp_all add: is_local_parts)
qed

text \<open>\<open>Dir\<close> of a clean path drops its last component.\<close>

lemma parts_path_snoc: "cs \<noteq> [] \<Longrightarrow> parts_path (cs @ [w]) = parts_path cs @ CHR ''/'' # w"
  by (induction "''/''" cs rule: join_with.induct) auto

lemma dir_clean:
  assumes "path_clean p = p" "norm_parts p \<noteq> []"
  shows "norm_parts (path_dir p) = butlast (norm_parts p)" "is_abs (path_dir p) = is_abs p"
proof -
  obtain cs w where cs: "norm_parts p = cs @ [w]" using assms(2) by (cases "norm_parts p" rule: rev_cases) auto
  have n: "normal (is_abs p) (cs @ [w])" using norm_parts_normal [of p] cs by simp
  then have w: "CHR ''/'' \<notin> set w" and ncs: "normal (is_abs p) cs" by (auto simp: normal_snoc part_def)
  have p: "p = show_path (is_abs p) (cs @ [w])" using assms(1) cs by (simp add: path_clean_def)
  define d where "d = (if cs = [] then (if is_abs p then ''/'' else []) else show_path (is_abs p) cs @ ''/'')"
  have pd: "p = d @ w" using p by (cases "cs = []") (simp_all add: d_def show_path_def parts_path_snoc split: if_splits)
  have "dropWhile (\<lambda>c. c \<noteq> CHR ''/'') (rev p) = rev d"
  proof -
    have "dropWhile (\<lambda>c. c \<noteq> CHR ''/'') (rev w @ rev d) = dropWhile (\<lambda>c. c \<noteq> CHR ''/'') (rev d)"
      using w by (subst dropWhile_append) (auto simp: dropWhile_eq_Nil_conv)
    also have "\<dots> = rev d" by (simp add: d_def)
    finally show ?thesis by (simp add: pd)
  qed
  then have dir: "path_dir p = path_clean d" by (simp add: path_dir_def)
  have "norm_parts d = cs \<and> is_abs d = is_abs p"
  proof (cases "cs = []")
    case True
    have "norm_parts ''/'' = []" "norm_parts [] = []" "is_abs ''/''" "\<not> is_abs []" by code_simp+
    with True show ?thesis by (simp add: d_def)
  next
    case False
    let ?s = "show_path (is_abs p) cs"
    have s: "norm_parts ?s = cs" "is_abs ?s = is_abs p" using ncs by simp_all
    have "?s \<noteq> []" using clean_nonempty [of ?s] s by (simp add: path_clean_def)
    then have "norm_parts (?s @ ''/'') = clean_parts (is_abs ?s) (rev (norm_parts ?s)) (path_parts [])"
      by (rule norm_parts_append)
    moreover have "is_abs (?s @ ''/'') = is_abs ?s" using \<open>?s \<noteq> []\<close> by (cases ?s) (auto simp: is_abs_Cons)
    ultimately show ?thesis using s False by (simp add: d_def)
  qed
  then show "norm_parts (path_dir p) = butlast (norm_parts p)" "is_abs (path_dir p) = is_abs p"
    by (simp_all add: dir cs)
qed

text \<open>\<open>filepath.Abs\<close>; \<open>cwd\<close> is the result of \<open>os.Getwd\<close>.\<close>

definition path_abs :: "string option \<Rightarrow> string \<Rightarrow> string option" where
  "path_abs cwd p =
     (if is_abs p then Some (path_clean p)
      else (case cwd of None \<Rightarrow> None | Some wd \<Rightarrow> Some (path_join [wd, p])))"

text \<open>A name that is its own \<open>Base\<close> is one component, except the name \<open>/\<close>.\<close>

lemma base_part:
  assumes "path_base n = n" "n \<noteq> []" "n \<noteq> ''/''"
  shows "CHR ''/'' \<notin> set n"
proof -
  define q where "q = rev (dropWhile (\<lambda>c. c = CHR ''/'') (rev n))"
  have b: "path_base n = (if q = [] then ''/'' else last (path_parts q))"
    unfolding path_base_def Let_def q_def using assms(2) by simp
  have "path_base n \<noteq> ''/''" unfolding assms(1) by (rule assms(3))
  then have "path_base n = last (path_parts q)" using b by (simp split: if_splits)
  moreover have "last (path_parts q) \<in> set (path_parts q)" by (rule last_in_set [OF split_on_nonempty])
  ultimately have "n \<in> set (path_parts q)" unfolding assms(1) by metis
  then show ?thesis by (rule split_on_no_sep)
qed

subsection \<open>The test is exact\<close>

lemma resolve_abs: "is_abs p \<Longrightarrow> resolve cwd p = norm_parts p"
  using norm_parts_normal [of p] walk_down [of "norm_parts p" "[]"]
  by (auto simp: resolve_norm normal_def)

text \<open>
  C29. The containment test that guards every file operation is exact on absolute paths: \<open>Rel\<close>
  succeeds with a result that does not start with a step up exactly when walking the target from
  the root arrives at or below the directory the base leads to, in a tree without links.
\<close>

theorem containment_test_exact:
  assumes "is_abs base" "is_abs targ"
  shows "contained base targ \<longleftrightarrow> (\<exists>below. resolve cwd targ = resolve cwd base @ below)"
proof -
  have up: "''..'' \<notin> set (norm_parts targ)"
    using norm_parts_normal [of targ] assms(2) by (auto dest: normal_rooted)
  show ?thesis
    using assms up by (auto simp: resolve_abs contained_iff under_iff)
qed

theorem containment_test_exact_witness:
  "contained ''/srv/data'' ''/srv/x/../data/./film'' \<and> \<not> contained ''/srv/data'' ''/srv/data2''"
proof -
  have a: "is_abs ''/srv/data''" "is_abs ''/srv/x/../data/./film''" "is_abs ''/srv/data2''"
    "resolve [] ''/srv/x/../data/./film'' = resolve [] ''/srv/data'' @ [''film'']"
    "resolve [] ''/srv/data2'' = [''srv'', ''data2'']" "resolve [] ''/srv/data'' = [''srv'', ''data'']"
    by code_simp+
  have "contained ''/srv/data'' ''/srv/x/../data/./film''"
    using containment_test_exact [OF a(1,2), of "[]"] a(4) by simp
  moreover have "\<not> contained ''/srv/data'' ''/srv/data2''"
    using containment_test_exact [OF a(1,3), of "[]"] a(5,6) by simp
  ultimately show ?thesis ..
qed

end
