(* ===== verification/Base64_Codec.thy ===== *)
theory Base64_Codec
  imports Go_Text
begin

text \<open>
  Go's \<open>base64.StdEncoding\<close> (and the unpadded URL alphabet used for generated passwords): the
  encoder, the decoder that skips line breaks and rejects everything else outside the alphabet,
  and the round trip. A codec interface names that law for the components that store text.
\<close>

subsection \<open>A codec\<close>

locale codec =
  fixes enc :: "'a \<Rightarrow> string"
    and dec :: "string \<Rightarrow> 'a option"
    and valid :: "'a \<Rightarrow> bool"
  assumes dec_enc: "valid x \<Longrightarrow> dec (enc x) = Some x"
begin

lemma enc_eq_iff: "valid x \<Longrightarrow> valid y \<Longrightarrow> enc x = enc y \<longleftrightarrow> x = y"
  by (metis dec_enc option.inject)

end

subsection \<open>The encoding\<close>

definition std_alphabet :: string where
  "std_alphabet = ''ABCDEFGHIJKLMNOPQRSTUVWXYZabcdefghijklmnopqrstuvwxyz0123456789+/''"

definition url_alphabet :: string where
  "url_alphabet = ''ABCDEFGHIJKLMNOPQRSTUVWXYZabcdefghijklmnopqrstuvwxyz0123456789-_''"

abbreviation byte_val :: "char \<Rightarrow> nat" where
  "byte_val \<equiv> of_char"

abbreviation val_byte :: "nat \<Rightarrow> char" where
  "val_byte \<equiv> char_of"

definition sextet :: "string \<Rightarrow> nat \<Rightarrow> char" where
  "sextet alphabet n = alphabet ! n"

fun index_of :: "char \<Rightarrow> string \<Rightarrow> nat option" where
  "index_of c [] = None"
| "index_of c (x # xs) = (if x = c then Some 0 else map_option Suc (index_of c xs))"

fun b64_encode :: "string \<Rightarrow> string \<Rightarrow> string \<Rightarrow> string" where
  "b64_encode al pad [] = []"
| "b64_encode al pad [a] =
     [sextet al (byte_val a div 4), sextet al (byte_val a mod 4 * 16)] @ pad @ pad"
| "b64_encode al pad [a, b] =
     [sextet al (byte_val a div 4), sextet al (byte_val a mod 4 * 16 + byte_val b div 16),
      sextet al (byte_val b mod 16 * 4)] @ pad"
| "b64_encode al pad (a # b # c # rest) =
     [sextet al (byte_val a div 4), sextet al (byte_val a mod 4 * 16 + byte_val b div 16),
      sextet al (byte_val b mod 16 * 4 + byte_val c div 64), sextet al (byte_val c mod 64)]
     @ b64_encode al pad rest"

definition std_encode :: "string \<Rightarrow> string" where
  "std_encode = b64_encode std_alphabet ''=''"

definition raw_url_encode :: "string \<Rightarrow> string" where
  "raw_url_encode = b64_encode url_alphabet []"

abbreviation std_val :: "char \<Rightarrow> nat option" where
  "std_val c \<equiv> index_of c std_alphabet"

fun decode_quads :: "string \<Rightarrow> string option" where
  "decode_quads [] = Some []"
| "decode_quads (w # x # y # z # rest) =
     (case (std_val w, std_val x) of
        (Some a, Some b) \<Rightarrow>
          if y = CHR ''='' then
            (if z = CHR ''='' \<and> rest = [] then Some [val_byte (a * 4 + b div 16)] else None)
          else (case std_val y of
              None \<Rightarrow> None
            | Some c \<Rightarrow>
                if z = CHR ''='' then
                  (if rest = [] then Some [val_byte (a * 4 + b div 16), val_byte (b mod 16 * 16 + c div 4)] else None)
                else (case std_val z of
                    None \<Rightarrow> None
                  | Some d \<Rightarrow>
                      map_option (\<lambda>r. [val_byte (a * 4 + b div 16), val_byte (b mod 16 * 16 + c div 4),
                        val_byte (c mod 4 * 64 + d)] @ r) (decode_quads rest)))
      | _ \<Rightarrow> None)"
| "decode_quads _ = None"

definition std_decode :: "string \<Rightarrow> string option" where
  "std_decode s = decode_quads (filter (\<lambda>c. c \<noteq> CHR 0x0A \<and> c \<noteq> CHR 0x0D) s)"

lemma std_val_table: "list_all (\<lambda>n. index_of (sextet std_alphabet n) std_alphabet = Some n) [0..<64]"
  by code_simp

lemma std_val_sextet [simp]: "n < 64 \<Longrightarrow> std_val (sextet std_alphabet n) = Some n"
  using std_val_table by (simp add: list_all_iff)

lemma alphabet_graphic:
  "\<forall>c\<in>set std_alphabet. 33 \<le> byte_val c \<and> byte_val c \<le> 126 \<and> c \<noteq> CHR ''=''"
  "\<forall>c\<in>set url_alphabet. 33 \<le> byte_val c \<and> byte_val c \<le> 126"
  by (simp_all add: std_alphabet_def url_alphabet_def)

lemma sextet_in: "n < 64 \<Longrightarrow> sextet std_alphabet n \<in> set std_alphabet"
  "n < 64 \<Longrightarrow> sextet url_alphabet n \<in> set url_alphabet"
  unfolding sextet_def by (rule nth_mem, simp add: std_alphabet_def url_alphabet_def)+

lemma sextet_not_pad [simp]: "n < 64 \<Longrightarrow> sextet std_alphabet n \<noteq> CHR ''=''"
  using alphabet_graphic(1) sextet_in(1) by blast

lemma sextet_graphic:
  "n < 64 \<Longrightarrow> 33 \<le> byte_val (sextet std_alphabet n) \<and> byte_val (sextet std_alphabet n) \<le> 126"
  using alphabet_graphic(1) sextet_in(1) by blast

lemma url_graphic:
  "n < 64 \<Longrightarrow> 33 \<le> byte_val (sextet url_alphabet n) \<and> byte_val (sextet url_alphabet n) \<le> 126"
  using alphabet_graphic(2) sextet_in(2) by blast

lemma byte_div_less [simp]: "byte_val c div 4 < 64" "byte_val c div 16 < 16" "byte_val c div 64 < 4"
  using nat_of_char_less_256 [of c] by (simp_all add: div_less_iff_less_mult)

lemma byte_div_div [simp]:
  "byte_val c div 16 div 16 = 0" "byte_val c div 16 mod 16 = byte_val c div 16"
  "byte_val c div 64 div 4 = 0" "byte_val c div 64 mod 4 = byte_val c div 64"
  by simp_all

lemma sextet_bounds [simp]:
  "byte_val a mod 4 * 16 + byte_val b div 16 < 64"
  "byte_val b mod 16 * 4 + byte_val c div 64 < 64" "byte_val c mod 64 < 64"
  "byte_val a mod 4 * 16 < 64" "byte_val b mod 16 * 4 < 64"
proof -
  have "byte_val a mod 4 \<le> 3" "byte_val b mod 16 \<le> 15"
    by (simp_all flip: less_Suc_eq_le)
  then show "byte_val a mod 4 * 16 + byte_val b div 16 < 64"
    "byte_val b mod 16 * 4 + byte_val c div 64 < 64" "byte_val c mod 64 < 64"
    "byte_val a mod 4 * 16 < 64" "byte_val b mod 16 * 4 < 64"
    using byte_div_less(2) [of b] byte_div_less(3) [of c] by linarith+
qed

lemma decode_encode: "decode_quads (b64_encode std_alphabet ''='' s) = Some s"
  by (induction "std_alphabet" "''=''" s rule: b64_encode.induct) simp_all

definition graphic :: "string \<Rightarrow> bool" where
  "graphic s \<longleftrightarrow> (\<forall>c\<in>set s. 33 \<le> byte_val c \<and> byte_val c \<le> 126)"

lemma graphic_encode: "graphic (b64_encode std_alphabet ''='' s)"
  by (induction "std_alphabet" "''=''" s rule: b64_encode.induct) (auto simp: graphic_def sextet_graphic)

lemma graphic_url: "graphic (b64_encode url_alphabet [] s)"
  by (induction "url_alphabet" "[] :: string" s rule: b64_encode.induct) (auto simp: graphic_def url_graphic)

lemma std_decode_encode: "std_decode (std_encode s) = Some s"
proof -
  have "filter (\<lambda>c. c \<noteq> CHR 0x0A \<and> c \<noteq> CHR 0x0D) (std_encode s) = std_encode s"
    using graphic_encode [of s] by (auto simp: filter_id_conv graphic_def std_encode_def)
  then show ?thesis
    by (simp add: std_decode_def std_encode_def decode_encode)
qed

interpretation b64: codec std_encode std_decode "\<lambda>_. True"
  by unfold_locales (rule std_decode_encode)

interpretation decimal: codec format_uint
    "\<lambda>s. case parse_uint s of (n, None) \<Rightarrow> Some n | _ \<Rightarrow> None" "\<lambda>n. n \<le> max_uint64"
  by unfold_locales (simp add: parse_format)

subsection \<open>Graphic text and TrimSpace\<close>

lemma space_code_ends:
  "w \<in> set space_codes \<Longrightarrow> \<not> graphic [hd w] \<and> \<not> graphic [last w]"
  by (auto simp: space_codes_def graphic_def)

lemma trim_left_graphic:
  assumes "graphic [hd s] \<or> s = []" "\<And>w. w \<in> set codes \<Longrightarrow> w \<noteq> [] \<Longrightarrow> \<not> graphic [hd w]"
  shows "trim_left codes s = s"
proof (rule trim_left_clean)
  fix w assume w: "w \<in> set codes" "w \<noteq> []"
  show "\<not> has_prefix s w"
  proof
    assume "has_prefix s w"
    then have "s \<noteq> []" "hd s = hd w" using w(2) by (auto simp: has_prefix_iff)
    with assms w show False by auto
  qed
qed

lemma trim_left_spaces: "graphic s \<Longrightarrow> trim_left space_codes s = s"
  by (rule trim_left_graphic) (cases s, auto simp: graphic_def dest: space_code_ends)

lemma rev_codes: "w \<in> set (map rev space_codes) \<Longrightarrow> w \<noteq> [] \<Longrightarrow> \<not> graphic [hd w]"
  using space_code_ends by (auto simp: hd_rev)

lemma trim_space_graphic: "graphic s \<Longrightarrow> trim_space s = s"
  unfolding trim_space_def
  by (subst trim_left_graphic [OF _ rev_codes])
    (cases s rule: rev_cases, auto simp: trim_left_spaces graphic_def)

end
