(* ===== verification/Models.thy ===== *)
theory Models
  imports Go_Text
begin

text \<open>
  The data of \<open>internal/models/models.go\<close>: requests, tasks, statuses and statistics. A field
  keeps its Go name behind a prefix that names the struct. Instants and durations are counts of
  nanoseconds. A status is a string in Go, and a state file may hold any string, so the
  datatype has a constructor for the strings that are none of the five constants.
\<close>

type_synonym instant = int
type_synonym duration = int

definition max_retries_limit :: int where
  "max_retries_limit = 100"

record config =
  cf_local_dir :: string
  cf_config_dir :: string
  cf_web_port :: string
  cf_auth_password :: string
  cf_trust_proxy :: bool

record upload_request =
  ur_host :: string
  ur_port :: int
  ur_user :: string
  ur_password :: string
  ur_key_path :: string
  ur_remote_dir :: string
  ur_delete_after_verify :: bool
  ur_overwrite :: bool
  ur_max_retries :: int
  ur_skip_host_key_verification :: bool
  ur_files :: "string list"
  ur_rate_limit_kbps :: int
  ur_max_latency_ms :: int
  ur_min_limit_kbps :: int
  ur_concurrent_files :: int

text \<open>Go's zero value of the struct.\<close>

definition zero_request :: upload_request where
  "zero_request = \<lparr>ur_host = [], ur_port = 0, ur_user = [], ur_password = [], ur_key_path = [],
     ur_remote_dir = [], ur_delete_after_verify = False, ur_overwrite = False, ur_max_retries = 0,
     ur_skip_host_key_verification = False, ur_files = [], ur_rate_limit_kbps = 0,
     ur_max_latency_ms = 0, ur_min_limit_kbps = 0, ur_concurrent_files = 0\<rparr>"

record file_action_request =
  fa_action :: string
  fa_path :: string
  fa_new_name :: string
  fa_config :: upload_request

record file_info =
  fi_name :: string
  fi_size :: int
  fi_is_dir :: bool

datatype task_status =
  TaskPending | TaskRunning | TaskPaused | TaskCompleted | TaskFailed | TaskOther string

record task =
  tk_id :: string
  tk_file_name :: string
  tk_remote_dir :: string
  tk_status :: task_status
  tk_progress :: int
  tk_bytes_uploaded :: int
  tk_total_bytes :: int
  tk_started_at :: "instant option"
  tk_error :: string
  tk_created_at :: instant
  tk_local_file_exists :: bool
  tk_config :: upload_request

definition zero_task :: task where
  "zero_task = \<lparr>tk_id = [], tk_file_name = [], tk_remote_dir = [], tk_status = TaskOther [],
     tk_progress = 0, tk_bytes_uploaded = 0, tk_total_bytes = 0, tk_started_at = None,
     tk_error = [], tk_created_at = 0, tk_local_file_exists = False, tk_config = zero_request\<rparr>"

record host_stats =
  hs_host :: string
  hs_last_latency_ms :: int
  hs_current_limit_kb :: int
  hs_max_limit_kb :: int
  hs_active_tasks :: int
  hs_total_speed_kbps :: real

end
