(* ===== verification/Limiter.thy ===== *)
theory Limiter
  imports Models
begin

text \<open>
  The latency-driven throttle of \<open>internal/sftpclient/client.go\<close> (type \<open>Limiter\<close>) and the
  reader that spends its tokens. Rates are \<open>float64\<close> in Go and reals here: rounding is not
  modelled. The token bucket itself (package \<open>golang.org/x/time/rate\<close>) is reduced to the limit
  and the burst it is configured with; its \<open>WaitN\<close> is a parameter of the reading loop.
\<close>

subsection \<open>State and operations\<close>

record limiter =
  lm_rate :: real
  lm_burst :: int
  lm_max :: real
  lm_min :: real
  lm_max_latency :: duration
  lm_last_latency :: duration
  lm_consecutive_low :: int

text \<open>\<open>rate.Inf\<close> is the largest finite \<open>float64\<close>.\<close>

definition rate_inf :: real where
  "rate_inf = 2 ^ 1024 - 2 ^ 971"

text \<open>Conversion of a \<open>float64\<close> to \<open>int\<close> drops the fraction.\<close>

definition float_int :: "real \<Rightarrow> int" where
  "float_int x = (if 0 \<le> x then \<lfloor>x\<rfloor> else \<lceil>x\<rceil>)"

definition new_limiter :: "real \<Rightarrow> real \<Rightarrow> real \<Rightarrow> duration \<Rightarrow> limiter" where
  "new_limiter limit burst min_limit max_latency =
     \<lparr>lm_rate = limit, lm_burst = float_int burst, lm_max = limit, lm_min = min_limit,
      lm_max_latency = max_latency, lm_last_latency = 0, lm_consecutive_low = 0\<rparr>"

text \<open>The limit that a setting in KB/s stands for, and the burst that goes with a limit.\<close>

definition kbps_limit :: "int \<Rightarrow> real" where
  "kbps_limit kbps = real_of_int (wrap64 (kbps * 1024))"

definition limiter_burst :: "real \<Rightarrow> int" where
  "limiter_burst limit =
     (if go_div (float_int limit) 10 > 16 * 1024 then go_div (float_int limit) 10 else 16 * 1024)"

definition update_config :: "real \<Rightarrow> real \<Rightarrow> duration \<Rightarrow> limiter \<Rightarrow> limiter" where
  "update_config new_limit new_min new_latency l =
     (let effective = (if new_limit = 0 then rate_inf else new_limit) in
      l\<lparr>lm_max := effective, lm_min := new_min, lm_max_latency := new_latency,
        lm_rate := effective, lm_consecutive_low := 0\<rparr>)"

definition set_limit :: "real \<Rightarrow> limiter \<Rightarrow> limiter" where
  "set_limit new_limit l =
     l\<lparr>lm_rate := (if new_limit > lm_max l then lm_max l else new_limit), lm_consecutive_low := 0\<rparr>"

definition record_latency :: "duration \<Rightarrow> limiter \<Rightarrow> limiter" where
  "record_latency latency l0 =
     (let l = l0\<lparr>lm_last_latency := latency\<rparr>; current = lm_rate l; max_latency = lm_max_latency l in
      if max_latency \<le> 0 then l
      else if latency > max_latency then
        (let n1 = current * 0.8;
             n2 = (if n1 < lm_min l then lm_min l else n1);
             n3 = (if n2 < 1024 then 1024 else n2)
         in l\<lparr>lm_rate := n3, lm_consecutive_low := 0\<rparr>)
      else if current < lm_max l then
        (let l1 = l\<lparr>lm_consecutive_low := wrap64 (lm_consecutive_low l + 1)\<rparr> in
         if lm_consecutive_low l1 \<ge> 5 then
           (let multiplier = (if current < lm_max l1 * 0.1 then 1.5 else 1.2);
                n = current * multiplier;
                n' = (if n > lm_max l1 then lm_max l1 else n)
            in l1\<lparr>lm_rate := n', lm_consecutive_low := 0\<rparr>)
         else l1)
      else l)"

definition get_stats :: "limiter \<Rightarrow> int \<times> int \<times> duration" where
  "get_stats l = (float_int (lm_rate l / 1024), float_int (lm_max l / 1024), lm_last_latency l)"

text \<open>
  The sampling goroutine \<open>startLatencySampler\<close>: one tick sends a keep-alive request and either
  measures its round trip, stops on a closed connection, or treats another error as a latency
  just above the threshold. \<open>None\<close> means that the sampler returns.
\<close>

datatype sample = Measured duration | SampleError string

definition connection_gone :: "string \<Rightarrow> bool" where
  "connection_gone msg \<longleftrightarrow> contains_str msg ''use of closed network connection'' \<or>
     contains_str msg ''EOF'' \<or> contains_str msg ''connection reset''"

fun sampler_tick :: "limiter \<Rightarrow> sample \<Rightarrow> limiter option" where
  "sampler_tick l (Measured latency) = Some (record_latency latency l)"
| "sampler_tick l (SampleError msg) =
     (if connection_gone msg then None
      else Some (record_latency (wrap64 (lm_max_latency l + 1000000)) l))"

fun run_sampler :: "limiter \<Rightarrow> sample list \<Rightarrow> limiter" where
  "run_sampler l [] = l"
| "run_sampler l (x # xs) = (case sampler_tick l x of None \<Rightarrow> l | Some l' \<Rightarrow> run_sampler l' xs)"

text \<open>
  \<open>throttledReader.Read\<close> waits for as many tokens as bytes were read, at most a burst at a time.
  With a burst of 0 the loop would not end, so its result is an option.
\<close>

partial_function (option) throttle_loop ::
  "(int \<Rightarrow> 's \<Rightarrow> string option \<times> 's) \<Rightarrow> int \<Rightarrow> int \<Rightarrow> 's \<Rightarrow> (string option \<times> 's) option" where
  "throttle_loop wait_n burst remaining s =
     (if remaining > 0 then
        (let n = (if remaining > burst then burst else remaining) in
         case wait_n n s of
           (Some err, s') \<Rightarrow> Some (Some err, s')
         | (None, s') \<Rightarrow> throttle_loop wait_n burst (remaining - n) s')
      else Some (None, s))"

definition throttled_read ::
  "(int \<Rightarrow> 's \<Rightarrow> string option \<times> 's) \<Rightarrow> limiter option \<Rightarrow> int \<times> string option \<Rightarrow> 's
     \<Rightarrow> ((int \<times> string option) \<times> 's) option" where
  "throttled_read wait_n limiter_opt inner s =
     (case (inner, limiter_opt) of
        ((n, err), Some l) \<Rightarrow>
          if n > 0 then
            map_option (\<lambda>(werr, s'). ((n, if werr = None then err else werr), s'))
              (throttle_loop wait_n (lm_burst l) n s)
          else Some ((n, err), s)
      | ((n, err), None) \<Rightarrow> Some ((n, err), s))"

subsection \<open>The rate stays within the configured bounds\<close>

text \<open>
  The invariant a sensible configuration gives: the floor and the absolute floor of 1 KB/s do
  not exceed the maximum, and the current rate does not either.
\<close>

definition rate_ok :: "limiter \<Rightarrow> bool" where
  "rate_ok l \<longleftrightarrow> 1024 \<le> lm_max l \<and> lm_min l \<le> lm_max l \<and> 0 < lm_rate l \<and> lm_rate l \<le> lm_max l"

lemma rate_inf_large: "2 ^ 970 \<le> rate_inf"
  by (simp add: rate_inf_def)

lemma rate_ok_new:
  "1024 \<le> limit \<Longrightarrow> m \<le> limit \<Longrightarrow> rate_ok (new_limiter limit b m lat)"
  by (simp add: rate_ok_def new_limiter_def)

lemma rate_ok_update:
  assumes "1024 \<le> limit \<and> m \<le> limit \<or> limit = 0 \<and> m \<le> 2 ^ 970"
  shows "rate_ok (update_config limit m lat l)"
  using assms rate_inf_large by (auto simp: rate_ok_def update_config_def Let_def)

lemma rate_ok_record: "rate_ok l \<Longrightarrow> rate_ok (record_latency lat l)"
  by (auto simp: rate_ok_def record_latency_def Let_def)

lemma rate_ok_set: "rate_ok l \<Longrightarrow> 0 < x \<Longrightarrow> rate_ok (set_limit x l)"
  by (auto simp: rate_ok_def set_limit_def)

lemma rate_ok_tick: "rate_ok l \<Longrightarrow> sampler_tick l x = Some l' \<Longrightarrow> rate_ok l'"
  by (cases x) (auto simp: rate_ok_record split: if_splits)

lemma record_low:
  assumes "0 < lm_max_latency l" "lat \<le> lm_max_latency l" "lm_rate l < lm_max l"
    "0 \<le> lm_consecutive_low l" "lm_consecutive_low l < 5"
  shows "record_latency lat l =
    (if lm_consecutive_low l < 4
     then l\<lparr>lm_last_latency := lat, lm_consecutive_low := lm_consecutive_low l + 1\<rparr>
     else l\<lparr>lm_last_latency := lat, lm_consecutive_low := 0,
        lm_rate := min (lm_max l)
          (lm_rate l * (if lm_rate l < lm_max l * 0.1 then 1.5 else 1.2))\<rparr>)"
proof -
  have "wrap64 (lm_consecutive_low l + 1) = lm_consecutive_low l + 1"
    using assms by (simp add: in64_def)
  then show ?thesis
    using assms by (simp add: record_latency_def Let_def min_def)
qed

lemma rate_ok_run: "rate_ok l \<Longrightarrow> rate_ok (run_sampler l xs)"
  by (induction l xs rule: run_sampler.induct) (auto split: option.splits dest: rate_ok_tick)

lemma record_max [simp]:
  "lm_max (record_latency lat l) = lm_max l" "lm_min (record_latency lat l) = lm_min l"
  "lm_max_latency (record_latency lat l) = lm_max_latency l"
  by (auto simp: record_latency_def Let_def)

lemma tick_max: "sampler_tick l x = Some l' \<Longrightarrow> lm_max l' = lm_max l"
  by (cases x) (auto split: if_splits)

lemma run_max [simp]: "lm_max (run_sampler l xs) = lm_max l"
  by (induction l xs rule: run_sampler.induct) (auto split: option.splits dest: tick_max)

text \<open>
  A host throttle created with a maximum of at least 1 KB/s and a floor no higher than that
  maximum never lets the transfer rate leave the range (0, maximum], whatever latencies and
  errors the sampler reports.
\<close>

theorem sampled_rate_bounded:
  assumes "1024 \<le> limit" "min_rate \<le> limit"
  shows "0 < lm_rate (run_sampler (new_limiter limit burst min_rate lat) samples)
    \<and> lm_rate (run_sampler (new_limiter limit burst min_rate lat) samples) \<le> limit"
  using rate_ok_run [OF rate_ok_new [OF assms, of burst lat], of samples]
  by (simp add: rate_ok_def new_limiter_def)

theorem sampled_rate_bounded_witness:
  "lm_rate (run_sampler (new_limiter 204800 20480 10240 100) [Measured 250, SampleError ''timeout'', Measured 7])
     \<le> 204800"
  using sampled_rate_bounded [of 204800 10240 20480 100 "[Measured 250, SampleError ''timeout'', Measured 7]"]
  by simp

text \<open>
  A latency above the threshold slows the host down to 80 per cent of its rate, but not
  below the configured floor nor below 1 KB/s, and restarts the count of good samples.
\<close>

theorem record_latency_high:
  assumes "0 < lm_max_latency l" "lm_max_latency l < lat"
  shows "record_latency lat l = l\<lparr>lm_last_latency := lat, lm_consecutive_low := 0,
    lm_rate := max 1024 (max (lm_min l) (lm_rate l * 0.8))\<rparr>"
  using assms by (simp add: record_latency_def Let_def max_def)

theorem record_latency_high_witness:
  "lm_rate (record_latency 250 (new_limiter 204800 20480 10240 100)) = 163840"
  by (subst record_latency_high) (simp_all add: new_limiter_def)

text \<open>
  The floor is not capped by the maximum: with a floor above the maximum rate, one bad
  sample raises the rate above the maximum, and no later good sample brings it back.
\<close>

theorem floor_overrides_maximum:
  assumes "0 < lm_max_latency l" "lm_max l < lm_min l" "lm_max_latency l < lat"
    and good: "list_all (\<lambda>x. x \<le> lm_max_latency l) later"
  shows "lm_max l < lm_rate (run_sampler l (Measured lat # map Measured later))"
proof -
  have stuck: "lm_rate (run_sampler k (map Measured xs)) = lm_rate k"
    if "lm_max k < lm_rate k" "list_all (\<lambda>x. x \<le> lm_max_latency k) xs" for k xs
    using that
  proof (induction xs arbitrary: k)
    case Nil
    then show ?case by simp
  next
    case (Cons x xs)
    then have "record_latency x k = k\<lparr>lm_last_latency := x\<rparr>"
      by (simp add: record_latency_def Let_def)
    with Cons show ?case by simp
  qed
  let ?k = "record_latency lat l"
  have "lm_max ?k < lm_rate ?k"
    using assms(1-3) by (simp add: record_latency_def Let_def)
  then show ?thesis
    using stuck [of ?k later] good by simp
qed

theorem floor_overrides_maximum_witness:
  "lm_max (new_limiter 5120 16384 10240 100)
     < lm_rate (run_sampler (new_limiter 5120 16384 10240 100) (Measured 101 # map Measured [1, 2, 3]))"
  by (rule floor_overrides_maximum) (simp_all add: new_limiter_def)

subsection \<open>Recovery\<close>

text \<open>A limiter that samples dynamically, with the count of good samples where the code keeps it.\<close>

definition sampling :: "limiter \<Rightarrow> bool" where
  "sampling l \<longleftrightarrow> 0 < lm_max_latency l \<and> 0 \<le> lm_consecutive_low l \<and> lm_consecutive_low l < 5"

lemma funpow_record_low:
  assumes "sampling l" "lat \<le> lm_max_latency l" "lm_rate l < lm_max l"
    "int n + lm_consecutive_low l < 5"
  shows "lm_rate ((record_latency lat ^^ n) l) = lm_rate l
    \<and> lm_consecutive_low ((record_latency lat ^^ n) l) = lm_consecutive_low l + int n"
  using assms(4)
proof (induction n)
  case 0
  then show ?case by simp
next
  case (Suc n)
  let ?k = "(record_latency lat ^^ n) l"
  have frame: "lm_max ?k = lm_max l \<and> lm_max_latency ?k = lm_max_latency l"
    by (induction n) simp_all
  from Suc have "lm_rate ?k = lm_rate l" "lm_consecutive_low ?k = lm_consecutive_low l + int n"
    by simp_all
  with frame Suc.prems assms(1-3) show ?case
    by (simp add: record_low sampling_def)
qed

lemma recover_round:
  assumes "sampling l" "lat \<le> lm_max_latency l" "0 < lm_rate l" "lm_rate l < lm_max l"
  shows "\<exists>n. sampling ((record_latency lat ^^ n) l)
    \<and> lm_max ((record_latency lat ^^ n) l) = lm_max l
    \<and> lm_max_latency ((record_latency lat ^^ n) l) = lm_max_latency l
    \<and> lm_rate ((record_latency lat ^^ n) l) \<le> lm_max l
    \<and> min (lm_max l) (lm_rate l * 1.2) \<le> lm_rate ((record_latency lat ^^ n) l)"
proof -
  define n where "n = nat (4 - lm_consecutive_low l)"
  let ?k = "(record_latency lat ^^ n) l"
  have k: "lm_rate ?k = lm_rate l" "lm_consecutive_low ?k = 4"
    using funpow_record_low [OF assms(1,2,4), of n] assms(1) by (auto simp: n_def sampling_def)
  have frame: "lm_max ?k = lm_max l \<and> lm_max_latency ?k = lm_max_latency l"
    by (induction n) simp_all
  have "record_latency lat ?k = ?k\<lparr>lm_last_latency := lat, lm_consecutive_low := 0,
      lm_rate := min (lm_max l) (lm_rate l * (if lm_rate l < lm_max l * 0.1 then 1.5 else 1.2))\<rparr>"
    using k frame assms by (subst record_low) (simp_all add: sampling_def)
  then have "(record_latency lat ^^ Suc n) l = ?k\<lparr>lm_last_latency := lat, lm_consecutive_low := 0,
      lm_rate := min (lm_max l) (lm_rate l * (if lm_rate l < lm_max l * 0.1 then 1.5 else 1.2))\<rparr>"
    by simp
  then show ?thesis
    using frame assms by (intro exI [of _ "Suc n"]) (auto simp: sampling_def min_def simp del: funpow.simps)
qed

lemma recover_rounds:
  assumes "sampling l" "lat \<le> lm_max_latency l" "0 < lm_rate l" "lm_rate l \<le> lm_max l"
  shows "\<exists>n. sampling ((record_latency lat ^^ n) l)
    \<and> lm_max ((record_latency lat ^^ n) l) = lm_max l
    \<and> lm_max_latency ((record_latency lat ^^ n) l) = lm_max_latency l
    \<and> lm_rate ((record_latency lat ^^ n) l) \<le> lm_max l
    \<and> min (lm_max l) (lm_rate l * 1.2 ^ k) \<le> lm_rate ((record_latency lat ^^ n) l)"
proof (induction k)
  case 0
  show ?case using assms by (intro exI [of _ 0]) simp
next
  case (Suc k)
  then obtain n where n: "sampling ((record_latency lat ^^ n) l)"
    "lm_max ((record_latency lat ^^ n) l) = lm_max l"
    "lm_max_latency ((record_latency lat ^^ n) l) = lm_max_latency l"
    "lm_rate ((record_latency lat ^^ n) l) \<le> lm_max l"
    "min (lm_max l) (lm_rate l * 1.2 ^ k) \<le> lm_rate ((record_latency lat ^^ n) l)"
    by blast
  let ?j = "(record_latency lat ^^ n) l"
  show ?case
  proof (cases "lm_rate ?j = lm_max l")
    case True
    with n show ?thesis by (intro exI [of _ n]) simp
  next
    case False
    have pos: "0 < lm_rate l * 1.2 ^ k" using assms(3) by simp
    have "0 < min (lm_max l) (lm_rate l * 1.2 ^ k)"
      using pos assms(3,4) by simp
    then have "0 < lm_rate ?j"
      using n(5) by linarith
    then obtain m where m: "sampling ((record_latency lat ^^ m) ?j)"
      "lm_max ((record_latency lat ^^ m) ?j) = lm_max ?j"
      "lm_max_latency ((record_latency lat ^^ m) ?j) = lm_max_latency ?j"
      "lm_rate ((record_latency lat ^^ m) ?j) \<le> lm_max ?j"
      "min (lm_max ?j) (lm_rate ?j * 1.2) \<le> lm_rate ((record_latency lat ^^ m) ?j)"
      using recover_round [of ?j lat] n False assms(2) by auto
    have "min (lm_max l) (lm_rate l * 1.2 ^ Suc k) \<le> min (lm_max l) (lm_rate ?j * 1.2)"
      using n(4,5) False pos by (auto simp: min_def split: if_splits)
    then show ?thesis
      using m n(2,3) by (intro exI [of _ "m + n"]) (simp add: funpow_add)
  qed
qed

text \<open>
  Throttling is not permanent: from any positive rate, enough good samples in a row bring
  the rate back to exactly the configured maximum.
\<close>

theorem throttle_recovers:
  assumes "sampling l" "lat \<le> lm_max_latency l" "0 < lm_rate l" "lm_rate l \<le> lm_max l"
  shows "\<exists>n. lm_rate ((record_latency lat ^^ n) l) = lm_max l"
proof -
  obtain k where "lm_max l / lm_rate l < 1.2 ^ k"
    using real_arch_pow [of "1.2 :: real" "lm_max l / lm_rate l"] by auto
  then have "lm_max l \<le> lm_rate l * 1.2 ^ k"
    using assms(3) by (simp add: field_simps)
  then show ?thesis
    using recover_rounds [OF assms, of k] by (metis min.absorb1 order_antisym)
qed

theorem throttle_recovers_witness:
  "\<exists>n. lm_rate ((record_latency 7 ^^ n) ((new_limiter 204800 20480 10240 100)\<lparr>lm_rate := 1024\<rparr>)) = 204800"
  using throttle_recovers [of "(new_limiter 204800 20480 10240 100)\<lparr>lm_rate := 1024\<rparr>" 7]
  by (simp add: new_limiter_def sampling_def)

subsection \<open>The waiting loop\<close>

text \<open>
  With a positive burst the waiting loop returns, waits for exactly the number of bytes
  read, and never asks for more than a burst at once (which the token bucket would refuse).
\<close>

theorem throttle_loop_spends:
  assumes "0 < burst" "0 \<le> n"
  shows "\<exists>ws. throttle_loop (\<lambda>w s. (None, s @ [w])) burst n s = Some (None, s @ ws)
    \<and> sum_list ws = n \<and> list_all (\<lambda>w. 0 < w \<and> w \<le> burst) ws"
  using assms(2)
proof (induction "nat n" arbitrary: n s rule: less_induct)
  case less
  show ?case
  proof (cases "0 < n")
    case False
    with less.prems show ?thesis
      by (intro exI [of _ "[]"]) (simp add: throttle_loop.simps)
  next
    case True
    define w where "w = (if n > burst then burst else n)"
    have w: "0 < w" "w \<le> burst" "w \<le> n" using True assms(1) by (auto simp: w_def)
    then obtain ws where "throttle_loop (\<lambda>w s. (None, s @ [w])) burst (n - w) (s @ [w]) = Some (None, (s @ [w]) @ ws)"
      "sum_list ws = n - w" "list_all (\<lambda>w. 0 < w \<and> w \<le> burst) ws"
      using less.hyps [of "n - w" "s @ [w]"] by auto
    with w True show ?thesis
      by (intro exI [of _ "w # ws"]) (subst throttle_loop.simps, simp add: Let_def flip: w_def)
  qed
qed

theorem throttle_loop_spends_witness:
  "\<exists>ws. throttle_loop (\<lambda>w s. (None, s @ [w])) 16384 40000 [] = Some (None, [] @ ws)
    \<and> sum_list ws = 40000 \<and> list_all (\<lambda>w. 0 < w \<and> w \<le> 16384) ws"
  by (rule throttle_loop_spends) simp_all

end
