(* ===== verification/Secrets.thy ===== *)
theory Secrets
  imports Base64_Codec
begin

unbundle bit_operations_syntax

text \<open>
  \<open>internal/queue/secrets.go\<close>: the queue's encryption key and the encryption of one password.
  Go's \<open>crypto/cipher\<close> builds GCM from a block cipher: counter mode and a tag. That
  construction is written out; the AES block function, the hash of the tag and SHA-256 are
  parameters (record \<open>crypto\<close>), and no law about the first two is needed. Random bytes are inputs
  of an operation, \<open>None\<close> when the generator fails.
\<close>

subsection \<open>AES-GCM as the standard library composes it\<close>

record crypto =
  aes_block :: "string \<Rightarrow> string \<Rightarrow> string"
  ghash :: "string \<Rightarrow> string \<Rightarrow> string"
  sha256 :: "string \<Rightarrow> string"

definition xor_byte :: "char \<Rightarrow> char \<Rightarrow> char" where
  "xor_byte a b = val_byte (byte_val a XOR byte_val b)"

definition be32 :: "nat \<Rightarrow> string" where
  "be32 n = map (\<lambda>k. val_byte (n div 256 ^ k)) [3, 2, 1, 0]"

definition nonce_size :: nat where "nonce_size = 12"
definition tag_size :: nat where "tag_size = 16"

definition gcm_crypt :: "crypto \<Rightarrow> string \<Rightarrow> string \<Rightarrow> string \<Rightarrow> string" where
  "gcm_crypt c key nonce data =
     map (\<lambda>i. xor_byte (data ! i) (aes_block c key (nonce @ be32 (i div 16 + 2)) ! (i mod 16)))
       [0..<length data]"

definition gcm_tag :: "crypto \<Rightarrow> string \<Rightarrow> string \<Rightarrow> string \<Rightarrow> string" where
  "gcm_tag c key nonce ct =
     map (\<lambda>i. xor_byte (ghash c (aes_block c key (replicate 16 (CHR 0x00))) ct ! i)
        (aes_block c key (nonce @ be32 1) ! i)) [0..<tag_size]"

definition gcm_seal :: "crypto \<Rightarrow> string \<Rightarrow> string \<Rightarrow> string \<Rightarrow> string \<Rightarrow> string" where
  "gcm_seal c key dst nonce plaintext =
     (let ct = gcm_crypt c key nonce plaintext in dst @ ct @ gcm_tag c key nonce ct)"

definition gcm_open :: "crypto \<Rightarrow> string \<Rightarrow> string \<Rightarrow> string \<Rightarrow> string option" where
  "gcm_open c key nonce sealed =
     (if length sealed < tag_size then None
      else
        let n = length sealed - tag_size; ct = take n sealed in
        if drop n sealed = gcm_tag c key nonce ct then Some (gcm_crypt c key nonce ct) else None)"

lemma take_bit_byte: "take_bit 8 (byte_val c) = byte_val c"
  using nat_of_char_less_256 [of c] by (simp add: take_bit_nat_eq_self)

lemma xor_byte_twice [simp]: "xor_byte (xor_byte a b) b = a"
proof -
  have "byte_val (val_byte (byte_val a XOR byte_val b)) = byte_val a XOR byte_val b"
  proof -
    have "take_bit 8 (byte_val a XOR byte_val b) = byte_val a XOR byte_val b"
      by (simp add: take_bit_xor take_bit_byte)
    then show ?thesis by (simp add: take_bit_eq_mod)
  qed
  then show ?thesis
    by (simp add: xor_byte_def xor.assoc)
qed

lemma gcm_crypt_twice [simp]: "gcm_crypt c key nonce (gcm_crypt c key nonce p) = p"
  by (rule nth_equalityI) (simp_all add: gcm_crypt_def)

lemma length_crypt [simp]: "length (gcm_crypt c key nonce p) = length p"
  by (simp add: gcm_crypt_def)

lemma length_tag [simp]: "length (gcm_tag c key nonce ct) = tag_size"
  by (simp add: gcm_tag_def)

lemma gcm_open_seal: "gcm_open c key nonce (gcm_seal c key [] nonce p) = Some p"
  by (simp add: gcm_open_def gcm_seal_def Let_def)

subsection \<open>The operations of secrets.go\<close>

datatype secret_error =
  BadKeySize | RandFailed | BadBase64 | CiphertextTooShort | AuthFailed
  | OpenRootFailed | ReadFailed | WriteFailed | InvalidKeyFile

definition new_cipher :: "string \<Rightarrow> secret_error + unit" where
  "new_cipher key = (if length key \<in> {16, 24, 32} then Inr () else Inl BadKeySize)"

definition encrypt_secret :: "crypto \<Rightarrow> string option \<Rightarrow> string \<Rightarrow> string \<Rightarrow> secret_error + string" where
  "encrypt_secret c rnd key plaintext =
     (case new_cipher key of
        Inl e \<Rightarrow> Inl e
      | Inr _ \<Rightarrow>
          (case rnd of
             None \<Rightarrow> Inl RandFailed
           | Some nonce \<Rightarrow> Inr (std_encode (gcm_seal c key nonce nonce plaintext))))"

definition decrypt_secret :: "crypto \<Rightarrow> string \<Rightarrow> string \<Rightarrow> secret_error + string" where
  "decrypt_secret c key encoded =
     (case std_decode encoded of
        None \<Rightarrow> Inl BadBase64
      | Some sealed \<Rightarrow>
          (case new_cipher key of
             Inl e \<Rightarrow> Inl e
           | Inr _ \<Rightarrow>
               if length sealed < nonce_size then Inl CiphertextTooShort
               else
                 (case gcm_open c key (take nonce_size sealed) (drop nonce_size sealed) of
                    None \<Rightarrow> Inl AuthFailed
                  | Some plaintext \<Rightarrow> Inr plaintext)))"

text \<open>
  What loading the key meets: the environment variable (empty when unset), whether the
  configuration directory opens, what reading \<open>.secret_key\<close> gives, 32 random bytes, and
  whether the file can be written. The result is paired with the file's content afterwards.
\<close>

datatype read_result = ReadOk string | ReadNotExist | ReadError

record key_env =
  ke_var :: string
  ke_root_ok :: bool
  ke_file :: read_result
  ke_random :: "string option"
  ke_write_ok :: bool

definition load_secret_key :: "crypto \<Rightarrow> key_env \<Rightarrow> (secret_error + string) \<times> read_result" where
  "load_secret_key c e =
     (let v = trim_space (ke_var e) in
      if v \<noteq> [] then (Inr (sha256 c v), ke_file e)
      else if \<not> ke_root_ok e then (Inl OpenRootFailed, ke_file e)
      else
        (case ke_file e of
           ReadOk data \<Rightarrow>
             (case std_decode (trim_space data) of
                None \<Rightarrow> (Inl InvalidKeyFile, ke_file e)
              | Some key \<Rightarrow>
                  if length key \<noteq> 32 then (Inl InvalidKeyFile, ke_file e) else (Inr key, ke_file e))
         | ReadError \<Rightarrow> (Inl ReadFailed, ke_file e)
         | ReadNotExist \<Rightarrow>
             (case ke_random e of
                None \<Rightarrow> (Inl RandFailed, ke_file e)
              | Some key \<Rightarrow>
                  if ke_write_ok e then (Inr key, ReadOk (std_encode key))
                  else (Inl WriteFailed, ke_file e))))"

subsection \<open>Round trip\<close>

definition sized_crypto :: "crypto \<Rightarrow> bool" where
  "sized_crypto c \<longleftrightarrow> (\<forall>s. length (sha256 c s) = 32)"

lemma trim_std_encode: "trim_space (std_encode s) = std_encode s"
  by (simp add: std_encode_def trim_space_graphic graphic_encode)

lemma encrypt_ok: "length key = 32 \<Longrightarrow>
    encrypt_secret c (Some nonce) key p = Inr (std_encode (nonce @ gcm_seal c key [] nonce p))"
  by (simp add: encrypt_secret_def new_cipher_def gcm_seal_def Let_def)

lemma decrypt_encrypt:
  assumes "length key = 32" "length nonce = nonce_size"
  shows "decrypt_secret c key (std_encode (nonce @ gcm_seal c key [] nonce p)) = Inr p"
  using assms by (simp add: decrypt_secret_def std_decode_encode new_cipher_def gcm_open_seal)

lemma loaded_key_length:
  assumes "load_secret_key c e = (Inr key, f)" "sized_crypto c"
    "\<And>r. ke_random e = Some r \<Longrightarrow> length r = 32"
  shows "length key = 32"
  using assms
  by (auto simp: load_secret_key_def sized_crypto_def Let_def
      split: if_splits read_result.splits option.splits)

text \<open>
  C27. Whatever way the encryption key was obtained (environment variable, key file, freshly
  generated), a password encrypted with it never fails for want of a usable key and decrypts
  to exactly the same password.
\<close>

theorem loaded_key_round_trip:
  assumes "load_secret_key c e = (Inr key, f)" "sized_crypto c"
    and rnd: "\<forall>r. ke_random e = Some r \<longrightarrow> length r = 32" "length nonce = nonce_size"
  shows "\<exists>enc. encrypt_secret c (Some nonce) key password = Inr enc \<and> decrypt_secret c key enc = Inr password"
proof -
  have "length key = 32"
    using loaded_key_length [OF assms(1,2)] rnd(1) by blast
  with rnd(2) show ?thesis
    by (simp add: encrypt_ok decrypt_encrypt)
qed

definition demo_crypto :: crypto where
  "demo_crypto = \<lparr>aes_block = (\<lambda>k b. map2 xor_byte k b @ k), ghash = (\<lambda>h d. take 16 (d @ h)),
     sha256 = (\<lambda>s. take 32 (s @ replicate 32 (CHR 0x00)))\<rparr>"

lemma demo_crypto_sized: "sized_crypto demo_crypto"
  by (auto simp: sized_crypto_def demo_crypto_def min_def)

theorem loaded_key_round_trip_witness:
  "\<exists>key enc. encrypt_secret demo_crypto (Some (replicate 12 (CHR ''n''))) key ''s3cret'' = Inr enc
     \<and> decrypt_secret demo_crypto key enc = Inr ''s3cret''"
proof -
  have "load_secret_key demo_crypto
      \<lparr>ke_var = [], ke_root_ok = True, ke_file = ReadNotExist,
       ke_random = Some (replicate 32 (CHR ''k'')), ke_write_ok = True\<rparr>
    = (Inr (replicate 32 (CHR ''k'')), ReadOk (std_encode (replicate 32 (CHR ''k''))))"
    by (simp add: load_secret_key_def trim_space_graphic graphic_def)
  from loaded_key_round_trip [OF this demo_crypto_sized, of "replicate 12 (CHR ''n'')" "''s3cret''"]
  show ?thesis by (auto simp: nonce_size_def)
qed

text \<open>
  A key generated on the first start is the key every later start loads from the file,
  which is not written again: encrypted passwords stay readable across restarts.
\<close>

theorem generated_key_is_stable:
  assumes "load_secret_key c e = (Inr key, f)" "trim_space (ke_var e) = []"
    "ke_file e = ReadNotExist" "\<forall>r. ke_random e = Some r \<longrightarrow> length r = 32"
    and later: "trim_space (ke_var e') = []" "ke_root_ok e'" "ke_file e' = f"
  shows "load_secret_key c e' = (Inr key, f)"
proof -
  have "f = ReadOk (std_encode key)" "length key = 32"
    using assms by (auto simp: load_secret_key_def Let_def split: if_splits option.splits)
  with later show ?thesis
    by (simp add: load_secret_key_def Let_def std_decode_encode trim_std_encode)
qed

theorem generated_key_is_stable_witness:
  "load_secret_key demo_crypto
      \<lparr>ke_var = [], ke_root_ok = True, ke_file = ReadOk (std_encode (replicate 32 (CHR ''k''))),
       ke_random = None, ke_write_ok = False\<rparr>
    = (Inr (replicate 32 (CHR ''k'')), ReadOk (std_encode (replicate 32 (CHR ''k''))))"
  by (rule generated_key_is_stable
      [where e = "\<lparr>ke_var = [], ke_root_ok = True, ke_file = ReadNotExist,
         ke_random = Some (replicate 32 (CHR ''k'')), ke_write_ok = True\<rparr>"])
    (simp_all add: load_secret_key_def trim_space_graphic graphic_def)

end
