(* ===== verification/Queue_State.thy ===== *)
theory Queue_State
  imports Secrets Limiter
begin

text \<open>
  The state of \<open>QueueManager\<close> (\<open>internal/queue/manager.go\<close>) and its persistence: sealing and
  opening of credentials, \<open>saveStateLocked\<close>, \<open>loadState\<close> and the constructor.

  The code shares \<open>*models.Task\<close> and \<open>*sftpclient.Limiter\<close> pointers between the task list, the
  throttle map and running goroutines, so tasks and limiters live in stores indexed by
  references. The state file is modelled as the value its JSON denotes: the current format, the
  older one (a bare list) or neither. \<open>models.Task.Config\<close> is excluded from JSON.
\<close>

subsection \<open>State\<close>

type_synonym task_ref = nat
type_synonym lim_ref = nat
type_synonym run_token = nat

record retained_secret =
  rs_enc :: string
  rs_plain :: string

record disk_task =
  dk_task :: "task option"
  dk_config :: upload_request
  dk_password_enc :: string

record disk_state =
  ds_tasks :: "disk_task list"
  ds_max_concurrent :: int

datatype state_file = StateFile disk_state | OldStateFile "disk_task list" | NotAState

record queue_manager =
  q_heap :: "task_ref \<Rightarrow> task"
  q_next_ref :: task_ref
  q_tasks :: "task_ref list"
  q_worker :: bool
  q_local_dir :: string
  q_next_id :: "64 word"
  q_cancelled :: bool
  q_active_cancels :: "(string, run_token) go_map"
  q_cancelled_runs :: "run_token list"
  q_active_closers :: "(string, run_token) go_map"
  q_limiters :: "(string, lim_ref) go_map"
  q_lim_heap :: "lim_ref \<Rightarrow> limiter"
  q_next_lim :: lim_ref
  q_max_concurrent :: int
  q_running_tasks :: int
  q_secret_key :: "string option"
  q_retained :: "(string, retained_secret) go_map"
  q_disk :: "state_file option"

abbreviation task_at :: "queue_manager \<Rightarrow> task_ref \<Rightarrow> task" where
  "task_at q a \<equiv> q_heap q a"

text \<open>The tasks as a reader of the list sees them.\<close>

definition task_list :: "queue_manager \<Rightarrow> task list" where
  "task_list q = map (q_heap q) (q_tasks q)"

text \<open>
  What one write of the state file meets: whether JSON encoding, opening the directory and
  writing succeed, and the nonce (or failure) the random generator gives for each entry.
\<close>

record save_env =
  se_marshal_ok :: bool
  se_root_ok :: bool
  se_write_ok :: bool
  se_random :: "nat \<Rightarrow> string option"

subsection \<open>Credentials at rest\<close>

definition seal_password ::
  "crypto \<Rightarrow> string option \<Rightarrow> string option \<Rightarrow> upload_request \<Rightarrow> upload_request \<times> string" where
  "seal_password c secret_key rnd cfg =
     (if ur_password cfg = [] then (cfg, [])
      else
        (case secret_key of
           None \<Rightarrow> (cfg\<lparr>ur_password := []\<rparr>, [])
         | Some key \<Rightarrow>
             (case encrypt_secret c rnd key (ur_password cfg) of
                Inl _ \<Rightarrow> (cfg\<lparr>ur_password := []\<rparr>, [])
              | Inr enc \<Rightarrow> (cfg\<lparr>ur_password := []\<rparr>, enc))))"

definition seal_config ::
  "crypto \<Rightarrow> string option \<Rightarrow> (string, retained_secret) go_map \<Rightarrow> string option \<Rightarrow> task
     \<Rightarrow> upload_request \<times> string" where
  "seal_config c secret_key retained rnd t =
     (let cfg = tk_config t in
      case go_get retained (tk_id t) of
        Some r \<Rightarrow>
          if ur_password cfg = [] \<or> secret_key = None
          then (cfg\<lparr>ur_password := rs_plain r\<rparr>, rs_enc r)
          else seal_password c secret_key rnd cfg
      | None \<Rightarrow> seal_password c secret_key rnd cfg)"

definition retain :: "string \<Rightarrow> retained_secret \<Rightarrow> queue_manager \<Rightarrow> queue_manager" where
  "retain i r q = q\<lparr>q_retained := go_put i r (q_retained q)\<rparr>"

definition open_config ::
  "crypto \<Rightarrow> string \<Rightarrow> disk_task \<Rightarrow> queue_manager \<Rightarrow> upload_request \<times> queue_manager" where
  "open_config c i d q =
     (let cfg = (dk_config d)\<lparr>ur_files := []\<rparr> in
      if dk_password_enc d = [] then
        (if ur_password cfg \<noteq> [] \<and> q_secret_key q = None
         then (cfg, retain i \<lparr>rs_enc = [], rs_plain = ur_password cfg\<rparr> q)
         else (cfg, q))
      else
        (case q_secret_key q of
           None \<Rightarrow> (cfg, retain i \<lparr>rs_enc = dk_password_enc d, rs_plain = []\<rparr> q)
         | Some key \<Rightarrow>
             (case decrypt_secret c key (dk_password_enc d) of
                Inl _ \<Rightarrow> (cfg, retain i \<lparr>rs_enc = dk_password_enc d, rs_plain = []\<rparr> q)
              | Inr password \<Rightarrow> (cfg\<lparr>ur_password := password\<rparr>, q))))"

subsection \<open>Saving and loading\<close>

definition json_task :: "task \<Rightarrow> task" where
  "json_task t = t\<lparr>tk_config := zero_request\<rparr>"

definition disk_entry :: "crypto \<Rightarrow> save_env \<Rightarrow> queue_manager \<Rightarrow> nat \<times> task_ref \<Rightarrow> disk_task" where
  "disk_entry c env q ia =
     (let t = task_at q (snd ia);
          (cfg, enc) = seal_config c (q_secret_key q) (q_retained q) (se_random env (fst ia)) t
      in \<lparr>dk_task = Some (json_task t), dk_config = cfg, dk_password_enc = enc\<rparr>)"

definition disk_image :: "crypto \<Rightarrow> save_env \<Rightarrow> queue_manager \<Rightarrow> disk_state" where
  "disk_image c env q =
     \<lparr>ds_tasks = map (disk_entry c env q) (enumerate 0 (q_tasks q)),
      ds_max_concurrent = q_max_concurrent q\<rparr>"

definition save_state :: "crypto \<Rightarrow> save_env \<Rightarrow> queue_manager \<Rightarrow> queue_manager" where
  "save_state c env q =
     (if se_marshal_ok env \<and> se_root_ok env \<and> se_write_ok env
      then q\<lparr>q_disk := Some (StateFile (disk_image c env q))\<rparr> else q)"

definition alloc_task :: "task \<Rightarrow> queue_manager \<Rightarrow> task_ref \<times> queue_manager" where
  "alloc_task t q =
     (q_next_ref q, q\<lparr>q_heap := (q_heap q)(q_next_ref q := t), q_next_ref := Suc (q_next_ref q)\<rparr>)"

fun load_loop ::
  "crypto \<Rightarrow> disk_task list \<Rightarrow> queue_manager \<Rightarrow> task_ref list \<Rightarrow> bool
     \<Rightarrow> queue_manager \<times> task_ref list \<times> bool" where
  "load_loop c [] q loaded legacy = (q, loaded, legacy)"
| "load_loop c (d # ds) q loaded legacy =
     (case dk_task d of
        None \<Rightarrow> load_loop c ds q loaded legacy
      | Some t \<Rightarrow>
          let (cfg, q1) = open_config c (tk_id t) d q;
              legacy' = (legacy \<or> (dk_password_enc d = [] \<and> ur_password (dk_config d) \<noteq> []));
              status = (if tk_status t = TaskRunning then TaskPending else tk_status t);
              id_val = word_of_nat (fst (parse_uint (tk_id t)));
              q2 = (if id_val > q_next_id q1 then q1\<lparr>q_next_id := id_val\<rparr> else q1);
              (a, q3) = alloc_task (t\<lparr>tk_config := cfg, tk_status := status\<rparr>) q2
          in load_loop c ds q3 (loaded @ [a]) legacy')"

text \<open>
  \<open>loadState\<close>, paired with whether it starts a goroutine that triggers the worker.
\<close>

definition load_state :: "crypto \<Rightarrow> save_env \<Rightarrow> bool \<Rightarrow> queue_manager \<Rightarrow> queue_manager \<times> bool" where
  "load_state c env root_ok q =
     (if \<not> root_ok then (q, False)
      else
        (case q_disk q of
           None \<Rightarrow> (q, False)
         | Some NotAState \<Rightarrow> (q, False)
         | Some (StateFile st) \<Rightarrow>
             (let (q1, loaded, legacy) = load_loop c (ds_tasks st) q [] False;
                  q2 = q1\<lparr>q_tasks := loaded\<rparr>;
                  q3 = (if ds_max_concurrent st > 0
                        then q2\<lparr>q_max_concurrent := ds_max_concurrent st\<rparr> else q2)
              in (if legacy \<and> q_secret_key q3 \<noteq> None then save_state c env q3 else q3, loaded \<noteq> []))
         | Some (OldStateFile dts) \<Rightarrow>
             (let (q1, loaded, legacy) = load_loop c dts q [] False;
                  q2 = q1\<lparr>q_tasks := loaded\<rparr>
              in (if legacy \<and> q_secret_key q2 \<noteq> None then save_state c env q2 else q2, loaded \<noteq> []))))"

definition empty_manager :: "string \<Rightarrow> string option \<Rightarrow> state_file option \<Rightarrow> queue_manager" where
  "empty_manager local_dir key disk =
     \<lparr>q_heap = (\<lambda>_. zero_task), q_next_ref = 0, q_tasks = [], q_worker = False,
      q_local_dir = local_dir, q_next_id = 0, q_cancelled = False, q_active_cancels = [],
      q_cancelled_runs = [], q_active_closers = [], q_limiters = [],
      q_lim_heap = (\<lambda>_. new_limiter 0 0 0 0), q_next_lim = 0, q_max_concurrent = 1,
      q_running_tasks = 0, q_secret_key = key, q_retained = [], q_disk = disk\<rparr>"

definition new_queue_manager ::
  "crypto \<Rightarrow> key_env \<Rightarrow> save_env \<Rightarrow> bool \<Rightarrow> string \<Rightarrow> state_file option \<Rightarrow> queue_manager \<times> bool" where
  "new_queue_manager c kenv env root_ok local_dir disk =
     (let key = (case load_secret_key c kenv of (Inl _, _) \<Rightarrow> None | (Inr k, _) \<Rightarrow> Some k)
      in load_state c env root_ok (empty_manager local_dir key disk))"

subsection \<open>What loading restores\<close>

definition opened_request :: "crypto \<Rightarrow> string option \<Rightarrow> disk_task \<Rightarrow> upload_request" where
  "opened_request c key d =
     (let cfg = (dk_config d)\<lparr>ur_files := []\<rparr> in
      if dk_password_enc d = [] then cfg
      else (case key of
          None \<Rightarrow> cfg
        | Some k \<Rightarrow> (case decrypt_secret c k (dk_password_enc d) of
              Inl _ \<Rightarrow> cfg | Inr password \<Rightarrow> cfg\<lparr>ur_password := password\<rparr>)))"

text \<open>A running task is queued again; the list of the whole batch is dropped.\<close>

definition requeue :: "task \<Rightarrow> task" where
  "requeue t = t\<lparr>tk_status := (if tk_status t = TaskRunning then TaskPending else tk_status t)\<rparr>"

definition restored :: "crypto \<Rightarrow> string option \<Rightarrow> disk_task \<Rightarrow> task option" where
  "restored c key d = map_option (\<lambda>t. requeue (t\<lparr>tk_config := opened_request c key d\<rparr>)) (dk_task d)"

lemma open_config_fst: "fst (open_config c i d q) = opened_request c (q_secret_key q) d"
  by (auto simp: open_config_def opened_request_def Let_def split: option.splits sum.splits)

lemma open_config_frame:
  "open_config c i d q = (cfg, q1) \<Longrightarrow> \<exists>m. q1 = q\<lparr>q_retained := m\<rparr>"
  by (auto simp: open_config_def retain_def Let_def intro: exI [of _ "q_retained q"]
      split: if_splits option.splits sum.splits)

text \<open>One entry of the state file: what the loop body allocates and changes.\<close>

definition load_entry :: "crypto \<Rightarrow> disk_task \<Rightarrow> task \<Rightarrow> queue_manager \<Rightarrow> queue_manager" where
  "load_entry c d t q =
     (let q1 = snd (open_config c (tk_id t) d q);
          id_val = word_of_nat (fst (parse_uint (tk_id t)));
          q2 = (if id_val > q_next_id q1 then q1\<lparr>q_next_id := id_val\<rparr> else q1)
      in snd (alloc_task (requeue (t\<lparr>tk_config := opened_request c (q_secret_key q) d\<rparr>)) q2))"

lemma load_loop_Cons:
  "load_loop c (d # ds) q loaded legacy =
     (case dk_task d of
        None \<Rightarrow> load_loop c ds q loaded legacy
      | Some t \<Rightarrow> load_loop c ds (load_entry c d t q) (loaded @ [q_next_ref q])
          (legacy \<or> dk_password_enc d = [] \<and> ur_password (dk_config d) \<noteq> []))"
proof (cases "dk_task d")
  case (Some t)
  obtain cfg q1 where o: "open_config c (tk_id t) d q = (cfg, q1)"
    by (cases "open_config c (tk_id t) d q")
  then have "cfg = opened_request c (q_secret_key q) d" "q_next_ref q1 = q_next_ref q"
    using open_config_fst [of c "tk_id t" d q] open_config_frame [OF o] by auto
  with Some o show ?thesis
    by (simp add: load_entry_def alloc_task_def requeue_def Let_def)
qed simp

declare load_loop.simps(2) [simp del]

lemma load_entry_simps [simp]:
  "q_heap (load_entry c d t q) = (q_heap q)(q_next_ref q :=
     requeue (t\<lparr>tk_config := opened_request c (q_secret_key q) d\<rparr>))"
  "q_next_ref (load_entry c d t q) = Suc (q_next_ref q)"
  "q_secret_key (load_entry c d t q) = q_secret_key q"
  "q_tasks (load_entry c d t q) = q_tasks q"
  "q_disk (load_entry c d t q) = q_disk q"
  "q_max_concurrent (load_entry c d t q) = q_max_concurrent q"
  "q_running_tasks (load_entry c d t q) = q_running_tasks q"
  "q_worker (load_entry c d t q) = q_worker q"
  "q_active_cancels (load_entry c d t q) = q_active_cancels q"
  "q_retained (load_entry c d t q) = q_retained (snd (open_config c (tk_id t) d q))"
  "q_next_id (load_entry c d t q) = max (q_next_id q) (word_of_nat (fst (parse_uint (tk_id t))))"
  using open_config_frame [of c "tk_id t" d q "fst (open_config c (tk_id t) d q)" "snd (open_config c (tk_id t) d q)"]
  by (auto simp: load_entry_def alloc_task_def Let_def max_def)

text \<open>The loop as a whole: references are fresh and consecutive, and hold the restored tasks.\<close>

lemma load_loop_tasks:
  assumes "load_loop c ds q loaded legacy = (q', loaded', legacy')"
    "\<forall>a\<in>set loaded. a < q_next_ref q" "distinct loaded"
  shows "map (q_heap q') loaded' = map (q_heap q) loaded @ List.map_filter (restored c (q_secret_key q)) ds
    \<and> (\<forall>a\<in>set loaded'. a < q_next_ref q') \<and> distinct loaded'
    \<and> q_secret_key q' = q_secret_key q \<and> q_max_concurrent q' = q_max_concurrent q
    \<and> q_running_tasks q' = q_running_tasks q \<and> q_active_cancels q' = q_active_cancels q
    \<and> q_worker q' = q_worker q \<and> q_disk q' = q_disk q"
  using assms
proof (induction ds arbitrary: q loaded legacy)
  case Nil
  then show ?case by (simp add: List.map_filter_def)
next
  case (Cons d ds)
  show ?case
  proof (cases "dk_task d")
    case None
    with Cons show ?thesis
      by (simp add: load_loop_Cons List.map_filter_def restored_def)
  next
    case (Some t)
    have fresh: "map (\<lambda>a. if a = q_next_ref q then x else q_heap q a) loaded = map (q_heap q) loaded" for x
      using Cons.prems(2) by auto
    have "\<forall>a\<in>set (loaded @ [q_next_ref q]). a < q_next_ref (load_entry c d t q)"
      using Cons.prems(2) by (auto intro: less_SucI)
    moreover have "distinct (loaded @ [q_next_ref q])"
      using Cons.prems(2,3) by auto
    ultimately show ?thesis
      using Cons.prems(1) Some Cons.IH [of "load_entry c d t q" "loaded @ [q_next_ref q]"]
      by (auto simp: load_loop_Cons List.map_filter_def restored_def fun_upd_def fresh)
  qed
qed

subsection \<open>Sealing one entry\<close>

locale sealing =
  fixes enc :: "string \<Rightarrow> string \<Rightarrow> string \<Rightarrow> secret_error + string"
    and dec :: "string \<Rightarrow> string \<Rightarrow> secret_error + string"
    and good_key :: "string \<Rightarrow> bool"
    and good_random :: "string \<Rightarrow> bool"
  assumes enc_total: "good_key k \<Longrightarrow> good_random r \<Longrightarrow> \<exists>e. enc k r p = Inr e \<and> e \<noteq> []"
    and dec_enc: "good_key k \<Longrightarrow> good_random r \<Longrightarrow> enc k r p = Inr e \<Longrightarrow> dec k e = Inr p"
begin

text \<open>An entry is never empty, and reading it back gives the password.\<close>

lemma sealed_reads_back:
  assumes "good_key k" "good_random r"
  obtains e where "enc k r p = Inr e" "e \<noteq> []" "dec k e = Inr p"
  using enc_total [OF assms] dec_enc [OF assms] by metis

lemma sealed_inj:
  "good_key k \<Longrightarrow> good_random r \<Longrightarrow> good_random r' \<Longrightarrow> enc k r p = Inr e \<Longrightarrow> enc k r' p' = Inr e \<Longrightarrow> p = p'"
  using dec_enc by (metis sum.inject(2))

end

lemma std_encode_nonempty: "s \<noteq> [] \<Longrightarrow> std_encode s \<noteq> []"
  using std_decode_encode [of s] by (cases "std_encode s") (auto simp: std_decode_def)

text \<open>The password cipher of \<open>secrets.go\<close> is such a pair, for every choice of the primitives.\<close>

interpretation seal: sealing "\<lambda>k r. encrypt_secret c (Some r) k" "decrypt_secret c"
    "\<lambda>k. length k = 32" "\<lambda>r. length r = nonce_size" for c
proof unfold_locales
  fix k r p e :: string
  assume len: "length k = 32" "length r = nonce_size"
  then have "r @ gcm_seal c k [] r p \<noteq> []" by (auto simp: nonce_size_def)
  then show "\<exists>e. encrypt_secret c (Some r) k p = Inr e \<and> e \<noteq> []"
    using len by (simp add: encrypt_ok std_encode_nonempty)
  show "encrypt_secret c (Some r) k p = Inr e \<Longrightarrow> decrypt_secret c k e = Inr p"
    using len by (auto simp: encrypt_ok decrypt_encrypt)
qed

text \<open>A key in use has 32 bytes, and every write draws nonces of 12 bytes.\<close>

definition good_env :: "save_env \<Rightarrow> bool" where
  "good_env env \<longleftrightarrow> se_marshal_ok env \<and> se_root_ok env \<and> se_write_ok env
     \<and> (\<forall>i. \<exists>r. se_random env i = Some r \<and> length r = nonce_size)"

lemma opened_sealed:
  assumes "length k = 32" "length r = nonce_size"
    "seal_password c (Some k) (Some r) cfg = (cfg', enc)"
  shows "opened_request c (Some k) \<lparr>dk_task = t, dk_config = cfg', dk_password_enc = enc\<rparr> = cfg\<lparr>ur_files := []\<rparr>"
proof -
  obtain e where "encrypt_secret c (Some r) k (ur_password cfg) = Inr e" "e \<noteq> []"
    "decrypt_secret c k e = Inr (ur_password cfg)"
    using seal.sealed_reads_back [OF assms(1,2), of c "ur_password cfg"] by metis
  with assms(3) show ?thesis
    by (auto simp: seal_password_def opened_request_def Let_def split: if_splits)
qed

lemma restored_disk_entry:
  assumes "q_secret_key q = Some k" "length k = 32" "q_retained q = []" "good_env env"
  shows "restored c (Some k) (disk_entry c env q ia) =
    Some (requeue ((task_at q (snd ia))\<lparr>tk_config := (tk_config (task_at q (snd ia)))\<lparr>ur_files := []\<rparr>\<rparr>))"
proof -
  let ?t = "task_at q (snd ia)"
  obtain r where r: "se_random env (fst ia) = Some r" "length r = nonce_size"
    using assms(4) by (auto simp: good_env_def)
  obtain cfg' enc where s: "seal_password c (Some k) (Some r) (tk_config ?t) = (cfg', enc)"
    by (cases "seal_password c (Some k) (Some r) (tk_config ?t)")
  show ?thesis
    using opened_sealed [OF assms(2) r(2) s] assms r s
    by (simp add: restored_def disk_entry_def seal_config_def Let_def json_task_def)
qed

lemma map_filter_map: "List.map_filter f (map g xs) = List.map_filter (\<lambda>x. f (g x)) xs"
  by (induction xs) (simp_all add: List.map_filter_def)

lemma map_filter_total: "(\<And>x. f x = Some (g x)) \<Longrightarrow> List.map_filter f xs = map g xs"
  by (induction xs) (simp_all add: List.map_filter_def)

lemma map_enumerate: "map (\<lambda>ia. f (snd ia)) (enumerate n xs) = map f xs"
  by (induction xs arbitrary: n) simp_all

lemma save_state_frame [simp]:
  "q_heap (save_state c env q) = q_heap q" "q_tasks (save_state c env q) = q_tasks q"
  "q_max_concurrent (save_state c env q) = q_max_concurrent q"
  "q_worker (save_state c env q) = q_worker q" "q_next_ref (save_state c env q) = q_next_ref q"
  "q_running_tasks (save_state c env q) = q_running_tasks q" "q_next_id (save_state c env q) = q_next_id q"
  "q_active_cancels (save_state c env q) = q_active_cancels q"
  "q_retained (save_state c env q) = q_retained q" "q_secret_key (save_state c env q) = q_secret_key q"
  "q_cancelled (save_state c env q) = q_cancelled q" "q_limiters (save_state c env q) = q_limiters q"
  by (simp_all add: save_state_def)

lemma task_list_save [simp]: "task_list (save_state c env q) = task_list q"
  by (simp add: task_list_def)

lemma saved_file: "good_env env \<Longrightarrow> q_disk (save_state c env q) = Some (StateFile (disk_image c env q))"
  by (simp add: save_state_def good_env_def)

lemma restored_image:
  assumes "q_secret_key q = Some k" "length k = 32" "q_retained q = []" "good_env env"
  shows "List.map_filter (restored c (Some k)) (ds_tasks (disk_image c env q)) =
    map (\<lambda>t. requeue (t\<lparr>tk_config := (tk_config t)\<lparr>ur_files := []\<rparr>\<rparr>)) (task_list q)"
  unfolding disk_image_def disk_state.select_convs map_filter_map task_list_def map_map comp_def
  by (subst map_filter_total [OF restored_disk_entry [OF assms]]) (rule map_enumerate)

lemma restored_state:
  assumes key: "q_secret_key q = Some k" "length k = 32"
    and clean: "q_retained q = []" "good_env env"
  shows "task_list (fst (load_state c env' True (empty_manager dir (Some k) (q_disk (save_state c env q)))))
      = map (\<lambda>t. requeue (t\<lparr>tk_config := (tk_config t)\<lparr>ur_files := []\<rparr>\<rparr>)) (task_list q)"
    and "q_max_concurrent (fst (load_state c env' True (empty_manager dir (Some k) (q_disk (save_state c env q)))))
      = (if q_max_concurrent q > 0 then q_max_concurrent q else 1)"
proof -
  let ?q0 = "empty_manager dir (Some k) (q_disk (save_state c env q))"
  obtain q1 loaded legacy where l: "load_loop c (ds_tasks (disk_image c env q)) ?q0 [] False = (q1, loaded, legacy)"
    by (cases "load_loop c (ds_tasks (disk_image c env q)) ?q0 [] False")
  have key0: "q_secret_key ?q0 = Some k" "q_max_concurrent ?q0 = 1" "q_disk ?q0 = Some (StateFile (disk_image c env q))"
    by (simp_all add: empty_manager_def saved_file clean)
  have ds: "ds_max_concurrent (disk_image c env q) = q_max_concurrent q"
    by (simp add: disk_image_def)
  have q1: "map (q_heap q1) loaded =
      map (\<lambda>t. requeue (t\<lparr>tk_config := (tk_config t)\<lparr>ur_files := []\<rparr>\<rparr>)) (task_list q)"
    "q_max_concurrent q1 = 1"
    using load_loop_tasks [OF l] key0 by (simp_all add: restored_image [OF key clean])
  show "task_list (fst (load_state c env' True ?q0))
      = map (\<lambda>t. requeue (t\<lparr>tk_config := (tk_config t)\<lparr>ur_files := []\<rparr>\<rparr>)) (task_list q)"
    unfolding load_state_def key0 state_file.case option.case l prod.case
    using q1 by (simp add: Let_def ds l) (simp add: task_list_def)
  show "q_max_concurrent (fst (load_state c env' True ?q0))
      = (if q_max_concurrent q > 0 then q_max_concurrent q else 1)"
    unfolding load_state_def key0 state_file.case option.case l prod.case
    using q1 by (simp add: Let_def ds l)
qed

text \<open>
  C1. Restarting restores the queue: loading what a save wrote gives the same tasks in the same
  order, with their decrypted passwords, except that running tasks are pending again and the
  batch list of a request is gone; the concurrency limit is restored when it is positive.
\<close>

theorem restart_restores_queue:
  assumes key: "q_secret_key q = Some k" "length k = 32"
    and clean: "q_retained q = []" "good_env env"
  shows "let q' = fst (load_state c env' True
      (empty_manager dir (Some k) (q_disk (save_state c env q))))
    in task_list q' = map (\<lambda>t. requeue (t\<lparr>tk_config := (tk_config t)\<lparr>ur_files := []\<rparr>\<rparr>)) (task_list q)
      \<and> q_max_concurrent q' = (if q_max_concurrent q > 0 then q_max_concurrent q else 1)"
  by (simp add: restored_state [OF assms] Let_def)

definition demo_task :: "string \<Rightarrow> task_status \<Rightarrow> string \<Rightarrow> task" where
  "demo_task i st password = zero_task\<lparr>tk_id := i, tk_file_name := ''film.mkv'', tk_status := st,
     tk_config := zero_request\<lparr>ur_host := ''nas'', ur_password := password\<rparr>\<rparr>"

definition demo_env :: save_env where
  "demo_env = \<lparr>se_marshal_ok = True, se_root_ok = True, se_write_ok = True,
     se_random = (\<lambda>i. Some (replicate 12 (val_byte i)))\<rparr>"

definition demo_key :: string where
  "demo_key = replicate 32 (CHR ''k'')"

definition demo_queue :: queue_manager where
  "demo_queue = (empty_manager ''data'' (Some demo_key) None)
     \<lparr>q_heap := (\<lambda>a. demo_task ''7'' TaskRunning ''s3cret''), q_next_ref := 1, q_tasks := [0],
      q_max_concurrent := 2, q_next_id := 7\<rparr>"

lemma demo_good [simp]: "good_env demo_env" "length demo_key = 32"
  "q_secret_key demo_queue = Some demo_key" "q_retained demo_queue = []"
  by (simp_all add: good_env_def demo_env_def nonce_size_def demo_key_def demo_queue_def empty_manager_def)

theorem restart_restores_queue_witness:
  "task_list (fst (load_state demo_crypto demo_env True
      (empty_manager ''data'' (Some demo_key) (q_disk (save_state demo_crypto demo_env demo_queue)))))
    = [demo_task ''7'' TaskPending ''s3cret'']"
  using restart_restores_queue [of demo_queue demo_key demo_env demo_crypto demo_env "''data''"]
  by (simp add: Let_def)
    (simp add: demo_queue_def task_list_def demo_task_def requeue_def zero_task_def zero_request_def)

subsection \<open>What a saved file may hold\<close>

lemma seal_password_blank: "ur_password (fst (seal_password c key rnd cfg)) = []"
  by (auto simp: seal_password_def split: option.splits sum.splits)

text \<open>Without a retained plaintext, every entry of the file has an empty password.\<close>

definition no_plain_retained :: "queue_manager \<Rightarrow> bool" where
  "no_plain_retained q \<longleftrightarrow> (\<forall>i r. go_get (q_retained q) i = Some r \<longrightarrow> rs_plain r = [])"

lemma seal_config_blank:
  "no_plain_retained q \<Longrightarrow> ur_password (fst (seal_config c key (q_retained q) rnd t)) = []"
  by (auto simp: seal_config_def no_plain_retained_def seal_password_blank Let_def split: option.splits)

lemma disk_entry_blank: "no_plain_retained q \<Longrightarrow> ur_password (dk_config (disk_entry c env q ia)) = []"
  using seal_config_blank [of q c "q_secret_key q" "se_random env (fst ia)" "task_at q (snd ia)"]
  by (simp add: disk_entry_def Let_def case_prod_beta)

lemma open_config_keeps_blank:
  "no_plain_retained q \<Longrightarrow> q_secret_key q = Some k \<Longrightarrow> no_plain_retained (snd (open_config c i d q))"
  by (auto simp: open_config_def no_plain_retained_def retain_def Let_def get_put split: sum.splits)

lemma load_loop_keeps_blank:
  "load_loop c ds q loaded legacy = (q', loaded', legacy') \<Longrightarrow> no_plain_retained q \<Longrightarrow>
     q_secret_key q = Some k \<Longrightarrow> no_plain_retained q'"
proof (induction ds arbitrary: q loaded legacy)
  case Nil
  then show ?case by simp
next
  case (Cons d ds)
  show ?case
  proof (cases "dk_task d")
    case (Some t)
    have "no_plain_retained (load_entry c d t q)"
      using open_config_keeps_blank [OF Cons.prems(2,3), of c "tk_id t" d]
      by (simp add: no_plain_retained_def)
    with Some Cons show ?thesis
      by (simp add: load_loop_Cons)
  qed (use Cons in \<open>simp add: load_loop_Cons\<close>)
qed

lemma load_state_keeps_blank:
  assumes "no_plain_retained q" "q_secret_key q = Some k"
  shows "no_plain_retained (fst (load_state c env ok q))"
proof -
  have "no_plain_retained q1" if "load_loop c ds q [] False = (q1, l, b)" for ds q1 l b
    by (rule load_loop_keeps_blank [OF that assms])
  then show ?thesis
    using assms(1)
    by (auto simp: load_state_def no_plain_retained_def Let_def split: option.splits state_file.splits prod.splits)
qed

text \<open>
  C19. Once the queue has an encryption key, nothing it saves contains a plaintext password,
  whatever file it was started from and whatever tasks were added, changed or removed since:
  only the key and the retained secrets, which \<open>loadState\<close> alone writes, matter.
\<close>

theorem saved_passwords_never_plain:
  assumes "q = fst (load_state c env ok (empty_manager dir (Some k) disk))"
    and later: "q_retained q' = q_retained q"
  shows "list_all (\<lambda>d. ur_password (dk_config d) = []) (ds_tasks (disk_image c env' q'))"
proof -
  have "no_plain_retained q"
    unfolding assms(1) by (rule load_state_keeps_blank) (simp_all add: no_plain_retained_def empty_manager_def)
  then have "no_plain_retained q'"
    using later by (simp add: no_plain_retained_def)
  then show ?thesis
    by (simp add: disk_image_def list_all_iff disk_entry_blank)
qed

theorem saved_passwords_never_plain_witness:
  "list_all (\<lambda>d. ur_password (dk_config d) = []) (ds_tasks (disk_image demo_crypto demo_env demo_queue))"
  by (rule saved_passwords_never_plain
      [where c = demo_crypto and env = demo_env and ok = True and dir = "''data''" and disk = None and k = demo_key,
       OF refl])
    (simp_all add: load_state_def empty_manager_def demo_queue_def)

subsection \<open>Secrets this process cannot read\<close>

definition unreadable :: "crypto \<Rightarrow> string option \<Rightarrow> disk_task \<Rightarrow> bool" where
  "unreadable c key d \<longleftrightarrow> dk_password_enc d \<noteq> [] \<and> ur_password (dk_config d) = [] \<and>
     (case key of None \<Rightarrow> True | Some k \<Rightarrow>
        (case decrypt_secret c k (dk_password_enc d) of Inl _ \<Rightarrow> True | Inr _ \<Rightarrow> False))"

definition entry_ids :: "disk_task list \<Rightarrow> string list" where
  "entry_ids ds = List.map_filter (\<lambda>d. map_option tk_id (dk_task d)) ds"

lemma entry_ids_Cons: "entry_ids (d # ds) = (case dk_task d of None \<Rightarrow> [] | Some t \<Rightarrow> [tk_id t]) @ entry_ids ds"
  by (auto simp: entry_ids_def List.map_filter_def split: option.splits)

lemma entry_ids_mem: "d \<in> set ds \<Longrightarrow> dk_task d = Some t \<Longrightarrow> tk_id t \<in> set (entry_ids ds)"
  by (induction ds) (auto simp: entry_ids_Cons split: option.splits)

lemma open_config_others:
  "j \<noteq> i \<Longrightarrow> go_get (q_retained (snd (open_config c i d q))) j = go_get (q_retained q) j"
  by (auto simp: open_config_def retain_def Let_def get_put split: option.splits sum.splits)

lemma open_config_unreadable:
  "unreadable c (q_secret_key q) d \<Longrightarrow>
     go_get (q_retained (snd (open_config c i d q))) i = Some \<lparr>rs_enc = dk_password_enc d, rs_plain = []\<rparr>"
  by (auto simp: open_config_def retain_def unreadable_def Let_def get_put split: option.splits sum.splits)

lemma load_loop_retained:
  assumes "load_loop c ds q loaded legacy = (q', loaded', legacy')" "distinct (entry_ids ds)"
  shows "(\<forall>j. j \<notin> set (entry_ids ds) \<longrightarrow> go_get (q_retained q') j = go_get (q_retained q) j)
    \<and> (\<forall>d\<in>set ds. \<forall>t. dk_task d = Some t \<longrightarrow> unreadable c (q_secret_key q) d \<longrightarrow>
         go_get (q_retained q') (tk_id t) = Some \<lparr>rs_enc = dk_password_enc d, rs_plain = []\<rparr>)"
  using assms
proof (induction ds arbitrary: q loaded legacy)
  case Nil
  then show ?case by simp
next
  case (Cons d ds)
  show ?case
  proof (cases "dk_task d")
    case None
    with Cons show ?thesis
      by (simp add: load_loop_Cons entry_ids_Cons)
  next
    case (Some t)
    have dist: "tk_id t \<notin> set (entry_ids ds)" "distinct (entry_ids ds)"
      using Cons.prems(2) Some by (simp_all add: entry_ids_Cons)
    have "load_loop c ds (load_entry c d t q) (loaded @ [q_next_ref q])
        (legacy \<or> dk_password_enc d = [] \<and> ur_password (dk_config d) \<noteq> []) = (q', loaded', legacy')"
      using Cons.prems(1) Some by (simp add: load_loop_Cons)
    note IH = Cons.IH [OF this dist(2)]
    show ?thesis
      using IH Some dist(1) open_config_others [of _ "tk_id t" c d q] open_config_unreadable [of c q d "tk_id t"]
      by (auto simp: entry_ids_Cons)
  qed
qed

lemma sealed_retained:
  assumes "go_get retained (tk_id t) = Some r" "ur_password (tk_config t) = []"
  shows "seal_config c key retained rnd t = ((tk_config t)\<lparr>ur_password := rs_plain r\<rparr>, rs_enc r)"
  using assms by (simp add: seal_config_def Let_def)

lemma disk_image_member:
  assumes "a \<in> set (q_tasks q)"
  shows "\<exists>i. disk_entry c env q (i, a) \<in> set (ds_tasks (disk_image c env q))"
proof -
  obtain i where "i < length (q_tasks q)" "q_tasks q ! i = a"
    using assms by (auto simp: in_set_conv_nth)
  then have "(i, a) \<in> set (enumerate 0 (q_tasks q))"
    by (simp add: in_set_enumerate_eq)
  then have "disk_entry c env q (i, a) \<in> disk_entry c env q ` set (enumerate 0 (q_tasks q))"
    by (rule imageI)
  then show ?thesis
    by (intro exI [of _ i]) (simp add: disk_image_def)
qed

lemma disk_entry_fields:
  "dk_task (disk_entry c env q ia) = Some (json_task (task_at q (snd ia)))"
  "dk_password_enc (disk_entry c env q ia) =
     snd (seal_config c (q_secret_key q) (q_retained q) (se_random env (fst ia)) (task_at q (snd ia)))"
  by (simp_all add: disk_entry_def Let_def case_prod_beta)


definition demo_file :: disk_state where
  "demo_file = \<lparr>ds_tasks = [\<lparr>dk_task = Some (json_task (demo_task ''7'' TaskPending [])),
     dk_config = zero_request, dk_password_enc = ''!''\<rparr>], ds_max_concurrent = 1\<rparr>"


end
