(* ===== verification/Queue_Ops.thy ===== *)
theory Queue_Ops
  imports Queue_State Go_Path
begin

text \<open>
  The operations of \<open>QueueManager\<close> that the API calls: adding tasks, controlling them, listing
  them, and managing the throttle of each host. Every operation is the body of one or more
  critical sections; \<open>trigger\<close> is a non-blocking send on a channel of capacity one, so the
  channel is one bit.
\<close>

subsection \<open>Operations\<close>

definition trigger :: "queue_manager \<Rightarrow> queue_manager" where
  "trigger q = q\<lparr>q_worker := True\<rparr>"

definition set_task :: "task_ref \<Rightarrow> task \<Rightarrow> queue_manager \<Rightarrow> queue_manager" where
  "set_task a t q = q\<lparr>q_heap := (q_heap q)(a := t)\<rparr>"

text \<open>The locked loop of \<open>AddTasks\<close>; \<open>clock i\<close> is the instant of the \<open>i\<close>-th iteration.\<close>

definition new_task :: "64 word \<Rightarrow> string \<Rightarrow> upload_request \<Rightarrow> instant \<Rightarrow> task" where
  "new_task n file_name cfg now =
     zero_task\<lparr>tk_id := format_uint (unat n), tk_file_name := file_name,
       tk_remote_dir := ur_remote_dir cfg, tk_status := TaskPending, tk_created_at := now,
       tk_config := cfg\<rparr>"

fun add_loop :: "nat \<Rightarrow> (nat \<Rightarrow> instant) \<Rightarrow> string list \<Rightarrow> upload_request \<Rightarrow> queue_manager \<Rightarrow> queue_manager" where
  "add_loop i clock [] cfg q = q"
| "add_loop i clock (f # fs) cfg q =
     (let n = q_next_id q + 1;
          (a, q1) = alloc_task (new_task n f cfg (clock i)) (q\<lparr>q_next_id := n\<rparr>)
      in add_loop (Suc i) clock fs cfg (q1\<lparr>q_tasks := q_tasks q1 @ [a]\<rparr>))"

definition add_tasks_locked :: "(nat \<Rightarrow> instant) \<Rightarrow> string list \<Rightarrow> upload_request \<Rightarrow> queue_manager \<Rightarrow> queue_manager" where
  "add_tasks_locked clock fs cfg q = add_loop 0 clock fs (cfg\<lparr>ur_files := []\<rparr>) q"

definition add_tasks ::
  "crypto \<Rightarrow> save_env \<Rightarrow> (nat \<Rightarrow> instant) \<Rightarrow> string list \<Rightarrow> upload_request \<Rightarrow> queue_manager \<Rightarrow> queue_manager" where
  "add_tasks c env clock fs cfg q =
     (let q1 = add_tasks_locked clock fs cfg q in
      if fs \<noteq> [] then (trigger ^^ length fs) (save_state c env q1) else q1)"

definition add_task ::
  "crypto \<Rightarrow> save_env \<Rightarrow> instant \<Rightarrow> string \<Rightarrow> upload_request \<Rightarrow> queue_manager \<Rightarrow> queue_manager" where
  "add_task c env now f cfg q = add_tasks c env (\<lambda>_. now) [f] cfg q"

text \<open>\<open>ControlTask\<close>: \<open>stat p\<close> tells whether \<open>os.Stat\<close> finds the path.\<close>

type_synonym control_result = "bool \<times> string option"

definition local_path :: "queue_manager \<Rightarrow> task \<Rightarrow> string" where
  "local_path q t = path_join [q_local_dir q, tk_file_name t]"

definition reset_task :: "task \<Rightarrow> task" where
  "reset_task t = t\<lparr>tk_status := TaskPending, tk_error := [], tk_progress := 0,
     tk_bytes_uploaded := 0, tk_started_at := None\<rparr>"

definition cancel_run :: "string \<Rightarrow> queue_manager \<Rightarrow> queue_manager" where
  "cancel_run i q =
     (case go_get (q_active_cancels q) i of
        None \<Rightarrow> q
      | Some tok \<Rightarrow> q\<lparr>q_cancelled_runs := tok # q_cancelled_runs q\<rparr>)"

definition control_found ::
  "crypto \<Rightarrow> save_env \<Rightarrow> (string \<Rightarrow> bool) \<Rightarrow> nat \<Rightarrow> string \<Rightarrow> queue_manager \<Rightarrow> control_result \<times> queue_manager" where
  "control_found c env stat i action q =
     (let a = q_tasks q ! i; t = task_at q a in
      if action = ''pause'' then
        (if tk_status t = TaskPending
         then ((True, None), set_task a (t\<lparr>tk_status := TaskPaused\<rparr>) q)
         else ((False, Some ''task is not pending''), q))
      else if action = ''resume'' then
        (if tk_status t = TaskPaused
         then ((True, None), trigger (set_task a (t\<lparr>tk_status := TaskPending\<rparr>) q))
         else ((False, Some ''task is not paused''), q))
      else if action = ''remove'' then
        (let q1 = (if tk_status t = TaskRunning then cancel_run (tk_id t) q else q);
             q2 = q1\<lparr>q_tasks := take i (q_tasks q1) @ drop (Suc i) (q_tasks q1)\<rparr>
         in ((True, None), trigger (save_state c env q2)))
      else if action = ''retry'' then
        (if tk_status t = TaskFailed \<or> tk_status t = TaskCompleted then
           (if \<not> stat (local_path q t)
            then ((False, Some (''local file no longer exists: '' @ tk_file_name t)), q)
            else ((True, None), trigger (save_state c env (set_task a (reset_task t) q))))
         else ((False, Some ''task is not in a retryable state''), q))
      else ((False, Some (''unknown action: '' @ action)), q))"

fun retry_loop :: "(string \<Rightarrow> bool) \<Rightarrow> task_ref list \<Rightarrow> queue_manager \<Rightarrow> bool \<Rightarrow> queue_manager \<times> bool" where
  "retry_loop stat [] q found = (q, found)"
| "retry_loop stat (a # as) q found =
     (let t = task_at q a in
      if tk_status t = TaskFailed then
        (if \<not> stat (local_path q t) then retry_loop stat as q found
         else retry_loop stat as (set_task a (reset_task t) q) True)
      else retry_loop stat as q found)"

fun first_index :: "('a \<Rightarrow> bool) \<Rightarrow> 'a list \<Rightarrow> nat option" where
  "first_index P [] = None"
| "first_index P (x # xs) = (if P x then Some 0 else map_option Suc (first_index P xs))"

definition finished :: "task_status \<Rightarrow> bool" where
  "finished st \<longleftrightarrow> st = TaskCompleted \<or> st = TaskFailed"

definition control_task ::
  "crypto \<Rightarrow> save_env \<Rightarrow> (string \<Rightarrow> bool) \<Rightarrow> string \<Rightarrow> string \<Rightarrow> queue_manager \<Rightarrow> control_result \<times> queue_manager" where
  "control_task c env stat i action q =
     (case first_index (\<lambda>a. tk_id (task_at q a) = i) (q_tasks q) of
        Some k \<Rightarrow> control_found c env stat k action q
      | None \<Rightarrow>
          if action = ''retry_all_failed'' then
            (let (q1, found) = retry_loop stat (q_tasks q) q False in
             ((True, None), if found then trigger (save_state c env q1) else q1))
          else if action = ''clear_finished'' then
            ((True, None), trigger (save_state c env
               (q\<lparr>q_tasks := filter (\<lambda>a. \<not> finished (tk_status (task_at q a))) (q_tasks q)\<rparr>)))
          else ((False, Some ''task not found''), q))"

definition get_tasks :: "(string \<Rightarrow> bool) \<Rightarrow> queue_manager \<Rightarrow> task list" where
  "get_tasks stat q =
     map (\<lambda>a. let t = task_at q a in
        if tk_status t = TaskFailed \<or> tk_status t = TaskCompleted
        then t\<lparr>tk_local_file_exists := stat (local_path q t)\<rparr>
        else t\<lparr>tk_local_file_exists := True\<rparr>) (q_tasks q)"

subsection \<open>Host throttles\<close>

text \<open>
  Making room in the map of throttles: the first host without pending, running or paused tasks
  in iteration order, or else the first host of another iteration.
\<close>

definition active_hosts :: "queue_manager \<Rightarrow> string list" where
  "active_hosts q = map (\<lambda>t. ur_host (tk_config t))
     (filter (\<lambda>t. tk_status t = TaskPending \<or> tk_status t = TaskRunning \<or> tk_status t = TaskPaused) (task_list q))"

definition max_limiters :: nat where "max_limiters = 100"

definition limiter_room ::
  "string list \<times> string list \<times> string list \<Rightarrow> (string, 'v) go_map \<Rightarrow> (string, 'v) go_map" where
  "limiter_room env m =
     (case env of (active, ord1, ord2) \<Rightarrow>
        if length m \<ge> max_limiters then
          (case find (\<lambda>h. h \<notin> set active) (range_keys ord1 m) of
             Some h \<Rightarrow> go_del h m
           | None \<Rightarrow> (case range_keys ord2 m of [] \<Rightarrow> m | h # _ \<Rightarrow> go_del h m))
        else m)"

definition get_or_create_limiter ::
  "string list \<Rightarrow> string list \<Rightarrow> upload_request \<Rightarrow> queue_manager \<Rightarrow> lim_ref option \<times> queue_manager" where
  "get_or_create_limiter ord1 ord2 cfg q =
     (if ur_rate_limit_kbps cfg \<le> 0 \<and> ur_max_latency_ms cfg \<le> 0 then (None, q)
      else
        let l0 = kbps_limit (ur_rate_limit_kbps cfg);
            limit = (if l0 = 0 then 100 * 1024 * 1024 else l0);
            m0 = kbps_limit (ur_min_limit_kbps cfg);
            min_limit = (if m0 = 0 then 10240 else m0);
            max_lat = wrap64 (ur_max_latency_ms cfg * 1000000);
            host = ur_host cfg
        in case go_get (q_limiters q) host of
             Some r \<Rightarrow>
               (Some r, q\<lparr>q_lim_heap := (q_lim_heap q)(r := update_config limit min_limit max_lat (q_lim_heap q r))\<rparr>)
           | None \<Rightarrow>
               let m = limiter_room (active_hosts q, ord1, ord2) (q_limiters q);
                   r = q_next_lim q;
                   l = new_limiter limit (real_of_int (limiter_burst limit)) min_limit max_lat
               in (Some r, q\<lparr>q_lim_heap := (q_lim_heap q)(r := l), q_next_lim := Suc r,
                     q_limiters := go_put host r m\<rparr>))"

definition update_throttle :: "string \<Rightarrow> int \<Rightarrow> int \<Rightarrow> int \<Rightarrow> queue_manager \<Rightarrow> queue_manager" where
  "update_throttle host rate_kbps min_kbps max_latency_ms q =
     (case go_get (q_limiters q) host of
        None \<Rightarrow> q
      | Some r \<Rightarrow>
          let l0 = kbps_limit rate_kbps;
              limit = (if l0 = 0 \<and> max_latency_ms > 0 then 100 * 1024 * 1024 else l0);
              m0 = kbps_limit min_kbps;
              min_limit = (if m0 = 0 then 10240 else m0);
              max_lat = wrap64 (max_latency_ms * 1000000)
          in q\<lparr>q_lim_heap := (q_lim_heap q)(r := update_config limit min_limit max_lat (q_lim_heap q r))\<rparr>)"

definition update_concurrency :: "int \<Rightarrow> queue_manager \<Rightarrow> queue_manager" where
  "update_concurrency n q = (if q_max_concurrent q \<noteq> n then q\<lparr>q_max_concurrent := n\<rparr> else q)"

definition update_host_limiter :: "string \<Rightarrow> int \<Rightarrow> int \<Rightarrow> int \<Rightarrow> int \<Rightarrow> queue_manager \<Rightarrow> queue_manager" where
  "update_host_limiter host rate_kbps min_kbps max_latency_ms concurrent_files q =
     (let q1 = update_throttle host rate_kbps min_kbps max_latency_ms q in
      if concurrent_files > 0 then trigger (update_concurrency concurrent_files q1) else q1)"

subsection \<open>Statistics\<close>

record host_agg =
  ha_active :: int
  ha_speed :: real

text \<open>\<open>clock i\<close> is the instant of the \<open>i\<close>-th task's \<open>time.Since\<close>.\<close>

fun agg_loop :: "nat \<Rightarrow> (nat \<Rightarrow> instant) \<Rightarrow> task list \<Rightarrow> (string, host_agg) go_map \<Rightarrow> (string, host_agg) go_map" where
  "agg_loop i clock [] aggs = aggs"
| "agg_loop i clock (t # ts) aggs =
     (if tk_status t = TaskRunning \<or> tk_status t = TaskPending then
        (let h = ur_host (tk_config t);
             agg = (case go_get aggs h of None \<Rightarrow> \<lparr>ha_active = 0, ha_speed = 0\<rparr> | Some g \<Rightarrow> g);
             agg' = (if tk_status t = TaskRunning then
                (let g = agg\<lparr>ha_active := ha_active agg + 1\<rparr> in
                 case tk_started_at t of
                   None \<Rightarrow> g
                 | Some s \<Rightarrow>
                     let elapsed = real_of_int (clock i - s) / 10 ^ 9 in
                     if tk_bytes_uploaded t > 0 \<and> elapsed > 0
                     then g\<lparr>ha_speed := ha_speed g + real_of_int (tk_bytes_uploaded t) / elapsed\<rparr> else g)
              else agg)
         in agg_loop (Suc i) clock ts (go_put h agg' aggs))
      else agg_loop (Suc i) clock ts aggs)"

definition get_host_stats :: "(nat \<Rightarrow> instant) \<Rightarrow> string list \<Rightarrow> queue_manager \<Rightarrow> host_stats list" where
  "get_host_stats clock ord q =
     (let aggs = agg_loop 0 clock (task_list q) [] in
      List.map_filter (\<lambda>h.
        case (go_get aggs h, go_get (q_limiters q) h) of
          (Some agg, Some r) \<Rightarrow>
            (case get_stats (q_lim_heap q r) of (cur_kb, max_kb, lat) \<Rightarrow>
               Some \<lparr>hs_host = h, hs_last_latency_ms = go_div lat 1000000, hs_current_limit_kb = cur_kb,
                 hs_max_limit_kb = max_kb, hs_active_tasks = ha_active agg,
                 hs_total_speed_kbps = ha_speed agg / 1024\<rparr>)
        | _ \<Rightarrow> None) (range_keys ord (q_limiters q)))"

subsection \<open>The throttle map stays bounded\<close>

definition room_env_ok ::
  "string list \<times> string list \<times> string list \<Rightarrow> (string, 'v) go_map \<Rightarrow> bool" where
  "room_env_ok env m = (case env of (active, ord1, ord2) \<Rightarrow> covers ord1 m \<and> covers ord2 m)"

lemma limiter_room_sub: "set (limiter_room env m) \<subseteq> set m"
  by (cases env) (auto simp: limiter_room_def split: option.splits list.splits if_splits
      dest: set_del_sub [THEN subsetD])

lemma limiter_room_below:
  assumes "room_env_ok env m" "length m \<le> max_limiters"
  shows "length (limiter_room env m) < max_limiters"
proof (cases "length m \<ge> max_limiters")
  case False
  then show ?thesis by (simp add: limiter_room_def split: prod.splits)
next
  case True
  obtain active ord1 ord2 where env: "env = (active, ord1, ord2)" by (cases env)
  show ?thesis
  proof (cases "find (\<lambda>h. h \<notin> set active) (range_keys ord1 m)")
    case (Some h)
    then have "h \<in> set (range_keys ord1 m)" by (auto simp: find_Some_iff)
    then have "h \<in> fst ` set m" using range_keys_sub by fast
    then have "length (go_del h m) < length m" by (rule length_del_less)
    with True Some env assms(2) show ?thesis by (simp add: limiter_room_def)
  next
    case None
    have "m \<noteq> []" using True by (auto simp: max_limiters_def)
    then obtain h hs where h: "range_keys ord2 m = h # hs"
      using assms(1) env range_keys_Nil [of ord2 m]
      by (cases "range_keys ord2 m") (auto simp: room_env_ok_def)
    then have "h \<in> fst ` set m" using range_keys_sub [of ord2 m] by auto
    then have "length (go_del h m) < length m" by (rule length_del_less)
    with True None h env assms(2) show ?thesis by (simp add: limiter_room_def)
  qed
qed

interpretation throttles: capped_table limiter_room room_env_ok max_limiters
proof
  show "map_ok m \<Longrightarrow> map_ok (limiter_room e m)" for e and m :: "(string, 'a) go_map"
    by (auto simp: limiter_room_def split: prod.splits option.splits list.splits)
qed (auto simp: limiter_room_below intro: limiter_room_sub [THEN subsetD])

lemma limiter_created:
  assumes "get_or_create_limiter ord1 ord2 cfg q = (res, q')"
  shows "q_limiters q' = q_limiters q \<or>
    q_limiters q' = go_put (ur_host cfg) (q_next_lim q) (limiter_room (active_hosts q, ord1, ord2) (q_limiters q))"
  using assms by (auto simp: get_or_create_limiter_def Let_def split: if_splits option.splits)

text \<open>
  The map of host throttles holds at most 100 entries: creating the throttle of a new host
  evicts one first, in whatever order the runtime iterates over the map.
\<close>

theorem limiters_bounded:
  assumes "map_ok (q_limiters q)" "length (q_limiters q) \<le> 100"
    "covers ord1 (q_limiters q)" "covers ord2 (q_limiters q)"
  shows "length (q_limiters (snd (get_or_create_limiter ord1 ord2 cfg q))) \<le> 100
    \<and> map_ok (q_limiters (snd (get_or_create_limiter ord1 ord2 cfg q)))"
proof -
  let ?env = "(active_hosts q, ord1, ord2)"
  have "room_env_ok ?env (q_limiters q)" using assms by (simp add: room_env_ok_def)
  then have "length (go_put h r (limiter_room ?env (q_limiters q))) \<le> 100" for h r
    using throttles.insert_within [OF assms(1), of ?env h r] assms(2) by (simp add: max_limiters_def)
  moreover have "map_ok (go_put h r (limiter_room ?env (q_limiters q)))" for h r
    by (rule throttles.insert_ok [OF assms(1)])
  ultimately show ?thesis
    using limiter_created [of ord1 ord2 cfg q] assms
    by (cases "get_or_create_limiter ord1 ord2 cfg q") force
qed

theorem limiters_bounded_witness:
  "length (q_limiters (snd (get_or_create_limiter [] [] (zero_request\<lparr>ur_host := ''nas'', ur_rate_limit_kbps := 200\<rparr>) demo_queue))) \<le> 100"
  using limiters_bounded [of demo_queue "[]" "[]" "zero_request\<lparr>ur_host := ''nas'', ur_rate_limit_kbps := 200\<rparr>"]
  by (simp add: demo_queue_def empty_manager_def covers_def)

text \<open>
  A host whose transfers still run or wait keeps its throttle when another host is idle.
\<close>

lemma active_host_kept:
  assumes "map_ok m" "covers ord1 m" "h \<in> set active" "\<exists>g\<in>fst ` set m. g \<notin> set active"
  shows "go_get (limiter_room (active, ord1, ord2) m) h = go_get m h"
proof -
  obtain g where "find (\<lambda>h. h \<notin> set active) (range_keys ord1 m) = Some g" "g \<notin> set active"
  proof (cases "find (\<lambda>h. h \<notin> set active) (range_keys ord1 m)")
    case None
    then have "\<forall>h\<in>fst ` set m. h \<in> set active"
      using set_range_keys [OF assms(2)] by (simp add: find_None_iff)
    with assms(4) show ?thesis by blast
  qed (auto simp: find_Some_iff)
  with assms(3) show ?thesis
    by (auto simp: limiter_room_def get_del)
qed

subsection \<open>Identifiers of new tasks\<close>

definition id_num :: "queue_manager \<Rightarrow> task_ref \<Rightarrow> nat" where
  "id_num q a = fst (parse_uint (tk_id (task_at q a)))"

definition refs_ok :: "queue_manager \<Rightarrow> bool" where
  "refs_ok q \<longleftrightarrow> distinct (q_tasks q) \<and> (\<forall>a\<in>set (q_tasks q). a < q_next_ref q)"

text \<open>No task in the list has a number above the counter, whatever its identifier looks like.\<close>

definition ids_below :: "queue_manager \<Rightarrow> bool" where
  "ids_below q \<longleftrightarrow> (\<forall>a\<in>set (q_tasks q). id_num q a \<le> unat (q_next_id q))"

lemma unat_next:
  "unat (n :: 64 word) + Suc k < 2 ^ 64 \<Longrightarrow> unat (n + 1) = Suc (unat n)"
  by (simp add: unat_word_ariths)

lemma add_loop_spec:
  assumes "refs_ok q" "unat (q_next_id q) + length fs < 2 ^ 64"
  shows "refs_ok (add_loop i clock fs cfg q)
    \<and> q_tasks (add_loop i clock fs cfg q) = q_tasks q @ [q_next_ref q ..< q_next_ref q + length fs]
    \<and> (\<forall>a < q_next_ref q. task_at (add_loop i clock fs cfg q) a = task_at q a)
    \<and> map (q_heap (add_loop i clock fs cfg q)) [q_next_ref q ..< q_next_ref q + length fs]
        = map (\<lambda>(k, f). new_task (q_next_id q + word_of_nat (Suc k)) f cfg (clock (i + k))) (enumerate 0 fs)
    \<and> unat (q_next_id (add_loop i clock fs cfg q)) = unat (q_next_id q) + length fs"
  using assms
proof (induction fs arbitrary: i q)
  case Nil
  then show ?case by simp
next
  case (Cons f fs)
  let ?n = "q_next_id q + 1"
  let ?a = "q_next_ref q"
  let ?q = "q\<lparr>q_next_id := ?n, q_heap := (q_heap q)(?a := new_task ?n f cfg (clock i)),
      q_next_ref := Suc ?a, q_tasks := q_tasks q @ [?a]\<rparr>"
  have step: "add_loop i clock (f # fs) cfg q = add_loop (Suc i) clock fs cfg ?q"
    by (simp add: alloc_task_def Let_def)
  have n: "unat ?n = Suc (unat (q_next_id q))"
    using Cons.prems(2) by (intro unat_next [where k = "length fs"]) simp
  have ok: "refs_ok ?q" using Cons.prems(1) by (auto simp: refs_ok_def intro: less_SucI)
  have "unat (q_next_id ?q) + length fs < 2 ^ 64" using n Cons.prems(2) by simp
  note IH = Cons.IH [OF ok this, of "Suc i"]
  have upt: "[?a ..< ?a + length (f # fs)] = ?a # [Suc ?a ..< Suc ?a + length fs]"
    by (simp add: upt_conv_Cons del: upt_Suc)
  have word: "q_next_id q + 1 + word_of_nat (Suc k) = q_next_id q + (word_of_nat (Suc (Suc k)) :: 64 word)" for k
    by simp
  have enum: "map (\<lambda>(k, f). new_task (q_next_id q + 1 + word_of_nat (Suc k)) f cfg (clock (Suc i + k))) (enumerate 0 fs)
      = map (\<lambda>(k, f). new_task (q_next_id q + word_of_nat (Suc k)) f cfg (clock (i + k))) (enumerate (Suc 0) fs)"
    by (rule nth_equalityI) (simp_all add: nth_enumerate_eq ac_simps)
  let ?q' = "add_loop (Suc i) clock fs cfg ?q"
  have ref: "q_next_ref ?q = Suc ?a" "q_next_id ?q = ?n" "q_tasks ?q = q_tasks q @ [?a]" by simp_all
  have tasks: "q_tasks ?q' = q_tasks q @ ?a # [Suc ?a ..< Suc ?a + length fs]"
    using IH unfolding ref by (simp only: append.assoc append_Cons append_Nil)
  have frame: "\<forall>a < Suc ?a. task_at ?q' a = task_at ?q a"
    using IH unfolding ref by blast
  have heap: "map (q_heap ?q') [Suc ?a ..< Suc ?a + length fs] =
      map (\<lambda>(k, f). new_task (q_next_id q + word_of_nat (Suc k)) f cfg (clock (i + k))) (enumerate (Suc 0) fs)"
    using IH unfolding ref enum by blast
  have "task_at ?q' ?a = new_task ?n f cfg (clock i)"
    using frame by simp
  then have "map (q_heap ?q') (?a # [Suc ?a ..< Suc ?a + length fs]) =
      map (\<lambda>(k, f). new_task (q_next_id q + word_of_nat (Suc k)) f cfg (clock (i + k))) (enumerate 0 (f # fs))"
    using heap by simp
  moreover have "refs_ok ?q'" "unat (q_next_id ?q') = unat (q_next_id q) + length (f # fs)"
    using IH n by simp_all
  ultimately show ?case
    unfolding step upt using tasks frame by simp
qed

lemma trigger_frame [simp]:
  "q_heap (trigger q) = q_heap q" "q_tasks (trigger q) = q_tasks q" "q_worker (trigger q)"
  "q_next_ref (trigger q) = q_next_ref q" "q_next_id (trigger q) = q_next_id q"
  "q_max_concurrent (trigger q) = q_max_concurrent q" "q_running_tasks (trigger q) = q_running_tasks q"
  "q_active_cancels (trigger q) = q_active_cancels q" "q_disk (trigger q) = q_disk q"
  "q_limiters (trigger q) = q_limiters q" "q_cancelled (trigger q) = q_cancelled q"
  by (simp_all add: trigger_def)

lemma triggers_frame:
  "(trigger ^^ n) q = (if n = 0 then q else trigger q)"
  by (induction n) (simp_all add: trigger_def)

lemma unat_le_max: "unat (w :: 64 word) \<le> max_uint64"
  using unsigned_less [of w, where 'a = nat] by (simp add: max_uint64_def)

lemma parse_new_id [simp]: "fst (parse_uint (format_uint (unat (w :: 64 word)))) = unat w"
  by (simp add: parse_format unat_le_max)

lemma unat_add_small:
  assumes "unat (w :: 64 word) + m < 2 ^ 64"
  shows "unat (w + word_of_nat m) = unat w + m"
proof -
  have "unat (word_of_nat m :: 64 word) = m"
    using assms by (simp add: unat_of_nat)
  with assms show ?thesis by (simp add: unat_word_ariths)
qed

lemma add_tasks_lists:
  assumes "refs_ok q" "unat (q_next_id q) + length fs < 2 ^ 64"
  shows "task_list (add_tasks c env clock fs cfg q) = task_list q @
      map (\<lambda>(k, f). new_task (q_next_id q + word_of_nat (Suc k)) f (cfg\<lparr>ur_files := []\<rparr>) (clock k)) (enumerate 0 fs)
    \<and> refs_ok (add_tasks c env clock fs cfg q)
    \<and> unat (q_next_id (add_tasks c env clock fs cfg q)) = unat (q_next_id q) + length fs"
proof -
  let ?q = "add_tasks_locked clock fs cfg q"
  have frame: "task_list (add_tasks c env clock fs cfg q) = task_list ?q"
    "refs_ok (add_tasks c env clock fs cfg q) = refs_ok ?q"
    "q_next_id (add_tasks c env clock fs cfg q) = q_next_id ?q"
    by (simp_all add: add_tasks_def Let_def triggers_frame task_list_def refs_ok_def)
  note spec = add_loop_spec [OF assms, of 0 clock "cfg\<lparr>ur_files := []\<rparr>", folded add_tasks_locked_def]
  have "map (q_heap ?q) (q_tasks q) = map (q_heap q) (q_tasks q)"
    using spec assms(1) by (auto simp: refs_ok_def)
  then show ?thesis
    unfolding frame using spec by (simp add: task_list_def)
qed

text \<open>
  Adding a batch appends one pending task per file, in the order of the request, without
  the batch list; their identifiers are distinct and differ from every identifier in the queue,
  also from those a state file brought in, as long as the 64-bit counter does not wrap.
\<close>

theorem added_tasks_fresh:
  assumes "refs_ok q" "ids_below q" "unat (q_next_id q) + length fs < 2 ^ 64"
  shows "\<exists>new. task_list (add_tasks c env clock fs cfg q) = task_list q @ new
    \<and> map tk_file_name new = fs \<and> distinct (map tk_id new)
    \<and> set (map tk_id new) \<inter> set (map tk_id (task_list q)) = {}
    \<and> list_all (\<lambda>t. tk_status t = TaskPending \<and> ur_files (tk_config t) = []) new"
proof -
  define new where "new = map (\<lambda>(k, f). new_task (q_next_id q + word_of_nat (Suc k)) f (cfg\<lparr>ur_files := []\<rparr>) (clock k)) (enumerate 0 fs)"
  have lists: "task_list (add_tasks c env clock fs cfg q) = task_list q @ new"
    unfolding new_def using add_tasks_lists [OF assms(1,3)] by blast
  have num: "unat (q_next_id q + word_of_nat (Suc k)) = unat (q_next_id q) + Suc k" if "k < length fs" for k
    using assms(3) that by (intro unat_add_small) simp
  have ids: "map (fst \<circ> parse_uint \<circ> tk_id) new = map (\<lambda>k. unat (q_next_id q) + Suc k) [0..<length fs]"
  proof (rule nth_equalityI)
    fix k assume "k < length (map (fst \<circ> parse_uint \<circ> tk_id) new)"
    then show "map (fst \<circ> parse_uint \<circ> tk_id) new ! k = map (\<lambda>k. unat (q_next_id q) + Suc k) [0..<length fs] ! k"
      using num [of k] parse_new_id [of "q_next_id q + word_of_nat (Suc k)"]
      by (simp add: new_def nth_enumerate_eq new_task_def del: of_nat_Suc)
  qed (simp add: new_def)
  have "distinct (map (fst \<circ> parse_uint \<circ> tk_id) new)"
    unfolding ids by (simp add: distinct_map inj_on_def)
  then have "distinct (map tk_id new)"
    by (auto simp: distinct_map inj_on_def)
  moreover have "tk_id t \<noteq> tk_id u" if "t \<in> set new" "u \<in> set (task_list q)" for t u
  proof -
    have "fst (parse_uint (tk_id t)) \<in> set (map (fst \<circ> parse_uint \<circ> tk_id) new)"
      using that(1) by auto
    then have "unat (q_next_id q) < fst (parse_uint (tk_id t))"
      unfolding ids by auto
    moreover have "fst (parse_uint (tk_id u)) \<le> unat (q_next_id q)"
      using that(2) assms(2) by (auto simp: task_list_def ids_below_def id_num_def)
    ultimately show ?thesis by auto
  qed
  moreover have "map tk_file_name new = fs"
    by (rule nth_equalityI) (simp_all add: new_def nth_enumerate_eq new_task_def)
  moreover have "list_all (\<lambda>t. tk_status t = TaskPending \<and> ur_files (tk_config t) = []) new"
    by (auto simp: list_all_iff new_def new_task_def)
  ultimately show ?thesis
    using lists by (intro exI [of _ new]) auto
qed

lemma demo_list: "task_list demo_queue = [demo_task ''7'' TaskRunning ''s3cret'']" "tk_id (demo_task i st p) = i"
  by (simp_all add: demo_queue_def task_list_def demo_task_def)

theorem added_tasks_fresh_witness:
  "\<exists>new. task_list (add_tasks demo_crypto demo_env (\<lambda>_. 0) [''a'', ''b''] zero_request demo_queue)
      = task_list demo_queue @ new \<and> map tk_file_name new = [''a'', ''b''] \<and> distinct (map tk_id new)
    \<and> set (map tk_id new) \<inter> {''7''} = {}
    \<and> list_all (\<lambda>t. tk_status t = TaskPending \<and> ur_files (tk_config t) = []) new"
proof -
  have "parse_uint ''7'' = (7, None)"
    by (simp add: parse_uint_def digit_val_def max_uint64_def)
  then have "refs_ok demo_queue" "ids_below demo_queue"
    by (simp_all add: refs_ok_def ids_below_def id_num_def demo_queue_def demo_task_def)
  moreover have "unat (q_next_id demo_queue) + length [''a'', ''b''] < 2 ^ 64"
    by (simp add: demo_queue_def)
  ultimately show ?thesis
    using added_tasks_fresh [of demo_queue "[''a'', ''b'']" demo_crypto demo_env "\<lambda>_. 0" zero_request]
    by (simp add: demo_list)
qed

subsection \<open>Loading establishes the reference and identifier invariants\<close>

lemma load_loop_ids:
  assumes "load_loop c ds q loaded legacy = (q', loaded', legacy')"
    "\<forall>a\<in>set loaded. a < q_next_ref q \<and> id_num q a \<le> unat (q_next_id q)"
  shows "\<forall>a\<in>set loaded'. id_num q' a \<le> unat (q_next_id q')"
  using assms
proof (induction ds arbitrary: q loaded legacy)
  case Nil
  then show ?case by simp
next
  case (Cons d ds)
  show ?case
  proof (cases "dk_task d")
    case (Some t)
    let ?q = "load_entry c d t q"
    let ?v = "fst (parse_uint (tk_id t))"
    have v: "unat (word_of_nat ?v :: 64 word) = ?v"
      using parse_uint_le [of "tk_id t"] by (simp add: unat_of_nat max_uint64_def)
    have next_id: "unat (q_next_id q) \<le> unat (q_next_id ?q)" "?v \<le> unat (q_next_id ?q)"
      using v by (simp_all add: max_def word_le_nat_alt)
    have "\<forall>a\<in>set (loaded @ [q_next_ref q]). a < q_next_ref ?q \<and> id_num ?q a \<le> unat (q_next_id ?q)"
      using Cons.prems(2) next_id
      by (auto simp: id_num_def requeue_def intro: less_SucI le_trans simp del: load_entry_simps(11))
    then show ?thesis
      using Cons.IH [of ?q "loaded @ [q_next_ref q]"] Cons.prems(1) Some by (simp add: load_loop_Cons)
  qed (use Cons in \<open>simp add: load_loop_Cons\<close>)
qed

lemma load_state_ok:
  assumes "q = fst (load_state c env ok (empty_manager dir key disk))"
  shows "refs_ok q \<and> ids_below q"
proof -
  let ?q0 = "empty_manager dir key disk"
  have "refs_ok (q1\<lparr>q_tasks := l\<rparr>) \<and> ids_below (q1\<lparr>q_tasks := l\<rparr>)"
    if "load_loop c ds ?q0 [] False = (q1, l, b)" for ds q1 l b
    using load_loop_tasks [OF that] load_loop_ids [OF that]
    by (simp add: refs_ok_def ids_below_def id_num_def)
  then show ?thesis
    unfolding assms
    by (auto simp: load_state_def Let_def refs_ok_def ids_below_def id_num_def empty_manager_def
        split: option.splits state_file.splits prod.splits)
qed

subsection \<open>Controlling tasks\<close>

lemma first_index_Some: "first_index P xs = Some k \<Longrightarrow> k < length xs \<and> P (xs ! k)"
  by (induction xs arbitrary: k) (auto split: if_splits)

lemma first_index_None: "first_index P xs = None \<longleftrightarrow> (\<forall>x\<in>set xs. \<not> P x)"
  by (induction xs) auto

lemma set_task_frame [simp]:
  "q_tasks (set_task a t q) = q_tasks q" "q_local_dir (set_task a t q) = q_local_dir q"
  "q_disk (set_task a t q) = q_disk q" "task_at (set_task a t q) b = (if b = a then t else task_at q b)"
  "q_worker (set_task a t q) = q_worker q" "q_running_tasks (set_task a t q) = q_running_tasks q"
  "q_max_concurrent (set_task a t q) = q_max_concurrent q" "q_next_ref (set_task a t q) = q_next_ref q"
  "q_active_cancels (set_task a t q) = q_active_cancels q" "q_next_id (set_task a t q) = q_next_id q"
  "q_cancelled (set_task a t q) = q_cancelled q"
  by (simp_all add: set_task_def)

lemma cancel_run_frame [simp]:
  "q_tasks (cancel_run i q) = q_tasks q" "task_at (cancel_run i q) = task_at q"
  "q_worker (cancel_run i q) = q_worker q" "q_running_tasks (cancel_run i q) = q_running_tasks q"
  "q_max_concurrent (cancel_run i q) = q_max_concurrent q" "q_next_ref (cancel_run i q) = q_next_ref q"
  "q_active_cancels (cancel_run i q) = q_active_cancels q" "q_cancelled (cancel_run i q) = q_cancelled q"
  "q_local_dir (cancel_run i q) = q_local_dir q"
  by (simp_all add: cancel_run_def split: option.splits)

text \<open>The changes \<open>ControlTask\<close> may make to one task.\<close>

definition control_change :: "(string \<Rightarrow> bool) \<Rightarrow> string \<Rightarrow> task \<Rightarrow> task \<Rightarrow> bool" where
  "control_change stat dir t t' \<longleftrightarrow> t' = t
     \<or> tk_status t = TaskPending \<and> t' = t\<lparr>tk_status := TaskPaused\<rparr>
     \<or> tk_status t = TaskPaused \<and> t' = t\<lparr>tk_status := TaskPending\<rparr>
     \<or> finished (tk_status t) \<and> stat (path_join [dir, tk_file_name t]) \<and> t' = reset_task t"

lemma control_change_refl [simp]: "control_change stat dir t t"
  by (simp add: control_change_def)

lemma retry_loop_change:
  "q_local_dir q = dir \<Longrightarrow> distinct as \<Longrightarrow>
     (\<forall>a. a \<notin> set as \<longrightarrow> task_at (fst (retry_loop stat as q found)) a = task_at q a)
     \<and> (\<forall>a. control_change stat dir (task_at q a) (task_at (fst (retry_loop stat as q found)) a))
     \<and> q_tasks (fst (retry_loop stat as q found)) = q_tasks q"
proof (induction stat as q found rule: retry_loop.induct)
  case (1 stat q found)
  then show ?case by simp
next
  case (2 stat a as q found)
  show ?case
  proof (cases "tk_status (task_at q a) = TaskFailed \<and> stat (local_path q (task_at q a))")
    case False
    with 2 show ?thesis by (auto simp: Let_def)
  next
    case True
    let ?q = "set_task a (reset_task (task_at q a)) q"
    have IH: "(\<forall>b. b \<notin> set as \<longrightarrow> task_at (fst (retry_loop stat as ?q True)) b = task_at ?q b)
     \<and> (\<forall>b. control_change stat dir (task_at ?q b) (task_at (fst (retry_loop stat as ?q True)) b))
     \<and> q_tasks (fst (retry_loop stat as ?q True)) = q_tasks ?q"
      using "2.IH"(2) [OF refl] True "2.prems" by simp
    have here: "task_at (fst (retry_loop stat as ?q True)) a = reset_task (task_at q a)"
      using IH "2.prems"(2) by simp
    have change: "control_change stat dir (task_at q b) (task_at (fst (retry_loop stat as ?q True)) b)" for b
    proof (cases "b = a")
      case True
      with here \<open>tk_status (task_at q a) = TaskFailed \<and> stat (local_path q (task_at q a))\<close> "2.prems"(1)
      show ?thesis by (simp add: control_change_def finished_def local_path_def)
    next
      case False
      then show ?thesis using IH by (metis set_task_frame(4))
    qed
    show ?thesis
      using True IH change by (simp add: Let_def)
  qed
qed

lemma control_found_change:
  "control_change stat (q_local_dir q) (task_at q a) (task_at (snd (control_found c env stat k action q)) a)"
  by (auto simp: control_found_def control_change_def Let_def finished_def local_path_def)

text \<open>
  Whatever \<open>ControlTask\<close> is asked to do, every task object is left as it is, or paused when
  it was pending, or made pending when it was paused, or reset to pending when it had finished
  and its local file still exists. In particular a running task is never modified.
\<close>

theorem control_task_changes:
  assumes "distinct (q_tasks q)"
  shows "control_change stat (q_local_dir q) (task_at q a)
    (task_at (snd (control_task c env stat i action q)) a)"
proof (cases "first_index (\<lambda>a. tk_id (task_at q a) = i) (q_tasks q)")
  case (Some k)
  then show ?thesis using control_found_change by (simp add: control_task_def)
next
  case None
  obtain q1 found where run: "retry_loop stat (q_tasks q) q False = (q1, found)"
    by fastforce
  have "control_change stat (q_local_dir q) (task_at q a) (task_at q1 a)"
    using retry_loop_change [of q "q_local_dir q" "q_tasks q" stat False, OF refl assms] run by simp
  then show ?thesis
    using None run by (simp add: control_task_def control_change_refl)
qed

theorem control_task_changes_witness:
  "control_change (\<lambda>_. True) ''data'' (demo_task ''7'' TaskRunning ''s3cret'')
     (task_at (snd (control_task demo_crypto demo_env (\<lambda>_. True) ''7'' ''retry'' demo_queue)) 0)"
  using control_task_changes [of demo_queue "\<lambda>_. True" 0 demo_crypto demo_env "''7''" "''retry''"]
  by (simp add: demo_queue_def empty_manager_def)

text \<open>
  An error of \<open>ControlTask\<close> has no effect: when it reports an error it also reports failure,
  and neither the queue, the throttles, the worker's signal nor the state file changed.
\<close>

theorem control_error_no_effect:
  assumes "control_task c env stat i action q = ((ok, Some err), q')"
  shows "\<not> ok \<and> q' = q"
  using assms
  by (auto simp: control_task_def control_found_def Let_def split: option.splits prod.splits if_splits)

theorem control_error_no_effect_witness:
  "snd (control_task demo_crypto demo_env (\<lambda>_. True) ''7'' ''pause'' demo_queue) = demo_queue"
proof -
  have "control_task demo_crypto demo_env (\<lambda>_. True) ''7'' ''pause'' demo_queue
      = ((False, Some ''task is not pending''), demo_queue)"
    by (simp add: control_task_def control_found_def demo_queue_def demo_task_def)
  from control_error_no_effect [OF this] this show ?thesis by simp
qed

lemma take_drop_filter:
  "k < length xs \<Longrightarrow> distinct (map f xs) \<Longrightarrow> f (xs ! k) = i \<Longrightarrow>
     take k xs @ drop (Suc k) xs = filter (\<lambda>x. f x \<noteq> i) xs"
proof (induction xs arbitrary: k)
  case Nil
  then show ?case by simp
next
  case (Cons x xs)
  show ?case
  proof (cases k)
    case 0
    then have "i \<notin> f ` set xs" using Cons.prems by auto
    then have "\<forall>y\<in>set xs. f y \<noteq> i" by blast
    with 0 Cons.prems(3) show ?thesis by (simp add: filter_id_conv)
  next
    case (Suc k')
    then have "f x \<noteq> i" using Cons.prems by auto
    with Suc Cons show ?thesis by simp
  qed
qed

text \<open>
  Removing a task by its identifier takes exactly that task out of the list, keeps the
  order of the others, cancels its run when one is registered, stores the shorter list and
  wakes the worker.
\<close>

theorem remove_task_spec:
  assumes "distinct (map tk_id (task_list q))" "i \<in> set (map tk_id (task_list q))" "good_env env"
  shows "let (res, q') = control_task c env stat i ''remove'' q in
    res = (True, None) \<and> task_list q' = filter (\<lambda>t. tk_id t \<noteq> i) (task_list q) \<and> q_worker q'
    \<and> (\<exists>st. q_disk q' = Some (StateFile st)
          \<and> List.map_filter (map_option tk_id \<circ> dk_task) (ds_tasks st) = map tk_id (task_list q'))"
proof -
  obtain k where k: "first_index (\<lambda>a. tk_id (task_at q a) = i) (q_tasks q) = Some k"
    using assms(2) first_index_None [of "\<lambda>a. tk_id (task_at q a) = i" "q_tasks q"]
    by (cases "first_index (\<lambda>a. tk_id (task_at q a) = i) (q_tasks q)") (auto simp: task_list_def)
  note k' = first_index_Some [OF k]
  define q1 where "q1 = (if tk_status (task_at q (q_tasks q ! k)) = TaskRunning then cancel_run (tk_id (task_at q (q_tasks q ! k))) q else q)"
  define q2 where "q2 = q1\<lparr>q_tasks := take k (q_tasks q1) @ drop (Suc k) (q_tasks q1)\<rparr>"
  have q1: "q_tasks q1 = q_tasks q" "task_at q1 = task_at q" by (simp_all add: q1_def)
  have "take k (q_tasks q) @ drop (Suc k) (q_tasks q) = filter (\<lambda>a. tk_id (task_at q a) \<noteq> i) (q_tasks q)"
    using k' assms(1) by (intro take_drop_filter) (simp_all add: task_list_def comp_def)
  then have list: "task_list q2 = filter (\<lambda>t. tk_id t \<noteq> i) (task_list q)"
    by (simp add: q2_def q1 task_list_def filter_map comp_def)
  have run: "control_task c env stat i ''remove'' q = ((True, None), trigger (save_state c env q2))"
    by (simp add: control_task_def k control_found_def Let_def q2_def q1_def)
  have "List.map_filter (map_option tk_id \<circ> dk_task) (ds_tasks (disk_image c env q2)) = map tk_id (task_list q2)"
  proof -
    have "List.map_filter (\<lambda>ia. (map_option tk_id \<circ> dk_task) (disk_entry c env q2 ia)) (enumerate 0 (q_tasks q2))
      = map (\<lambda>ia. tk_id (task_at q2 (snd ia))) (enumerate 0 (q_tasks q2))"
      by (rule map_filter_total) (simp add: disk_entry_fields json_task_def)
    then show ?thesis
      unfolding disk_image_def disk_state.select_convs map_filter_map task_list_def map_map comp_def
      by (simp add: map_enumerate [where f = "\<lambda>a. tk_id (task_at q2 a)"])
  qed
  then show ?thesis
    using list assms(3) by (simp add: run saved_file task_list_def [of "trigger _"] flip: task_list_def)
qed

theorem remove_task_spec_witness:
  "let (res, q') = control_task demo_crypto demo_env (\<lambda>_. True) ''7'' ''remove'' demo_queue in
    res = (True, None) \<and> task_list q' = [] \<and> q_worker q'
    \<and> (\<exists>st. q_disk q' = Some (StateFile st) \<and> List.map_filter (map_option tk_id \<circ> dk_task) (ds_tasks st) = [])"
  using remove_task_spec [of demo_queue "''7''" demo_env demo_crypto "\<lambda>_. True"]
  by (auto simp: demo_list case_prod_beta Let_def)

text \<open>
  A pause is not durable. Pausing a pending task succeeds without writing the state file
  or waking the worker, so a process restarted from the file last saved has that task pending
  (and will upload it).
\<close>

theorem pause_is_not_durable:
  assumes "q_secret_key q = Some key" "length key = 32" "q_retained q = []" "good_env env"
    and "a \<in> set (q_tasks q)" "distinct (map tk_id (task_list q))" "tk_status (task_at q a) = TaskPending"
  shows "let (res, q') = control_task c env stat (tk_id (task_at q a)) ''pause'' (save_state c env q);
             q'' = fst (load_state c env' True (empty_manager dir (Some key) (q_disk q')))
    in res = (True, None) \<and> tk_status (task_at q' a) = TaskPaused \<and> q_worker q' = q_worker q
      \<and> map tk_id (task_list q'') = map tk_id (task_list q)
      \<and> (\<exists>t\<in>set (task_list q''). tk_id t = tk_id (task_at q a) \<and> tk_status t = TaskPending)"
proof -
  let ?i = "tk_id (task_at q a)" and ?q = "save_state c env q"
  obtain k where k: "first_index (\<lambda>b. tk_id (task_at ?q b) = ?i) (q_tasks ?q) = Some k"
    using assms(5) first_index_None [of "\<lambda>b. tk_id (task_at ?q b) = ?i" "q_tasks ?q"]
    by (cases "first_index (\<lambda>b. tk_id (task_at ?q b) = ?i) (q_tasks ?q)") auto
  have inj: "inj_on (\<lambda>b. tk_id (task_at q b)) (set (q_tasks q))"
    using assms(6) by (simp add: task_list_def distinct_map comp_def)
  have ka: "q_tasks q ! k = a"
    using first_index_Some [OF k] assms(5) by (auto intro: inj_onD [OF inj])
  have run: "control_task c env stat ?i ''pause'' ?q =
      ((True, None), set_task a ((task_at q a)\<lparr>tk_status := TaskPaused\<rparr>) ?q)"
    using k ka assms(7) by (simp add: control_task_def control_found_def)
  have disk: "q_disk (set_task a ((task_at q a)\<lparr>tk_status := TaskPaused\<rparr>) ?q) = q_disk ?q"
    by simp
  have list: "task_list (fst (load_state c env' True (empty_manager dir (Some key) (q_disk ?q))))
      = map (\<lambda>t. requeue (t\<lparr>tk_config := (tk_config t)\<lparr>ur_files := []\<rparr>\<rparr>)) (task_list q)"
    by (rule restored_state(1) [OF assms(1-4)])
  have mem: "task_at q a \<in> set (task_list q)"
    using assms(5) by (simp add: task_list_def)
  let ?t = "requeue ((task_at q a)\<lparr>tk_config := (tk_config (task_at q a))\<lparr>ur_files := []\<rparr>\<rparr>)"
  have "?t \<in> set (task_list (fst (load_state c env' True (empty_manager dir (Some key) (q_disk ?q)))))"
    unfolding list using mem by simp
  moreover have "tk_id ?t = ?i" "tk_status ?t = TaskPending"
    using assms(7) by (simp_all add: requeue_def)
  moreover have "map tk_id (map (\<lambda>t. requeue (t\<lparr>tk_config := (tk_config t)\<lparr>ur_files := []\<rparr>\<rparr>)) (task_list q)) = map tk_id (task_list q)"
    by (simp add: requeue_def)
  ultimately show ?thesis
    by (auto simp: run disk list Let_def simp del: map_map)
qed

definition demo_pending :: queue_manager where
  "demo_pending = demo_queue\<lparr>q_heap := (\<lambda>a. demo_task ''7'' TaskPending ''s3cret'')\<rparr>"

theorem pause_is_not_durable_witness:
  "\<exists>t\<in>set (task_list (fst (load_state demo_crypto demo_env True (empty_manager ''data'' (Some demo_key)
      (q_disk (snd (control_task demo_crypto demo_env (\<lambda>_. True) ''7'' ''pause''
        (save_state demo_crypto demo_env demo_pending)))))))).
    tk_id t = ''7'' \<and> tk_status t = TaskPending"
proof -
  have "q_secret_key demo_pending = Some demo_key" "q_retained demo_pending = []"
    "0 \<in> set (q_tasks demo_pending)" "distinct (map tk_id (task_list demo_pending))"
    and demo: "task_at demo_pending 0 = demo_task ''7'' TaskPending ''s3cret''"
      "tk_status (demo_task ''7'' TaskPending ''s3cret'') = TaskPending"
    by (simp_all add: demo_pending_def demo_queue_def empty_manager_def task_list_def demo_task_def)
  then show ?thesis
    using pause_is_not_durable [of demo_pending demo_key demo_env 0 demo_crypto "\<lambda>_. True" demo_env "''data''"]
    by (simp add: demo demo_list case_prod_beta Let_def)
qed

subsection \<open>What the statistics count\<close>

definition agg_active :: "(string, host_agg) go_map \<Rightarrow> string \<Rightarrow> int" where
  "agg_active m h = (case go_get m h of None \<Rightarrow> 0 | Some g \<Rightarrow> ha_active g)"

definition running_on :: "string \<Rightarrow> task \<Rightarrow> bool" where
  "running_on h t \<longleftrightarrow> tk_status t = TaskRunning \<and> ur_host (tk_config t) = h"

definition waiting_on :: "string \<Rightarrow> task \<Rightarrow> bool" where
  "waiting_on h t \<longleftrightarrow> (tk_status t = TaskRunning \<or> tk_status t = TaskPending) \<and> ur_host (tk_config t) = h"

lemma agg_loop_active:
  "agg_active (agg_loop i clock ts m) h = agg_active m h + int (length (filter (running_on h) ts))"
  by (induction ts arbitrary: i m)
    (auto simp: Let_def agg_active_def running_on_def get_put split: option.splits)

lemma agg_loop_present:
  "go_get (agg_loop i clock ts m) h \<noteq> None \<longleftrightarrow> go_get m h \<noteq> None \<or> (\<exists>t\<in>set ts. waiting_on h t)"
  by (induction ts arbitrary: i m) (auto simp: Let_def waiting_on_def get_put)

text \<open>
  The statistics have one row for each host that has a throttle and a running or pending
  task, no other row, and the row counts exactly the running tasks of that host.
\<close>

theorem host_stats_rows:
  assumes "covers ord (q_limiters q)"
  shows "((\<exists>s\<in>set (get_host_stats clock ord q). hs_host s = h) \<longleftrightarrow>
      h \<in> fst ` set (q_limiters q) \<and> (\<exists>t\<in>set (task_list q). waiting_on h t))
    \<and> distinct (map hs_host (get_host_stats clock ord q))
    \<and> list_all (\<lambda>s. hs_active_tasks s = int (length (filter (running_on (hs_host s)) (task_list q))))
         (get_host_stats clock ord q)"
proof -
  let ?aggs = "agg_loop 0 clock (task_list q) []"
  define row where "row = (\<lambda>h. case (go_get ?aggs h, go_get (q_limiters q) h) of
          (Some agg, Some r) \<Rightarrow>
            (case get_stats (q_lim_heap q r) of (cur_kb, max_kb, lat) \<Rightarrow>
               Some \<lparr>hs_host = h, hs_last_latency_ms = go_div lat 1000000, hs_current_limit_kb = cur_kb,
                 hs_max_limit_kb = max_kb, hs_active_tasks = ha_active agg,
                 hs_total_speed_kbps = ha_speed agg / 1024\<rparr>)
        | _ \<Rightarrow> None)"
  have rows: "get_host_stats clock ord q = List.map_filter row (range_keys ord (q_limiters q))"
    by (simp add: get_host_stats_def row_def)
  have set_rows: "s \<in> set (List.map_filter row xs) \<longleftrightarrow> (\<exists>x\<in>set xs. row x = Some s)" for s xs
    by (induction xs) (auto simp: map_filter_simps split: option.splits)
  have row_host: "row x = Some s \<Longrightarrow> hs_host s = x" for x s
    by (auto simp: row_def split: option.splits prod.splits)
  have row_some: "row x \<noteq> None \<longleftrightarrow> x \<in> fst ` set (q_limiters q) \<and> (\<exists>t\<in>set (task_list q). waiting_on x t)" for x
    using agg_loop_present [of 0 clock "task_list q" "[]" x] map_of_eq_None_iff [of "q_limiters q" x]
    by (auto simp: row_def split: option.splits prod.splits)
  have row_active: "row x = Some s \<Longrightarrow> hs_active_tasks s = int (length (filter (running_on x) (task_list q)))" for x s
    using agg_loop_active [of 0 clock "task_list q" "[]" x]
    by (auto simp: row_def agg_active_def split: option.splits prod.splits)
  have keys: "set (range_keys ord (q_limiters q)) = fst ` set (q_limiters q)"
    by (rule set_range_keys [OF assms])
  have "(\<exists>s\<in>set (get_host_stats clock ord q). hs_host s = h) \<longleftrightarrow>
      h \<in> fst ` set (q_limiters q) \<and> (\<exists>t\<in>set (task_list q). waiting_on h t)"
    unfolding rows Bex_def set_rows keys using row_host row_some [of h] by (auto 4 4)
  moreover have "distinct (map hs_host (get_host_stats clock ord q))"
  proof -
    have "map hs_host (List.map_filter row xs) = filter (\<lambda>x. row x \<noteq> None) xs" for xs
      by (induction xs) (auto simp: map_filter_simps row_host split: option.splits)
    then show ?thesis
      using assms by (simp add: rows range_keys_def covers_def)
  qed
  moreover have "list_all (\<lambda>s. hs_active_tasks s = int (length (filter (running_on (hs_host s)) (task_list q))))
         (get_host_stats clock ord q)"
    unfolding rows list_all_iff Ball_def set_rows using row_active row_host by auto
  ultimately show ?thesis by blast
qed

definition demo_throttled :: queue_manager where
  "demo_throttled = demo_queue\<lparr>q_limiters := [(''nas'', 0)], q_lim_heap := (\<lambda>_. new_limiter 1024 16384 1024 0)\<rparr>"

theorem host_stats_rows_witness:
  "covers [''nas''] (q_limiters demo_throttled)
    \<and> (\<exists>s\<in>set (get_host_stats (\<lambda>_. 0) [''nas''] demo_throttled). hs_host s = ''nas'')
    \<and> list_all (\<lambda>s. hs_active_tasks s = 1 \<or> hs_host s \<noteq> ''nas'') (get_host_stats (\<lambda>_. 0) [''nas''] demo_throttled)"
proof -
  have c: "covers [''nas''] (q_limiters demo_throttled)"
    by (simp add: covers_def demo_throttled_def)
  have l: "task_list demo_throttled = [demo_task ''7'' TaskRunning ''s3cret'']"
    by (simp add: demo_throttled_def demo_queue_def task_list_def)
  have h: "''nas'' \<in> fst ` set (q_limiters demo_throttled)"
    "running_on ''nas'' (demo_task ''7'' TaskRunning ''s3cret'')" "waiting_on ''nas'' (demo_task ''7'' TaskRunning ''s3cret'')"
    by (simp_all add: demo_throttled_def running_on_def waiting_on_def demo_task_def)
  show ?thesis
    using host_stats_rows [OF c, of "\<lambda>_. 0" "''nas''"] c
    by (auto simp: l h list_all_iff)
qed

end
