(* ===== verification/Queue_Spec.thy ===== *)
theory Queue_Spec
  imports Queue_Ops
begin

text \<open>
  What the API promises about the queue, over a simple list: every task is its identifier, its
  status and whether its local file exists. \<open>ControlTask\<close> and \<open>AddTasks\<close> implement the operations
  on that list, and \<open>GetTasks\<close> shows it.
\<close>

subsection \<open>The abstract queue\<close>

type_synonym task_view = "string \<times> task_status \<times> bool"

definition retryable :: "task_view \<Rightarrow> bool" where
  "retryable v = (case v of (i, st, present) \<Rightarrow> present \<and> (st = TaskFailed \<or> st = TaskCompleted))"

definition with_status :: "task_status \<Rightarrow> task_view \<Rightarrow> task_view" where
  "with_status st v = (case v of (i, _, present) \<Rightarrow> (i, st, present))"

text \<open>One operation on the task at position \<open>k\<close>: whether it succeeds, and the list afterwards.\<close>

definition spec_one :: "string \<Rightarrow> nat \<Rightarrow> task_view list \<Rightarrow> bool \<times> task_view list" where
  "spec_one action k vs =
     (let v = vs ! k; st = fst (snd v) in
      if action = ''pause'' \<and> st = TaskPending then (True, vs[k := with_status TaskPaused v])
      else if action = ''resume'' \<and> st = TaskPaused then (True, vs[k := with_status TaskPending v])
      else if action = ''remove'' then (True, take k vs @ drop (Suc k) vs)
      else if action = ''retry'' \<and> retryable v then (True, vs[k := with_status TaskPending v])
      else (False, vs))"

definition spec_control :: "string \<Rightarrow> string \<Rightarrow> task_view list \<Rightarrow> bool \<times> task_view list" where
  "spec_control i action vs =
     (case first_index (\<lambda>v. fst v = i) vs of
        Some k \<Rightarrow> spec_one action k vs
      | None \<Rightarrow>
          if action = ''retry_all_failed'' then
            (True, map (\<lambda>v. if retryable v \<and> fst (snd v) = TaskFailed then with_status TaskPending v else v) vs)
          else if action = ''clear_finished'' then (True, filter (\<lambda>v. \<not> finished (fst (snd v))) vs)
          else (False, vs))"

subsection \<open>The abstraction\<close>

definition view_of :: "(string \<Rightarrow> bool) \<Rightarrow> string \<Rightarrow> task \<Rightarrow> task_view" where
  "view_of stat dir t = (tk_id t, tk_status t, stat (path_join [dir, tk_file_name t]))"

definition queue_view :: "(string \<Rightarrow> bool) \<Rightarrow> queue_manager \<Rightarrow> task_view list" where
  "queue_view stat q = map (\<lambda>a. view_of stat (q_local_dir q) (task_at q a)) (q_tasks q)"

lemma view_simps [simp]:
  "fst (view_of stat dir t) = tk_id t" "fst (snd (view_of stat dir t)) = tk_status t"
  "retryable (view_of stat dir t) = (stat (path_join [dir, tk_file_name t]) \<and> (tk_status t = TaskFailed \<or> tk_status t = TaskCompleted))"
  "with_status st (view_of stat dir t) = view_of stat dir (t\<lparr>tk_status := st\<rparr>)"
  by (simp_all add: view_of_def retryable_def with_status_def)

lemma view_reset [simp]: "view_of stat dir (reset_task t) = view_of stat dir (t\<lparr>tk_status := TaskPending\<rparr>)"
  by (simp add: view_of_def reset_task_def)

lemma length_view [simp]: "length (queue_view stat q) = length (q_tasks q)"
  by (simp add: queue_view_def)

lemma nth_view [simp]:
  "k < length (q_tasks q) \<Longrightarrow> queue_view stat q ! k = view_of stat (q_local_dir q) (task_at q (q_tasks q ! k))"
  by (simp add: queue_view_def)

lemma view_set:
  assumes "distinct (q_tasks q)" "k < length (q_tasks q)"
  shows "queue_view stat (set_task (q_tasks q ! k) t q) = (queue_view stat q)[k := view_of stat (q_local_dir q) t]"
  using assms
  by (intro nth_equalityI) (simp_all add: queue_view_def nth_list_update nth_eq_iff_index_eq)

lemma view_trigger [simp]: "queue_view stat (trigger q) = queue_view stat q"
  by (simp add: queue_view_def trigger_def)

lemma view_save [simp]: "queue_view stat (save_state c env q) = queue_view stat q"
  by (simp add: queue_view_def save_state_def)

lemma first_index_map: "first_index P (map f xs) = first_index (\<lambda>x. P (f x)) xs"
  by (induction xs) simp_all

lemma first_index_view:
  "first_index (\<lambda>v. fst v = i) (queue_view stat q) = first_index (\<lambda>a. tk_id (task_at q a) = i) (q_tasks q)"
  by (simp add: queue_view_def first_index_map)

lemma control_found_view:
  assumes "distinct (q_tasks q)" "k < length (q_tasks q)"
  shows "fst (fst (control_found c env stat k action q)) = fst (spec_one action k (queue_view stat q))
    \<and> queue_view stat (snd (control_found c env stat k action q)) = snd (spec_one action k (queue_view stat q))"
proof -
  have remove: "queue_view stat (q\<lparr>q_tasks := take k (q_tasks q) @ drop (Suc k) (q_tasks q)\<rparr>)
      = take k (queue_view stat q) @ drop (Suc k) (queue_view stat q)" for q
    by (simp add: queue_view_def take_map drop_map)
  have cancel: "queue_view stat (cancel_run i q) = queue_view stat q" for i
    by (simp add: queue_view_def)
  have removed: "queue_view stat ((cancel_run i q)\<lparr>q_tasks := take k (q_tasks q) @ drop (Suc k) (q_tasks q)\<rparr>)
      = take k (queue_view stat q) @ drop (Suc k) (queue_view stat q)" for i
    using remove [of "cancel_run i q"] by (simp add: cancel)
  consider "action = ''pause''" | "action = ''resume''" | "action = ''remove''" | "action = ''retry''"
    | "action \<notin> {''pause'', ''resume'', ''remove'', ''retry''}"
    by blast
  then show ?thesis
    using view_set [OF assms] removed [of "tk_id (task_at q (q_tasks q ! k))"] remove [of q] assms(2)
    by cases (auto simp: control_found_def spec_one_def Let_def local_path_def finished_def)
qed

lemma retry_loop_exact:
  assumes "distinct as"
  shows "q_local_dir (fst (retry_loop stat as q found)) = q_local_dir q
    \<and> q_tasks (fst (retry_loop stat as q found)) = q_tasks q
    \<and> (\<forall>a. task_at (fst (retry_loop stat as q found)) a =
         (if a \<in> set as \<and> tk_status (task_at q a) = TaskFailed \<and> stat (local_path q (task_at q a))
          then reset_task (task_at q a) else task_at q a))"
  using assms
proof (induction stat as q found rule: retry_loop.induct)
  case (2 stat a as q found)
  show ?case
  proof (cases "tk_status (task_at q a) = TaskFailed \<and> stat (local_path q (task_at q a))")
    case True
    have "local_path (set_task b t q) u = local_path q u" for b t u by (simp add: local_path_def)
    with "2.IH"(2) [OF refl] True "2.prems" show ?thesis by (auto simp: Let_def)
  next
    case False
    with 2 show ?thesis by (auto simp: Let_def)
  qed
qed simp

lemma view_cong:
  "q_tasks q' = q_tasks q \<Longrightarrow> q_local_dir q' = q_local_dir q \<Longrightarrow>
    (\<And>a. a \<in> set (q_tasks q) \<Longrightarrow> view_of stat (q_local_dir q) (task_at q' a) = f (view_of stat (q_local_dir q) (task_at q a))) \<Longrightarrow>
    queue_view stat q' = map f (queue_view stat q)"
  by (simp add: queue_view_def)

text \<open>
  C28. \<open>ControlTask\<close> refines the list operation: it succeeds exactly when the specification does,
  and the list of identifiers, statuses and file checks afterwards is the specified one, for
  every action, known or not, on one task or on all of them.
\<close>

theorem control_refines_list:
  assumes "distinct (q_tasks q)"
  shows "fst (fst (control_task c env stat i action q)) = fst (spec_control i action (queue_view stat q))
    \<and> queue_view stat (snd (control_task c env stat i action q)) = snd (spec_control i action (queue_view stat q))"
proof (cases "first_index (\<lambda>a. tk_id (task_at q a) = i) (q_tasks q)")
  case (Some k)
  then show ?thesis
    using control_found_view [OF assms] first_index_Some [OF Some]
    by (simp add: control_task_def spec_control_def first_index_view)
next
  case None
  obtain q1 found where run: "retry_loop stat (q_tasks q) q False = (q1, found)" by fastforce
  have "queue_view stat q1 =
    map (\<lambda>v. if retryable v \<and> fst (snd v) = TaskFailed then with_status TaskPending v else v) (queue_view stat q)"
    using retry_loop_exact [OF assms, of stat q False]
    by (intro view_cong) (auto simp: run local_path_def)
  moreover have "queue_view stat (q\<lparr>q_tasks := filter (\<lambda>a. \<not> finished (tk_status (task_at q a))) (q_tasks q)\<rparr>)
      = filter (\<lambda>v. \<not> finished (fst (snd v))) (queue_view stat q)"
    by (simp add: queue_view_def filter_map comp_def)
  ultimately show ?thesis
    using None run by (simp add: control_task_def spec_control_def first_index_view)
qed

theorem control_refines_list_witness:
  "queue_view (\<lambda>_. True) (snd (control_task demo_crypto demo_env (\<lambda>_. True) '''' ''retry_all_failed''
      (demo_queue\<lparr>q_heap := (\<lambda>a. demo_task ''7'' TaskFailed [])\<rparr>)))
   = [(''7'', TaskPending, True)]"
proof -
  let ?q = "demo_queue\<lparr>q_heap := (\<lambda>a. demo_task ''7'' TaskFailed [])\<rparr>"
  have d: "distinct (q_tasks ?q)" by (simp add: demo_queue_def)
  have "queue_view (\<lambda>_. True) ?q = [(''7'', TaskFailed, True)]"
    by (simp add: queue_view_def view_of_def demo_queue_def demo_task_def)
  with control_refines_list [OF d, of demo_crypto demo_env "\<lambda>_. True" "[]" "''retry_all_failed''"]
  show ?thesis by (simp add: spec_control_def retryable_def with_status_def)
qed

text \<open>What \<open>GetTasks\<close> shows is the list, with the file check only for tasks that have ended.\<close>

lemma get_tasks_view:
  "map (\<lambda>t. (tk_id t, tk_status t, tk_local_file_exists t)) (get_tasks stat q) =
     map (\<lambda>(i, st, present). (i, st, present \<or> \<not> finished st)) (queue_view stat q)"
  by (auto simp: get_tasks_def queue_view_def view_of_def Let_def finished_def local_path_def)

lemma add_tasks_view:
  assumes "refs_ok q" "unat (q_next_id q) + length fs < 2 ^ 64"
  shows "map fst (queue_view stat (add_tasks c env clock fs cfg q)) =
      map fst (queue_view stat q) @ map (\<lambda>k. format_uint (unat (q_next_id q + word_of_nat (Suc k)))) [0..<length fs]"
proof -
  have "map fst (queue_view stat q) = map tk_id (task_list q)" for q
    by (simp add: queue_view_def task_list_def comp_def)
  then show ?thesis
    using add_tasks_lists [OF assms, of c env clock cfg]
    by (auto simp: new_task_def intro!: nth_equalityI simp: nth_enumerate_eq simp del: of_nat_Suc)
qed

end
