(* ===== verification/Queue_Workers.thy ===== *)
theory Queue_Workers
  imports Queue_Ops
begin

text \<open>
  The concurrent part of \<open>QueueManager\<close>: the dispatcher \<open>processLoop\<close>, the upload goroutines
  \<open>runTask\<close>/\<open>processTask\<close>, the API operations and \<open>Shutdown\<close>, as a labelled step relation.

  A step is one critical section of the mutex (or one send on the worker channel), so any
  interleaving of goroutines is a sequence of steps. A send that a goroutine makes after it
  has released the mutex is counted in \<open>sy_due\<close> until the step \<open>Trigger\<close> performs it; a call
  of \<open>AddTasks\<close> that has queued its tasks and not yet saved them is an entry of \<open>sy_adds\<close>, the
  number of sends it will make after the save. A run is
  one \<open>runTask\<close> goroutine; its phase says which of its critical sections it has passed. What
  happens between them (the file checks, \<open>Connect\<close>, the upload) only shows in the error the
  run returns, which the event carries.
\<close>

subsection \<open>The dispatcher\<close>

definition first_pending :: "queue_manager \<Rightarrow> task_ref option" where
  "first_pending q = find (\<lambda>a. tk_status (task_at q a) = TaskPending) (q_tasks q)"

definition start_task :: "instant \<Rightarrow> task_ref \<Rightarrow> queue_manager \<Rightarrow> queue_manager" where
  "start_task now a q =
     (set_task a ((task_at q a)\<lparr>tk_status := TaskRunning, tk_started_at := Some now,
        tk_bytes_uploaded := 0, tk_total_bytes := 0, tk_progress := 0\<rparr>) q)
     \<lparr>q_running_tasks := q_running_tasks q + 1\<rparr>"

function dispatch_loop :: "nat \<Rightarrow> (nat \<Rightarrow> instant) \<Rightarrow> queue_manager \<Rightarrow> task_ref list \<times> queue_manager" where
  "dispatch_loop i clock q =
     (if q_running_tasks q < q_max_concurrent q then
        (case first_pending q of
           None \<Rightarrow> ([], q)
         | Some a \<Rightarrow>
             let (as, q') = dispatch_loop (Suc i) clock (start_task (clock i) a q) in (a # as, q'))
      else ([], q))"
  by pat_completeness auto

termination
  by (relation "measure (\<lambda>(i, clock, q). nat (q_max_concurrent q - q_running_tasks q))")
    (auto simp: start_task_def)

declare dispatch_loop.simps [simp del]

subsection \<open>Upload goroutines\<close>

datatype run_phase =
    Spawned
  | Registered
  | Connected
  | Returned "string option"
  | Finished
  | Saved
  | Unregistered
  | Released

record run =
  rn_ref :: task_ref
  rn_phase :: run_phase

datatype loop_phase = Waiting | Saving | Exited

record system =
  sy_q :: queue_manager
  sy_runs :: "run list"
  sy_due :: nat
  sy_adds :: "nat list"
  sy_loop :: loop_phase

definition boot :: "queue_manager \<times> bool \<Rightarrow> system" where
  "boot r = \<lparr>sy_q = fst r, sy_runs = [], sy_due = (if snd r then 1 else 0), sy_adds = [], sy_loop = Waiting\<rparr>"

text \<open>The context of a run is done when the manager shuts down or the run itself was cancelled.\<close>

definition run_cancelled :: "queue_manager \<Rightarrow> run_token \<Rightarrow> bool" where
  "run_cancelled q tok \<longleftrightarrow> q_cancelled q \<or> tok \<in> set (q_cancelled_runs q)"

definition register_run :: "run_token \<Rightarrow> string \<Rightarrow> queue_manager \<Rightarrow> queue_manager" where
  "register_run tok i q = q\<lparr>q_active_cancels := go_put i tok (q_active_cancels q)\<rparr>"

definition register_closer :: "run_token \<Rightarrow> string \<Rightarrow> queue_manager \<Rightarrow> queue_manager" where
  "register_closer tok i q = q\<lparr>q_active_closers := go_put i tok (q_active_closers q)\<rparr>"

definition report_size :: "int \<Rightarrow> task \<Rightarrow> task" where
  "report_size bytes t = t\<lparr>tk_total_bytes := bytes\<rparr>"

definition report_progress :: "int \<Rightarrow> task \<Rightarrow> task" where
  "report_progress n t =
     (let t' = t\<lparr>tk_bytes_uploaded := n\<rparr> in
      if tk_total_bytes t > 0
      then t'\<lparr>tk_progress := go_div (wrap64 (n * 100)) (tk_total_bytes t)\<rparr> else t')"

definition finish_task :: "string option \<Rightarrow> task \<Rightarrow> task" where
  "finish_task err t =
     (case err of
        Some e \<Rightarrow> t\<lparr>tk_status := TaskFailed, tk_error := e\<rparr>
      | None \<Rightarrow>
          let t' = t\<lparr>tk_status := TaskCompleted, tk_progress := 100\<rparr>
          in if tk_total_bytes t' > 0 then t'\<lparr>tk_bytes_uploaded := tk_total_bytes t'\<rparr> else t')"

text \<open>The number of attempts a task asks for.\<close>

definition task_retries :: "upload_request \<Rightarrow> int" where
  "task_retries cfg =
     (if ur_max_retries cfg > 0 then min (ur_max_retries cfg) max_retries_limit else 3)"

text \<open>
  What \<open>processTask\<close> does before it connects. \<open>abs\<close> and \<open>eval\<close> are \<open>FilepathAbs\<close> and
  \<open>filepath.EvalSymlinks\<close>, \<open>open_root\<close> and \<open>open_in\<close> the two opens of the \<open>os.Root\<close>.
  The result is the path to upload or the text of the error.
\<close>

record file_env =
  fe_abs :: "string \<Rightarrow> string + string"
  fe_eval :: "string \<Rightarrow> string option"
  fe_open_root :: "string \<Rightarrow> string option"
  fe_open :: "string \<Rightarrow> string \<Rightarrow> string option"

definition eval_or :: "file_env \<Rightarrow> string \<Rightarrow> string" where
  "eval_or e p = (case fe_eval e p of None \<Rightarrow> p | Some r \<Rightarrow> r)"

definition candidate_path :: "file_env \<Rightarrow> string \<Rightarrow> string \<Rightarrow> string + string" where
  "candidate_path e local_dir file_name =
     (case fe_abs e local_dir of
        Inl err \<Rightarrow> Inl err
      | Inr base0 \<Rightarrow>
          let base = eval_or e base0 in
          (case fe_abs e (path_join [base, file_name]) of
             Inl err \<Rightarrow> Inl err
           | Inr cand0 \<Rightarrow>
               let cand = eval_or e cand0 in
               (case path_rel base cand of
                  None \<Rightarrow> Inl ''invalid file path: traversal detected''
                | Some rel \<Rightarrow>
                    if escapes rel then Inl ''invalid file path: traversal detected''
                    else
                      (case fe_open_root e base of
                         Some err \<Rightarrow> Inl (''failed to open root for validation: '' @ err)
                       | None \<Rightarrow>
                           (case fe_open e base rel of
                              Some err \<Rightarrow> Inl (''failed to open file for validation: '' @ err)
                            | None \<Rightarrow> Inr cand)))))"

subsection \<open>Steps\<close>

datatype event =
    Trigger
  | Dispatch "nat \<Rightarrow> instant"
  | Loop_Save crypto save_env
  | Loop_Exit
  | Api_Add "nat \<Rightarrow> instant" "string list" upload_request
  | Api_Saved nat crypto save_env
  | Api_Control crypto save_env "string \<Rightarrow> bool" string string
  | Api_Throttle string int int int
  | Api_Concurrency int
  | Shut_Down
  | Run_Register run_token
  | Run_Limiter run_token "string list" "string list"
  | Run_Fail run_token string
  | Run_Connect run_token
  | Run_Size run_token int
  | Run_Progress run_token int
  | Run_Return run_token "string option"
  | Run_Finish run_token
  | Run_Save run_token crypto save_env
  | Run_Unregister run_token
  | Run_Release run_token

definition in_phase :: "system \<Rightarrow> run_token \<Rightarrow> run_phase \<Rightarrow> bool" where
  "in_phase s tok ph \<longleftrightarrow> tok < length (sy_runs s) \<and> rn_phase (sy_runs s ! tok) = ph"

definition run_ref :: "system \<Rightarrow> run_token \<Rightarrow> task_ref" where
  "run_ref s tok = rn_ref (sy_runs s ! tok)"

definition run_id :: "system \<Rightarrow> run_token \<Rightarrow> string" where
  "run_id s tok = tk_id (task_at (sy_q s) (run_ref s tok))"

definition set_phase :: "run_token \<Rightarrow> run_phase \<Rightarrow> system \<Rightarrow> system" where
  "set_phase tok ph s = s\<lparr>sy_runs := (sy_runs s)[tok := (sy_runs s ! tok)\<lparr>rn_phase := ph\<rparr>]\<rparr>"

definition on_queue :: "(queue_manager \<Rightarrow> queue_manager) \<Rightarrow> system \<Rightarrow> system" where
  "on_queue f s = s\<lparr>sy_q := f (sy_q s)\<rparr>"

definition on_task :: "run_token \<Rightarrow> (task \<Rightarrow> task) \<Rightarrow> system \<Rightarrow> system" where
  "on_task tok f s = on_queue (\<lambda>q. set_task (run_ref s tok) (f (task_at q (run_ref s tok))) q) s"

definition owe_trigger :: "nat \<Rightarrow> system \<Rightarrow> system" where
  "owe_trigger n s = s\<lparr>sy_due := sy_due s + n\<rparr>"

definition dispatch :: "(nat \<Rightarrow> instant) \<Rightarrow> system \<Rightarrow> system" where
  "dispatch clock s =
     (let (as, q') = dispatch_loop 0 clock ((sy_q s)\<lparr>q_worker := False\<rparr>) in
      s\<lparr>sy_q := q', sy_runs := sy_runs s @ map (\<lambda>a. \<lparr>rn_ref = a, rn_phase = Spawned\<rparr>) as,
        sy_loop := Saving\<rparr>)"

text \<open>
  A run with a done context is turned away right after it connected; otherwise it registers its
  closer. Returning from the upload first deletes that entry. The entries of both maps are
  deleted by identifier, whichever run stored them.
\<close>

definition connected :: "run_token \<Rightarrow> system \<Rightarrow> system" where
  "connected tok s =
     (if run_cancelled (sy_q s) tok then set_phase tok (Returned (Some ''context canceled'')) s
      else set_phase tok Connected (on_queue (register_closer tok (run_id s tok)) s))"

definition unregister_closer :: "string \<Rightarrow> queue_manager \<Rightarrow> queue_manager" where
  "unregister_closer i q = q\<lparr>q_active_closers := go_del i (q_active_closers q)\<rparr>"

definition unregister_run :: "string \<Rightarrow> queue_manager \<Rightarrow> queue_manager" where
  "unregister_run i q = q\<lparr>q_active_cancels := go_del i (q_active_cancels q)\<rparr>"

definition release_slot :: "queue_manager \<Rightarrow> queue_manager" where
  "release_slot q = q\<lparr>q_running_tasks := q_running_tasks q - 1\<rparr>"

fun returned_error :: "run_phase \<Rightarrow> string option" where
  "returned_error (Returned err) = err"
| "returned_error ph = None"

text \<open>Whether an event can happen, and its effect.\<close>

fun enabled :: "event \<Rightarrow> system \<Rightarrow> bool" where
  "enabled Trigger s = (sy_due s > 0)"
| "enabled (Dispatch clock) s = (sy_loop s = Waiting \<and> q_worker (sy_q s))"
| "enabled (Loop_Save c env) s = (sy_loop s = Saving)"
| "enabled Loop_Exit s = (sy_loop s = Waiting \<and> q_cancelled (sy_q s))"
| "enabled (Run_Register tok) s = in_phase s tok Spawned"
| "enabled (Run_Limiter tok ord1 ord2) s = in_phase s tok Registered"
| "enabled (Run_Fail tok err) s = in_phase s tok Registered"
| "enabled (Run_Connect tok) s = in_phase s tok Registered"
| "enabled (Run_Size tok n) s = in_phase s tok Connected"
| "enabled (Run_Progress tok n) s = in_phase s tok Connected"
| "enabled (Run_Return tok err) s = in_phase s tok Connected"
| "enabled (Run_Finish tok) s = in_phase s tok (Returned (returned_error (rn_phase (sy_runs s ! tok))))"
| "enabled (Run_Save tok c env) s = in_phase s tok Finished"
| "enabled (Run_Unregister tok) s = in_phase s tok Saved"
| "enabled (Run_Release tok) s = in_phase s tok Unregistered"
| "enabled (Api_Saved k c env) s = (k < length (sy_adds s))"
| "enabled e s = True"

fun effect :: "event \<Rightarrow> system \<Rightarrow> system" where
  "effect Trigger s = (on_queue trigger s)\<lparr>sy_due := sy_due s - 1\<rparr>"
| "effect (Dispatch clock) s = dispatch clock s"
| "effect (Loop_Save c env) s = (on_queue (save_state c env) s)\<lparr>sy_loop := Waiting\<rparr>"
| "effect Loop_Exit s = s\<lparr>sy_loop := Exited\<rparr>"
| "effect (Api_Add clock fs cfg) s =
     (on_queue (add_tasks_locked clock fs cfg) s)
     \<lparr>sy_adds := sy_adds s @ (if fs \<noteq> [] then [length fs] else [])\<rparr>"
| "effect (Api_Saved k c env) s =
     (owe_trigger (sy_adds s ! k) (on_queue (save_state c env) s))
     \<lparr>sy_adds := take k (sy_adds s) @ drop (Suc k) (sy_adds s)\<rparr>"
| "effect (Api_Control c env stat i action) s = on_queue (\<lambda>q. snd (control_task c env stat i action q)) s"
| "effect (Api_Throttle host rate min_rate max_lat) s = on_queue (update_throttle host rate min_rate max_lat) s"
| "effect (Api_Concurrency n) s = (if n > 0 then owe_trigger 1 (on_queue (update_concurrency n) s) else s)"
| "effect Shut_Down s = owe_trigger 1 (on_queue (\<lambda>q. q\<lparr>q_cancelled := True\<rparr>) s)"
| "effect (Run_Register tok) s = set_phase tok Registered (on_queue (register_run tok (run_id s tok)) s)"
| "effect (Run_Limiter tok ord1 ord2) s =
     on_queue (\<lambda>q. snd (get_or_create_limiter ord1 ord2 (tk_config (task_at q (run_ref s tok))) q)) s"
| "effect (Run_Fail tok err) s = set_phase tok (Returned (Some err)) s"
| "effect (Run_Connect tok) s = connected tok s"
| "effect (Run_Size tok n) s = on_task tok (report_size n) s"
| "effect (Run_Progress tok n) s = on_task tok (report_progress n) s"
| "effect (Run_Return tok err) s = set_phase tok (Returned err) (on_queue (unregister_closer (run_id s tok)) s)"
| "effect (Run_Finish tok) s =
     set_phase tok Finished (on_task tok (finish_task (returned_error (rn_phase (sy_runs s ! tok)))) s)"
| "effect (Run_Save tok c env) s = owe_trigger 1 (set_phase tok Saved (on_queue (save_state c env) s))"
| "effect (Run_Unregister tok) s = set_phase tok Unregistered (on_queue (unregister_run (run_id s tok)) s)"
| "effect (Run_Release tok) s = owe_trigger 1 (set_phase tok Released (on_queue release_slot s))"

inductive qstep :: "system \<Rightarrow> event \<Rightarrow> system \<Rightarrow> bool" where
  qstep: "enabled e s \<Longrightarrow> qstep s e (effect e s)"

inductive_cases qstep_cases: "qstep s e t"
inductive_simps qstep_simps: "qstep s e t"

definition qstart :: "system \<Rightarrow> bool" where
  "qstart s \<longleftrightarrow> (\<exists>c kenv env root_ok dir disk. s = boot (new_queue_manager c kenv env root_ok dir disk))"

subsection \<open>What the dispatcher starts\<close>

definition is_pending :: "queue_manager \<Rightarrow> task_ref \<Rightarrow> bool" where
  "is_pending q a \<longleftrightarrow> tk_status (task_at q a) = TaskPending"

lemma start_task_frame [simp]:
  "q_tasks (start_task now a q) = q_tasks q" "q_max_concurrent (start_task now a q) = q_max_concurrent q"
  "q_next_ref (start_task now a q) = q_next_ref q" "q_worker (start_task now a q) = q_worker q"
  "q_running_tasks (start_task now a q) = q_running_tasks q + 1"
  "q_active_cancels (start_task now a q) = q_active_cancels q" "q_cancelled (start_task now a q) = q_cancelled q"
  "is_pending (start_task now a q) b \<longleftrightarrow> b \<noteq> a \<and> is_pending q b"
  "tk_status (task_at (start_task now a q) b) = (if b = a then TaskRunning else tk_status (task_at q b))"
  by (simp_all add: start_task_def is_pending_def set_task_def)

lemma first_pending_Some:
  "first_pending q = Some a \<Longrightarrow> a \<in> set (q_tasks q) \<and> is_pending q a"
  by (auto simp: first_pending_def find_Some_iff is_pending_def)

lemma first_pending_None: "first_pending q = None \<longleftrightarrow> (\<forall>a\<in>set (q_tasks q). \<not> is_pending q a)"
  by (auto simp: first_pending_def find_None_iff is_pending_def)

lemma find_filter: "find P xs = (case filter P xs of [] \<Rightarrow> None | x # _ \<Rightarrow> Some x)"
  by (induction xs) auto

lemma dispatch_loop_frame:
  "dispatch_loop i clock q = (as, q') \<Longrightarrow>
     q_tasks q' = q_tasks q \<and> q_max_concurrent q' = q_max_concurrent q \<and> q_next_ref q' = q_next_ref q
     \<and> q_worker q' = q_worker q \<and> q_active_cancels q' = q_active_cancels q \<and> q_cancelled q' = q_cancelled q
     \<and> q_running_tasks q' = q_running_tasks q + int (length as)
     \<and> (q_running_tasks q' < q_max_concurrent q' \<longrightarrow> (\<forall>a\<in>set (q_tasks q'). \<not> is_pending q' a))"
proof (induction i clock q arbitrary: as q' rule: dispatch_loop.induct)
  case (1 i clock q)
  show ?case
  proof (cases "q_running_tasks q < q_max_concurrent q")
    case False
    with "1.prems" show ?thesis by (simp add: dispatch_loop.simps [of i])
  next
    case True
    show ?thesis
    proof (cases "first_pending q")
      case None
      with True "1.prems" show ?thesis
        by (simp add: dispatch_loop.simps [of i]) (metis first_pending_None)
    next
      case (Some a)
      obtain bs q1 where r: "dispatch_loop (Suc i) clock (start_task (clock i) a q) = (bs, q1)"
        by fastforce
      with "1.IH" [OF True Some r] True Some "1.prems" show ?thesis
        by (auto simp: dispatch_loop.simps [of i])
    qed
  qed
qed

lemma dispatch_loop_starts:
  "dispatch_loop i clock q = (as, q') \<Longrightarrow>
     distinct as \<and> set as \<subseteq> set (q_tasks q) \<and> (\<forall>a\<in>set as. is_pending q a)
     \<and> (\<forall>a. tk_status (task_at q' a) = (if a \<in> set as then TaskRunning else tk_status (task_at q a)))"
proof (induction i clock q arbitrary: as q' rule: dispatch_loop.induct)
  case (1 i clock q)
  show ?case
  proof (cases "q_running_tasks q < q_max_concurrent q \<and> first_pending q \<noteq> None")
    case False
    with "1.prems" show ?thesis by (auto simp: dispatch_loop.simps [of i] split: if_splits option.splits)
  next
    case True
    then obtain a where a: "first_pending q = Some a" by blast
    obtain bs q1 where r: "dispatch_loop (Suc i) clock (start_task (clock i) a q) = (bs, q1)"
      by fastforce
    have eq: "as = a # bs" "q' = q1"
      using True a r "1.prems" by (simp_all add: dispatch_loop.simps [of i])
    show ?thesis
      using "1.IH" [OF conjunct1 [OF True] a r] first_pending_Some [OF a] by (auto simp: eq)
  qed
qed

lemma dispatch_loop_order:
  "distinct (q_tasks q) \<Longrightarrow>
     fst (dispatch_loop i clock q)
       = take (nat (q_max_concurrent q - q_running_tasks q)) (filter (is_pending q) (q_tasks q))"
proof (induction i clock q rule: dispatch_loop.induct)
  case (1 i clock q)
  show ?case
  proof (cases "q_running_tasks q < q_max_concurrent q")
    case False
    then show ?thesis by (simp add: dispatch_loop.simps [of i])
  next
    case True
    have f: "first_pending q = (case filter (is_pending q) (q_tasks q) of [] \<Rightarrow> None | x # _ \<Rightarrow> Some x)"
      by (simp add: first_pending_def is_pending_def find_filter cong: filter_cong)
    show ?thesis
    proof (cases "filter (is_pending q) (q_tasks q)")
      case Nil
      with f True show ?thesis by (simp add: dispatch_loop.simps [of i])
    next
      case (Cons a rest)
      then have a: "first_pending q = Some a" by (simp add: f)
      have "distinct (a # rest)" using "1.prems" Cons by (metis distinct_filter)
      have "filter (\<lambda>b. b \<noteq> a \<and> is_pending q b) (q_tasks q) = filter (\<lambda>b. b \<noteq> a) (filter (is_pending q) (q_tasks q))"
        unfolding filter_filter by (rule filter_cong) auto
      also have "\<dots> = rest"
        using \<open>distinct (a # rest)\<close> by (auto simp: Cons filter_id_conv simp del: filter_filter)
      finally have rest: "filter (\<lambda>b. b \<noteq> a \<and> is_pending q b) (q_tasks q) = rest" .
      have n: "nat (q_max_concurrent q - q_running_tasks q) = Suc (nat (q_max_concurrent q - (q_running_tasks q + 1)))"
        using True by simp
      show ?thesis
        using "1.IH" [OF True a] "1.prems" True a
        by (simp add: dispatch_loop.simps [of i] case_prod_beta Let_def Cons rest n)
    qed
  qed
qed

text \<open>
  C18. One turn of the dispatcher starts the first pending tasks of the list, in list order, as
  many as the concurrency limit leaves room for; each gets exactly one new run, is marked
  running, and no other task changes its status.
\<close>

theorem dispatch_starts_first_pending:
  assumes "refs_ok (sy_q s)"
  shows "let q = sy_q s; s' = dispatch clock s;
      started = take (nat (q_max_concurrent q - q_running_tasks q)) (filter (is_pending q) (q_tasks q))
    in sy_runs s' = sy_runs s @ map (\<lambda>a. \<lparr>rn_ref = a, rn_phase = Spawned\<rparr>) started
      \<and> q_tasks (sy_q s') = q_tasks q
      \<and> q_running_tasks (sy_q s') = q_running_tasks q + int (length started)
      \<and> (\<forall>a. tk_status (task_at (sy_q s') a) =
           (if a \<in> set started then TaskRunning else tk_status (task_at q a)))"
proof -
  let ?q = "(sy_q s)\<lparr>q_worker := False\<rparr>"
  obtain as q' where r: "dispatch_loop 0 clock ?q = (as, q')" by fastforce
  have "is_pending ?q = is_pending (sy_q s)" by (simp add: is_pending_def fun_eq_iff)
  then have "as = take (nat (q_max_concurrent (sy_q s) - q_running_tasks (sy_q s)))
      (filter (is_pending (sy_q s)) (q_tasks (sy_q s)))"
    using dispatch_loop_order [of ?q 0 clock] assms r by (simp add: refs_ok_def)
  then show ?thesis
    using dispatch_loop_frame [OF r] dispatch_loop_starts [OF r] r
    by (simp add: dispatch_def Let_def)
qed

theorem dispatch_starts_first_pending_witness:
  "sy_runs (dispatch (\<lambda>_. 5) (boot (demo_pending, True))) = [\<lparr>rn_ref = 0, rn_phase = Spawned\<rparr>]"
proof -
  let ?s = "boot (demo_pending, True)"
  have q: "refs_ok (sy_q ?s)" "sy_runs ?s = []" "q_running_tasks (sy_q ?s) = 0" "q_max_concurrent (sy_q ?s) = 2"
    "q_tasks (sy_q ?s) = [0]" "is_pending (sy_q ?s) 0"
    by (simp_all add: boot_def demo_pending_def demo_queue_def empty_manager_def refs_ok_def is_pending_def demo_task_def)
  from dispatch_starts_first_pending [OF q(1), of "\<lambda>_. 5"] q show ?thesis
    by (simp add: Let_def)
qed

end
