(* ===== verification/Queue_Safety.thy ===== *)
theory Queue_Safety
  imports Queue_Workers
begin

text \<open>
  What holds in every interleaving of the dispatcher, the upload goroutines and the API: three
  invariants of the step relation of \<open>Queue_Workers\<close>, and the behaviours the code does allow
  around cancelling.
\<close>

subsection \<open>Invariants of every interleaving\<close>

definition live :: "run \<Rightarrow> bool" where
  "live r \<longleftrightarrow> rn_phase r \<noteq> Released"

fun owning :: "run_phase \<Rightarrow> bool" where
  "owning Spawned = True"
| "owning Registered = True"
| "owning Connected = True"
| "owning (Returned err) = True"
| "owning ph = False"

definition owns :: "task_ref \<Rightarrow> run \<Rightarrow> bool" where
  "owns a r \<longleftrightarrow> rn_ref r = a \<and> owning (rn_phase r)"

text \<open>Every occupied slot belongs to one run that has not been released.\<close>

definition slots_inv :: "system \<Rightarrow> bool" where
  "slots_inv s \<longleftrightarrow> q_running_tasks (sy_q s) = int (length (filter live (sy_runs s)))"

text \<open>A task object is running exactly when one run owns it, and never has two owners.\<close>

definition owner_inv :: "system \<Rightarrow> bool" where
  "owner_inv s \<longleftrightarrow> refs_ok (sy_q s)
     \<and> (\<forall>r\<in>set (sy_runs s). rn_ref r < q_next_ref (sy_q s))
     \<and> (\<forall>a<q_next_ref (sy_q s). length (filter (owns a) (sy_runs s)) =
          (if tk_status (task_at (sy_q s) a) = TaskRunning then 1 else 0))"

text \<open>No lost wake-up: work that could start has a signal on its way to the dispatcher.\<close>

definition work_ready :: "queue_manager \<Rightarrow> bool" where
  "work_ready q \<longleftrightarrow> q_running_tasks q < q_max_concurrent q \<and> (\<exists>a\<in>set (q_tasks q). is_pending q a)"

definition adds_ok :: "system \<Rightarrow> bool" where
  "adds_ok s \<longleftrightarrow> (\<forall>n\<in>set (sy_adds s). n > 0)"

definition wake_inv :: "system \<Rightarrow> bool" where
  "wake_inv s \<longleftrightarrow> adds_ok s \<and>
     (work_ready (sy_q s) \<longrightarrow> q_worker (sy_q s) \<or> sy_due s > 0 \<or> sy_adds s \<noteq> [] \<or> sy_loop s = Exited)"

lemma filter_list_update:
  "i < length xs \<Longrightarrow> length (filter P (xs[i := x])) + (if P (xs ! i) then 1 else 0)
     = length (filter P xs) + (if P x then 1 else 0)"
proof (induction xs arbitrary: i)
  case Nil
  then show ?case by simp
next
  case (Cons y ys)
  then show ?case by (cases i) (auto split: if_splits)
qed

subsubsection \<open>What each operation leaves alone\<close>

lemma add_loop_frame:
  "q_running_tasks (add_loop i clock fs cfg q) = q_running_tasks q
   \<and> q_max_concurrent (add_loop i clock fs cfg q) = q_max_concurrent q
   \<and> q_worker (add_loop i clock fs cfg q) = q_worker q
   \<and> q_cancelled (add_loop i clock fs cfg q) = q_cancelled q"
  by (induction i clock fs cfg q rule: add_loop.induct) (simp_all add: alloc_task_def Let_def)

lemma add_loop_refs:
  "refs_ok q \<Longrightarrow> refs_ok (add_loop i clock fs cfg q)
     \<and> q_next_ref q \<le> q_next_ref (add_loop i clock fs cfg q)
     \<and> (\<forall>a<q_next_ref q. task_at (add_loop i clock fs cfg q) a = task_at q a)
     \<and> (\<forall>a. q_next_ref q \<le> a \<and> a < q_next_ref (add_loop i clock fs cfg q) \<longrightarrow>
          tk_status (task_at (add_loop i clock fs cfg q) a) = TaskPending)"
proof (induction i clock fs cfg q rule: add_loop.induct)
  case (1 i clock cfg q)
  then show ?case by auto
next
  case (2 i clock f fs cfg q)
  let ?t = "new_task (q_next_id q + 1) f cfg (clock i)"
  let ?q = "q\<lparr>q_next_id := q_next_id q + 1, q_heap := (q_heap q)(q_next_ref q := ?t),
      q_next_ref := Suc (q_next_ref q), q_tasks := q_tasks q @ [q_next_ref q]\<rparr>"
  have step: "add_loop i clock (f # fs) cfg q = add_loop (Suc i) clock fs cfg ?q"
    by (simp add: alloc_task_def Let_def)
  have "refs_ok ?q" using "2.prems" by (auto simp: refs_ok_def intro: less_SucI)
  then have IH: "refs_ok (add_loop (Suc i) clock fs cfg ?q)"
    "Suc (q_next_ref q) \<le> q_next_ref (add_loop (Suc i) clock fs cfg ?q)"
    "\<And>a. a < Suc (q_next_ref q) \<Longrightarrow> task_at (add_loop (Suc i) clock fs cfg ?q) a = task_at ?q a"
    "\<And>a. Suc (q_next_ref q) \<le> a \<Longrightarrow> a < q_next_ref (add_loop (Suc i) clock fs cfg ?q) \<Longrightarrow>
        tk_status (task_at (add_loop (Suc i) clock fs cfg ?q) a) = TaskPending"
    using "2.IH" [OF refl refl, of "q_next_ref q" "q\<lparr>q_next_id := q_next_id q + 1, q_heap := (q_heap q)(q_next_ref q := ?t), q_next_ref := Suc (q_next_ref q)\<rparr>"]
    by (simp_all add: alloc_task_def)
  have "tk_status (task_at (add_loop (Suc i) clock fs cfg ?q) a) = TaskPending"
    if "q_next_ref q \<le> a" "a < q_next_ref (add_loop (Suc i) clock fs cfg ?q)" for a
  proof (cases "a = q_next_ref q")
    case True
    then show ?thesis using IH(3) [of a] by (simp add: new_task_def)
  qed (use IH(4) that in simp)
  then show ?case unfolding step using IH(1-3) by auto
qed

lemma retry_loop_frame:
  "q_running_tasks (fst (retry_loop stat as q found)) = q_running_tasks q
   \<and> q_max_concurrent (fst (retry_loop stat as q found)) = q_max_concurrent q
   \<and> q_next_ref (fst (retry_loop stat as q found)) = q_next_ref q"
  by (induction stat as q found rule: retry_loop.induct) (simp_all add: Let_def)

lemma retry_loop_stays_found: "snd (retry_loop stat as q True)"
  by (induction as arbitrary: q) (simp_all add: Let_def)

lemma retry_loop_not_found: "\<not> snd (retry_loop stat as q False) \<Longrightarrow> fst (retry_loop stat as q False) = q"
  by (induction as) (auto simp: Let_def retry_loop_stays_found split: if_splits)

text \<open>The states one action on the task at position \<open>k\<close> can lead to.\<close>

lemma control_found_outcome:
  fixes c env stat k action q
  defines "q' \<equiv> snd (control_found c env stat k action q)" and "a \<equiv> q_tasks q ! k"
  obtains (same) "q' = q"
  | (pause) "is_pending q a" "q' = set_task a ((task_at q a)\<lparr>tk_status := TaskPaused\<rparr>) q"
  | (resume) "tk_status (task_at q a) = TaskPaused"
      "q' = trigger (set_task a ((task_at q a)\<lparr>tk_status := TaskPending\<rparr>) q)"
  | (remove) q1 where "q1 = q \<or> q1 = cancel_run (tk_id (task_at q a)) q"
      "q' = trigger (save_state c env (q1\<lparr>q_tasks := take k (q_tasks q) @ drop (Suc k) (q_tasks q)\<rparr>))"
  | (retry) "finished (tk_status (task_at q a))"
      "q' = trigger (save_state c env (set_task a (reset_task (task_at q a)) q))"
proof -
  let ?rm = "\<lambda>q1. trigger (save_state c env (q1\<lparr>q_tasks := take k (q_tasks q) @ drop (Suc k) (q_tasks q)\<rparr>))"
  have "q' = q \<or> is_pending q a \<and> q' = set_task a ((task_at q a)\<lparr>tk_status := TaskPaused\<rparr>) q
    \<or> tk_status (task_at q a) = TaskPaused \<and> q' = trigger (set_task a ((task_at q a)\<lparr>tk_status := TaskPending\<rparr>) q)
    \<or> q' = ?rm q \<or> q' = ?rm (cancel_run (tk_id (task_at q a)) q)
    \<or> finished (tk_status (task_at q a)) \<and> q' = trigger (save_state c env (set_task a (reset_task (task_at q a)) q))"
    unfolding q'_def a_def control_found_def Let_def is_pending_def finished_def
    by (cases "action = ''pause''"; cases "action = ''resume''"; cases "action = ''remove''"; cases "action = ''retry''")
      simp_all
  then show thesis
    using same pause resume remove retry by blast
qed

lemma control_found_frame [simp]:
  "q_running_tasks (snd (control_found c env stat k action q)) = q_running_tasks q"
  "q_max_concurrent (snd (control_found c env stat k action q)) = q_max_concurrent q"
  "q_next_ref (snd (control_found c env stat k action q)) = q_next_ref q"
  by (cases rule: control_found_outcome [where c = c and env = env and stat = stat and k = k and action = action and q = q]; auto)+

lemma control_task_frame [simp]:
  "q_running_tasks (snd (control_task c env stat i action q)) = q_running_tasks q"
  "q_max_concurrent (snd (control_task c env stat i action q)) = q_max_concurrent q"
  "q_next_ref (snd (control_task c env stat i action q)) = q_next_ref q"
  by (simp_all add: control_task_def case_prod_beta retry_loop_frame split: option.split)

lemma distinct_take_drop: "distinct xs \<Longrightarrow> distinct (take k xs @ drop (Suc k) xs)"
  by (metis append_take_drop_id distinct_append distinct_take distinct_drop drop_Suc
      set_drop_subset set_take_disj_set_drop_if_distinct order_refl le_SucI)

lemma set_take_drop: "set (take k xs @ drop n xs) \<subseteq> set xs"
  using set_take_subset [of k xs] set_drop_subset [of n xs] by simp

lemma control_task_outcome:
  fixes c env stat i action q
  defines "q' \<equiv> snd (control_task c env stat i action q)"
  obtains (found) k where "k < length (q_tasks q)" "q' = snd (control_found c env stat k action q)"
  | (same) "q' = q"
  | (retry_all) "q' = trigger (save_state c env (fst (retry_loop stat (q_tasks q) q False)))"
  | (clear) P where "q' = trigger (save_state c env (q\<lparr>q_tasks := filter P (q_tasks q)\<rparr>))"
proof (cases "first_index (\<lambda>a. tk_id (task_at q a) = i) (q_tasks q)")
  case (Some k)
  then show thesis using found [of k] first_index_Some [OF Some] by (simp add: q'_def control_task_def)
next
  case None
  consider "action = ''retry_all_failed''" | "action = ''clear_finished''"
    | "action \<noteq> ''retry_all_failed''" "action \<noteq> ''clear_finished''" by blast
  then show thesis
  proof cases
    case 1
    obtain q1 b where "retry_loop stat (q_tasks q) q False = (q1, b)" by fastforce
    then show thesis
      using same retry_all 1 None retry_loop_not_found [of stat "q_tasks q" q]
      by (cases b) (simp_all add: q'_def control_task_def)
  next
    case 2
    with clear None show thesis by (simp add: q'_def control_task_def)
  next
    case 3
    with same None show thesis by (simp add: q'_def control_task_def)
  qed
qed

lemma refs_ok_frame:
  "refs_ok q \<Longrightarrow> q_tasks q' = q_tasks q \<Longrightarrow> q_next_ref q' = q_next_ref q \<Longrightarrow> refs_ok q'"
  by (simp add: refs_ok_def)

lemma refs_ok_sublist:
  "refs_ok q \<Longrightarrow> distinct (q_tasks q') \<Longrightarrow> set (q_tasks q') \<subseteq> set (q_tasks q) \<Longrightarrow>
     q_next_ref q' = q_next_ref q \<Longrightarrow> refs_ok q'"
  by (auto simp: refs_ok_def)

lemma control_found_list:
  assumes "distinct (q_tasks q)"
  shows "distinct (q_tasks (snd (control_found c env stat k action q)))
     \<and> set (q_tasks (snd (control_found c env stat k action q))) \<subseteq> set (q_tasks q)"
proof (cases rule: control_found_outcome [where c = c and env = env and stat = stat and k = k and action = action and q = q])
  case (remove q1)
  then show ?thesis
    using distinct_take_drop [OF assms, of k] set_take_drop [of k "q_tasks q" "Suc k"] by simp
qed (simp_all add: assms)

lemma control_task_list:
  assumes "distinct (q_tasks q)"
  shows "distinct (q_tasks (snd (control_task c env stat i action q)))
     \<and> set (q_tasks (snd (control_task c env stat i action q))) \<subseteq> set (q_tasks q)"
proof (cases rule: control_task_outcome [where c = c and env = env and stat = stat and i = i and action = action and q = q])
  case (found k)
  then show ?thesis using control_found_list [OF assms] by simp
next
  case retry_all
  then show ?thesis using assms retry_loop_change [OF refl assms, where stat = stat and found = False] by simp
qed (use assms in auto)

lemma control_task_status:
  assumes "distinct (q_tasks q)"
  shows "tk_status (task_at (snd (control_task c env stat i action q)) a) = TaskRunning \<longleftrightarrow>
    tk_status (task_at q a) = TaskRunning"
proof -
  have change: "control_change stat (q_local_dir q) t u \<Longrightarrow> tk_status u = TaskRunning \<longleftrightarrow> tk_status t = TaskRunning" for t u
    by (auto simp: control_change_def finished_def reset_task_def)
  show ?thesis
    by (cases rule: control_task_outcome [where c = c and env = env and stat = stat and i = i and action = action and q = q])
      (simp_all add: change [OF control_found_change]
        change [OF conjunct1 [OF conjunct2 [OF retry_loop_change [OF refl assms]], rule_format]])
qed

lemma work_ready_sub:
  assumes "q_running_tasks q' = q_running_tasks q" "q_max_concurrent q' = q_max_concurrent q"
    "set (q_tasks q') \<subseteq> set (q_tasks q)" "\<And>a. is_pending q' a \<Longrightarrow> is_pending q a" "work_ready q'"
  shows "work_ready q"
  using assms by (auto simp: work_ready_def)

lemma control_task_wakes:
  assumes "work_ready (snd (control_task c env stat i action q))"
  shows "q_worker (snd (control_task c env stat i action q)) \<or> work_ready q"
proof (cases rule: control_task_outcome [where c = c and env = env and stat = stat and i = i and action = action and q = q])
  case (found k)
  from found(2) assms show ?thesis
    by (cases rule: control_found_outcome [where c = c and env = env and stat = stat and k = k and action = action and q = q])
      (auto simp: work_ready_def is_pending_def split: if_splits)
qed (use assms in auto)

subsubsection \<open>Frames of the steps\<close>

lemma update_throttle_frame [simp]:
  "q_running_tasks (update_throttle h r m l q) = q_running_tasks q"
  "q_max_concurrent (update_throttle h r m l q) = q_max_concurrent q"
  "q_next_ref (update_throttle h r m l q) = q_next_ref q" "q_tasks (update_throttle h r m l q) = q_tasks q"
  "q_heap (update_throttle h r m l q) = q_heap q" "q_worker (update_throttle h r m l q) = q_worker q"
  "q_active_cancels (update_throttle h r m l q) = q_active_cancels q"
  by (simp_all add: update_throttle_def Let_def split: option.split)

lemma get_or_create_limiter_frame [simp]:
  "q_running_tasks (snd (get_or_create_limiter o1 o2 cfg q)) = q_running_tasks q"
  "q_max_concurrent (snd (get_or_create_limiter o1 o2 cfg q)) = q_max_concurrent q"
  "q_next_ref (snd (get_or_create_limiter o1 o2 cfg q)) = q_next_ref q"
  "q_tasks (snd (get_or_create_limiter o1 o2 cfg q)) = q_tasks q"
  "q_heap (snd (get_or_create_limiter o1 o2 cfg q)) = q_heap q"
  "q_worker (snd (get_or_create_limiter o1 o2 cfg q)) = q_worker q"
  "q_active_cancels (snd (get_or_create_limiter o1 o2 cfg q)) = q_active_cancels q"
  by (simp_all add: get_or_create_limiter_def Let_def split: option.split)

lemma update_concurrency_frame [simp]:
  "q_running_tasks (update_concurrency n q) = q_running_tasks q"
  "q_next_ref (update_concurrency n q) = q_next_ref q" "q_tasks (update_concurrency n q) = q_tasks q"
  "q_heap (update_concurrency n q) = q_heap q" "q_worker (update_concurrency n q) = q_worker q"
  "q_max_concurrent (update_concurrency n q) = n"
  by (simp_all add: update_concurrency_def)

lemma small_frames [simp]:
  "q_running_tasks (register_run tok i q) = q_running_tasks q" "q_max_concurrent (register_run tok i q) = q_max_concurrent q"
  "q_next_ref (register_run tok i q) = q_next_ref q" "q_tasks (register_run tok i q) = q_tasks q"
  "q_heap (register_run tok i q) = q_heap q" "q_worker (register_run tok i q) = q_worker q"
  "q_running_tasks (unregister_run i q) = q_running_tasks q" "q_max_concurrent (unregister_run i q) = q_max_concurrent q"
  "q_next_ref (unregister_run i q) = q_next_ref q" "q_tasks (unregister_run i q) = q_tasks q"
  "q_heap (unregister_run i q) = q_heap q" "q_worker (unregister_run i q) = q_worker q"
  "q_running_tasks (register_closer tok i q) = q_running_tasks q" "q_max_concurrent (register_closer tok i q) = q_max_concurrent q"
  "q_next_ref (register_closer tok i q) = q_next_ref q" "q_tasks (register_closer tok i q) = q_tasks q"
  "q_heap (register_closer tok i q) = q_heap q" "q_worker (register_closer tok i q) = q_worker q"
  "q_running_tasks (unregister_closer i q) = q_running_tasks q" "q_max_concurrent (unregister_closer i q) = q_max_concurrent q"
  "q_next_ref (unregister_closer i q) = q_next_ref q" "q_tasks (unregister_closer i q) = q_tasks q"
  "q_heap (unregister_closer i q) = q_heap q" "q_worker (unregister_closer i q) = q_worker q"
  "q_running_tasks (release_slot q) = q_running_tasks q - 1" "q_max_concurrent (release_slot q) = q_max_concurrent q"
  "q_next_ref (release_slot q) = q_next_ref q" "q_tasks (release_slot q) = q_tasks q"
  "q_heap (release_slot q) = q_heap q"
  by (simp_all add: register_run_def unregister_run_def register_closer_def unregister_closer_def release_slot_def)

lemma system_frames [simp]:
  "sy_q (on_queue f s) = f (sy_q s)" "sy_runs (on_queue f s) = sy_runs s" "sy_due (on_queue f s) = sy_due s"
  "sy_loop (on_queue f s) = sy_loop s" "sy_adds (on_queue f s) = sy_adds s"
  "sy_adds (set_phase tok ph s) = sy_adds s" "sy_adds (owe_trigger n s) = sy_adds s"
  "sy_q (set_phase tok ph s) = sy_q s" "sy_due (set_phase tok ph s) = sy_due s" "sy_loop (set_phase tok ph s) = sy_loop s"
  "sy_q (owe_trigger n s) = sy_q s" "sy_runs (owe_trigger n s) = sy_runs s" "sy_due (owe_trigger n s) = sy_due s + n"
  "sy_loop (owe_trigger n s) = sy_loop s"
  "run_ref (on_queue f s) t = run_ref s t" "run_id (owe_trigger n s) t = run_id s t"
  "length (sy_runs (set_phase tok ph s)) = length (sy_runs s)"
  by (simp_all add: on_queue_def set_phase_def owe_trigger_def run_ref_def run_id_def)

lemma status_reports [simp]:
  "tk_status (report_size n t) = tk_status t" "tk_status (report_progress n t) = tk_status t"
  "finished (tk_status (finish_task err t))"
  by (simp_all add: report_size_def report_progress_def finish_task_def finished_def Let_def split: option.split)

lemma finish_task_not [simp]:
  "tk_status (finish_task err t) \<noteq> TaskRunning" "tk_status (finish_task err t) \<noteq> TaskPending"
  using status_reports(3) [of err t] by (auto simp: finished_def)

lemma add_tasks_locked_frame [simp]:
  "q_running_tasks (add_tasks_locked clock fs cfg q) = q_running_tasks q"
  "q_max_concurrent (add_tasks_locked clock fs cfg q) = q_max_concurrent q"
  "q_worker (add_tasks_locked clock fs cfg q) = q_worker q"
  "add_tasks_locked clock [] cfg q = q"
  by (simp_all add: add_tasks_locked_def add_loop_frame)

subsubsection \<open>Occupied slots\<close>

lemma live_set_phase:
  "in_phase s tok ph \<Longrightarrow> int (length (filter live (sy_runs (set_phase tok ph' s))))
     = int (length (filter live (sy_runs s))) - (if ph = Released then 0 else 1) + (if ph' = Released then 0 else 1)"
  using filter_list_update [of tok "sy_runs s" live "(sy_runs s ! tok)\<lparr>rn_phase := ph'\<rparr>"]
  by (simp add: set_phase_def in_phase_def live_def split: if_splits)

lemma slots_set_phase:
  "slots_inv s \<Longrightarrow> in_phase s tok ph \<Longrightarrow> ph \<noteq> Released \<Longrightarrow> ph' \<noteq> Released \<Longrightarrow>
     slots_inv (set_phase tok ph' s)"
  by (simp add: slots_inv_def live_set_phase)

lemma in_phase_frames [simp]:
  "in_phase (on_queue f s) tok ph = in_phase s tok ph" "in_phase (owe_trigger n s) tok ph = in_phase s tok ph"
  "in_phase (on_task tok' g s) tok ph = in_phase s tok ph"
  by (simp_all add: in_phase_def on_task_def)

lemma slots_on_queue:
  "slots_inv s \<Longrightarrow> q_running_tasks (f (sy_q s)) = q_running_tasks (sy_q s) \<Longrightarrow> slots_inv (on_queue f s)"
  by (simp add: slots_inv_def)

lemma slots_frames [simp]:
  "slots_inv (s\<lparr>sy_due := n\<rparr>) = slots_inv s" "slots_inv (s\<lparr>sy_loop := l\<rparr>) = slots_inv s"
  "slots_inv (owe_trigger n s) = slots_inv s" "slots_inv (s\<lparr>sy_adds := ns\<rparr>) = slots_inv s"
  by (simp_all add: slots_inv_def owe_trigger_def)

lemma slots_dispatch: "slots_inv s \<Longrightarrow> slots_inv (dispatch clock s)"
  using dispatch_loop_frame [of 0 clock "(sy_q s)\<lparr>q_worker := False\<rparr>"]
  by (auto simp: slots_inv_def dispatch_def Let_def live_def filter_map comp_def split: prod.split)

lemma slots_step: "slots_inv s \<Longrightarrow> enabled e s \<Longrightarrow> slots_inv (effect e s)"
proof (cases e)
  case (Run_Connect tok)
  assume "slots_inv s" "enabled e s"
  with Run_Connect show ?thesis
    by (auto simp: connected_def intro!: slots_set_phase [where ph = Registered] slots_on_queue)
next
  case (Run_Release tok)
  assume "slots_inv s" "enabled e s"
  with Run_Release show ?thesis
    using live_set_phase [of s tok Unregistered Released]
    by (simp add: slots_inv_def set_phase_def)
qed (auto simp: slots_dispatch on_task_def Let_def simp flip: slots_inv_def
    intro!: slots_set_phase slots_on_queue)

subsubsection \<open>Owners of running tasks\<close>

lemma owns_set_phase:
  "in_phase s tok ph \<Longrightarrow> length (filter (owns a) (sy_runs (set_phase tok ph' s)))
       + (if a = run_ref s tok \<and> owning ph then 1 else 0)
     = length (filter (owns a) (sy_runs s)) + (if a = run_ref s tok \<and> owning ph' then 1 else 0)"
  using filter_list_update [of tok "sy_runs s" "owns a" "(sy_runs s ! tok)\<lparr>rn_phase := ph'\<rparr>"]
  by (auto simp: set_phase_def in_phase_def owns_def run_ref_def)

lemma runs_set_phase:
  "\<forall>r\<in>set (sy_runs s). rn_ref r < n \<Longrightarrow> in_phase s tok ph \<Longrightarrow> \<forall>r\<in>set (sy_runs (set_phase tok ph' s)). rn_ref r < n"
  by (auto simp: set_phase_def in_phase_def dest!: set_update_subset_insert [THEN subsetD])

lemma owner_set_phase:
  assumes "owner_inv s" "in_phase s tok ph" "owning ph = owning ph'"
  shows "owner_inv (set_phase tok ph' s)"
  using assms runs_set_phase [OF _ assms(2), of _ ph'] owns_set_phase [OF assms(2), of _ ph']
  by (auto simp: owner_inv_def split: if_splits)

lemma owner_on_queue:
  assumes "owner_inv s" "refs_ok (f (sy_q s))" "q_next_ref (f (sy_q s)) = q_next_ref (sy_q s)"
    "\<And>a. tk_status (task_at (f (sy_q s)) a) = TaskRunning \<longleftrightarrow> tk_status (task_at (sy_q s) a) = TaskRunning"
  shows "owner_inv (on_queue f s)"
  using assms by (simp add: owner_inv_def)

lemma owner_same_tasks:
  "owner_inv s \<Longrightarrow> q_tasks (f (sy_q s)) = q_tasks (sy_q s) \<Longrightarrow> q_heap (f (sy_q s)) = q_heap (sy_q s) \<Longrightarrow>
     q_next_ref (f (sy_q s)) = q_next_ref (sy_q s) \<Longrightarrow> owner_inv (on_queue f s)"
  by (simp add: owner_inv_def refs_ok_def)

lemma owner_on_task:
  "owner_inv s \<Longrightarrow> tk_status (f (task_at (sy_q s) (run_ref s tok))) = tk_status (task_at (sy_q s) (run_ref s tok)) \<Longrightarrow>
     owner_inv (on_task tok f s)"
  by (auto simp: owner_inv_def on_task_def refs_ok_def)

lemma owner_frames [simp]:
  "owner_inv (s\<lparr>sy_due := n\<rparr>) = owner_inv s" "owner_inv (s\<lparr>sy_loop := l\<rparr>) = owner_inv s"
  "owner_inv (owe_trigger n s) = owner_inv s" "owner_inv (s\<lparr>sy_adds := ns\<rparr>) = owner_inv s"
  by (simp_all add: owner_inv_def owe_trigger_def)

lemma owner_runs_empty:
  "owner_inv s \<Longrightarrow> q_next_ref (sy_q s) \<le> a \<Longrightarrow> filter (owns a) (sy_runs s) = []"
  by (auto simp: owner_inv_def owns_def filter_empty_conv)

lemma owner_add:
  assumes "owner_inv s"
  shows "owner_inv (on_queue (add_tasks_locked clock fs cfg) s)"
proof -
  note add = add_loop_refs [of "sy_q s" 0 clock fs "cfg\<lparr>ur_files := []\<rparr>", folded add_tasks_locked_def]
  have "refs_ok (sy_q s)" using assms by (simp add: owner_inv_def)
  note add = add [OF this]
  have "length (filter (owns a) (sy_runs s)) =
      (if tk_status (task_at (add_tasks_locked clock fs cfg (sy_q s)) a) = TaskRunning then 1 else 0)"
    if "a < q_next_ref (add_tasks_locked clock fs cfg (sy_q s))" for a
  proof (cases "a < q_next_ref (sy_q s)")
    case True
    then show ?thesis using add assms by (simp add: owner_inv_def)
  next
    case False
    then show ?thesis using add that owner_runs_empty [OF assms, of a] by simp
  qed
  then show ?thesis
    using add assms by (auto simp: owner_inv_def intro: less_le_trans)
qed

lemma count_started:
  "distinct as \<Longrightarrow> length (filter (owns a) (map (\<lambda>b. \<lparr>rn_ref = b, rn_phase = Spawned\<rparr>) as)) = (if a \<in> set as then 1 else 0)"
  by (induction as) (auto simp: owns_def)

lemma owner_count:
  "owner_inv s \<Longrightarrow> a < q_next_ref (sy_q s) \<Longrightarrow> length (filter (owns a) (sy_runs s)) =
     (if tk_status (task_at (sy_q s) a) = TaskRunning then 1 else 0)"
  by (simp add: owner_inv_def)

lemma owner_dispatch:
  assumes "owner_inv s"
  shows "owner_inv (dispatch clock s)"
proof -
  let ?q = "(sy_q s)\<lparr>q_worker := False\<rparr>"
  obtain as q' where r: "dispatch_loop 0 clock ?q = (as, q')" by fastforce
  note f = dispatch_loop_frame [OF r] and st = dispatch_loop_starts [OF r]
  let ?new = "map (\<lambda>b. \<lparr>rn_ref = b, rn_phase = Spawned\<rparr>) as"
  have ok: "refs_ok (sy_q s)" using assms by (simp add: owner_inv_def)
  have below: "a < q_next_ref (sy_q s)" if "a \<in> set as" for a
    using that st ok by (auto simp: refs_ok_def)
  have "length (filter (owns a) (sy_runs s @ ?new)) = (if tk_status (task_at q' a) = TaskRunning then 1 else 0)"
    if "a < q_next_ref (sy_q s)" for a
  proof (cases "a \<in> set as")
    case True
    then have "tk_status (task_at (sy_q s) a) \<noteq> TaskRunning"
      using st by (auto simp: is_pending_def)
    with True show ?thesis
      using owner_count [OF assms that] st count_started [of as a] by simp
  next
    case False
    then show ?thesis
      using owner_count [OF assms that] st count_started [of as a] by simp
  qed
  moreover have "\<forall>r\<in>set (sy_runs s @ ?new). rn_ref r < q_next_ref (sy_q s)"
    using assms below by (auto simp: owner_inv_def)
  moreover have "refs_ok q'" using ok f by (simp add: refs_ok_def)
  ultimately show ?thesis
    using f r by (simp add: owner_inv_def dispatch_def)
qed

lemma owner_finish:
  assumes "owner_inv s" "in_phase s tok (Returned err)"
  shows "owner_inv (set_phase tok Finished (on_task tok (finish_task e) s))"
proof -
  let ?a = "run_ref s tok"
  have runs: "sy_runs (set_phase tok Finished (on_task tok (finish_task e) s)) = sy_runs (set_phase tok Finished s)"
    by (simp add: set_phase_def on_task_def on_queue_def)
  have q: "sy_q (on_task tok (finish_task e) s) = set_task ?a (finish_task e (task_at (sy_q s) ?a)) (sy_q s)"
    by (simp add: on_task_def)
  have a: "?a < q_next_ref (sy_q s)"
    using assms by (auto simp: owner_inv_def in_phase_def run_ref_def)
  have "owns ?a (sy_runs s ! tok)" "sy_runs s ! tok \<in> set (sy_runs s)"
    using assms(2) by (auto simp: owns_def in_phase_def run_ref_def)
  then have "filter (owns ?a) (sy_runs s) \<noteq> []" by (auto simp: filter_empty_conv)
  then have "length (filter (owns ?a) (sy_runs s)) = 1"
    using a assms(1) by (auto simp: owner_inv_def split: if_splits)
  then have count: "length (filter (owns b) (sy_runs (set_phase tok Finished s))) =
      (if b = ?a then 0 else length (filter (owns b) (sy_runs s)))" for b
    using owns_set_phase [OF assms(2), of b Finished] by (simp split: if_splits)
  show ?thesis
    using assms(1) runs_set_phase [OF _ assms(2), of "q_next_ref (sy_q s)" Finished]
    by (auto simp: owner_inv_def runs q count refs_ok_def)
qed

lemma owner_step: "owner_inv s \<Longrightarrow> enabled e s \<Longrightarrow> owner_inv (effect e s)"
proof (cases e)
  case (Api_Add clock fs cfg)
  assume "owner_inv s"
  from owner_add [OF this, of clock fs cfg] show ?thesis by (simp add: Api_Add)
next
  case (Api_Control c env stat i action)
  assume "owner_inv s"
  moreover from this have d: "refs_ok (sy_q s)" "distinct (q_tasks (sy_q s))" by (auto simp: owner_inv_def refs_ok_def)
  ultimately show ?thesis
    using control_task_list [OF d(2), of c env stat i action] control_task_status [OF d(2), of c env stat i action]
    by (auto simp: Api_Control intro!: owner_on_queue refs_ok_sublist [OF d(1)])
next
  case (Run_Connect tok)
  assume "owner_inv s" "enabled e s"
  with Run_Connect show ?thesis
    by (auto simp: connected_def intro!: owner_set_phase [where ph = Registered] owner_same_tasks)
next
  case (Run_Finish tok)
  assume "owner_inv s" "enabled e s"
  with Run_Finish show ?thesis by (simp add: owner_finish)
qed (auto simp: owner_dispatch intro!: owner_set_phase owner_same_tasks owner_on_task)

subsubsection \<open>No lost wake-up\<close>

lemma adds_ok_frames [simp]:
  "adds_ok (on_queue f s) = adds_ok s" "adds_ok (set_phase tok ph s) = adds_ok s"
  "adds_ok (owe_trigger n s) = adds_ok s" "adds_ok (s\<lparr>sy_due := n\<rparr>) = adds_ok s"
  "adds_ok (s\<lparr>sy_q := q\<rparr>) = adds_ok s" "adds_ok (s\<lparr>sy_runs := rs\<rparr>) = adds_ok s"
  "adds_ok (s\<lparr>sy_loop := l\<rparr>) = adds_ok s" "adds_ok (dispatch clock s) = adds_ok s"
  by (simp_all add: adds_ok_def dispatch_def split: prod.split)

lemma wake_adds: "wake_inv s \<Longrightarrow> adds_ok s"
  by (simp add: wake_inv_def)

lemma wake_due: "adds_ok s \<Longrightarrow> sy_due s > 0 \<Longrightarrow> wake_inv s"
  by (simp add: wake_inv_def)

lemma work_ready_frame:
  "q_running_tasks q' = q_running_tasks q \<Longrightarrow> q_max_concurrent q' = q_max_concurrent q \<Longrightarrow>
     q_tasks q' = q_tasks q \<Longrightarrow> q_heap q' = q_heap q \<Longrightarrow> work_ready q' = work_ready q"
  by (simp add: work_ready_def is_pending_def)

lemma wake_on_queue:
  "wake_inv s \<Longrightarrow> (work_ready (f (sy_q s)) \<Longrightarrow> work_ready (sy_q s) \<or> q_worker (f (sy_q s))) \<Longrightarrow>
     (q_worker (sy_q s) \<Longrightarrow> q_worker (f (sy_q s))) \<Longrightarrow> wake_inv (on_queue f s)"
  by (auto simp: wake_inv_def)

lemma wake_phase [simp]: "wake_inv (set_phase tok ph s) = wake_inv s"
  by (simp add: wake_inv_def)

lemma wake_dispatch: "adds_ok s \<Longrightarrow> wake_inv (dispatch clock s)"
  using dispatch_loop_frame [of 0 clock "(sy_q s)\<lparr>q_worker := False\<rparr>"]
  by (auto simp: wake_inv_def work_ready_def dispatch_def Let_def split: prod.splits)

lemma control_found_worker: "q_worker q \<Longrightarrow> q_worker (snd (control_found c env stat k action q))"
  by (cases rule: control_found_outcome [where c = c and env = env and stat = stat and k = k and action = action and q = q])
    simp_all

lemma control_task_worker: "q_worker q \<Longrightarrow> q_worker (snd (control_task c env stat i action q))"
  by (cases rule: control_task_outcome [where c = c and env = env and stat = stat and i = i and action = action and q = q])
    (simp_all add: control_found_worker)

lemma wake_on_task:
  "wake_inv s \<Longrightarrow> tk_status (f (task_at (sy_q s) (run_ref s tok))) = TaskPending \<longrightarrow>
     tk_status (task_at (sy_q s) (run_ref s tok)) = TaskPending \<Longrightarrow> wake_inv (on_task tok f s)"
  by (auto simp: on_task_def work_ready_def is_pending_def intro!: wake_on_queue split: if_splits)

lemma wake_loop: "wake_inv s \<Longrightarrow> sy_loop s \<noteq> Exited \<Longrightarrow> wake_inv (s\<lparr>sy_loop := l\<rparr>)"
  by (auto simp: wake_inv_def)

lemma wake_same_tasks:
  assumes "wake_inv s" "q_running_tasks (f (sy_q s)) = q_running_tasks (sy_q s)"
    "q_max_concurrent (f (sy_q s)) = q_max_concurrent (sy_q s)" "q_tasks (f (sy_q s)) = q_tasks (sy_q s)"
    "q_heap (f (sy_q s)) = q_heap (sy_q s)" "q_worker (f (sy_q s)) = q_worker (sy_q s)"
  shows "wake_inv (on_queue f s)"
  using assms work_ready_frame [OF assms(2-5)] by (simp add: wake_inv_def)

lemma wake_step:
  assumes "wake_inv s" "enabled e s"
  shows "wake_inv (effect e s)"
proof (cases e)
  case Trigger
  show ?thesis using wake_adds [OF assms(1)] by (simp add: Trigger wake_inv_def)
next
  case (Loop_Save c env)
  with assms show ?thesis
    by (simp add: wake_loop wake_same_tasks)
next
  case (Api_Add clock fs cfg)
  show ?thesis
  proof (cases "fs = []")
    case True
    have "wake_inv (on_queue (\<lambda>q. q) s)" by (rule wake_same_tasks) (simp_all add: assms)
    with True show ?thesis by (simp add: Api_Add on_queue_def)
  next
    case False
    then show ?thesis using wake_adds [OF assms(1)]
      by (simp add: Api_Add wake_inv_def) (simp add: adds_ok_def)
  qed
next
  case (Api_Saved k c env)
  have n: "sy_adds s ! k > 0"
    using assms Api_Saved wake_adds [OF assms(1)] by (simp add: adds_ok_def)
  have "adds_ok (s\<lparr>sy_adds := take k (sy_adds s) @ drop (Suc k) (sy_adds s)\<rparr>)"
    using wake_adds [OF assms(1)] set_take_drop [of k "sy_adds s" "Suc k"] by (auto simp: adds_ok_def)
  with n show ?thesis by (simp add: Api_Saved wake_inv_def adds_ok_def)
next
  case (Api_Control c env stat i action)
  show ?thesis
    using control_task_wakes [of c env stat i action "sy_q s"] assms(1)
    by (auto simp: Api_Control control_task_worker intro!: wake_on_queue)
next
  case (Api_Concurrency n)
  with assms wake_adds [OF assms(1)] show ?thesis by (simp add: wake_due)
next
  case (Run_Connect tok)
  with assms show ?thesis by (simp add: connected_def wake_same_tasks)
next
  case Loop_Exit
  then show ?thesis using wake_adds [OF assms(1)] by (simp add: wake_inv_def)
qed (use assms wake_adds [OF assms(1)] in \<open>simp_all add: wake_dispatch wake_due wake_same_tasks wake_on_task\<close>)

subsection \<open>The invariants of the manager\<close>

lemma load_loop_idle:
  assumes "load_loop c ds q loaded legacy = (q', loaded', legacy')"
    "\<forall>a. tk_status (task_at q a) \<noteq> TaskRunning"
  shows "\<forall>a. tk_status (task_at q' a) \<noteq> TaskRunning"
  using assms
proof (induction ds arbitrary: q loaded legacy)
  case Nil
  then show ?case by simp
next
  case (Cons d ds)
  show ?case
  proof (cases "dk_task d")
    case (Some t)
    have "\<forall>a. tk_status (task_at (load_entry c d t q) a) \<noteq> TaskRunning"
      using Cons.prems(2) by (simp add: requeue_def)
    with Some Cons show ?thesis by (simp add: load_loop_Cons)
  qed (use Cons in \<open>simp add: load_loop_Cons\<close>)
qed

lemma new_manager_facts:
  assumes "new_queue_manager c kenv env root_ok dir disk = (q, trig)"
  shows "refs_ok q" "ids_below q" "\<forall>a. tk_status (task_at q a) \<noteq> TaskRunning"
    "q_running_tasks q = 0" "\<not> q_worker q" "q_active_cancels q = []" "trig \<longleftrightarrow> q_tasks q \<noteq> []"
proof -
  obtain key where q: "load_state c env root_ok (empty_manager dir key disk) = (q, trig)"
    using assms unfolding new_queue_manager_def Let_def by blast
  let ?q0 = "empty_manager dir key disk"
  show "refs_ok q" "ids_below q"
    using load_state_ok [of q c env root_ok dir key disk] q by simp_all
  have z: "\<forall>a. tk_status (task_at ?q0 a) \<noteq> TaskRunning"
    by (simp add: empty_manager_def zero_task_def)
  have loop: "(\<forall>a. tk_status (task_at q1 a) \<noteq> TaskRunning) \<and> q_running_tasks q1 = 0 \<and> \<not> q_worker q1
      \<and> q_active_cancels q1 = []"
    if "load_loop c ds ?q0 [] False = (q1, l, b)" for ds q1 l b
    using load_loop_idle [OF that z] load_loop_tasks [OF that] by (simp add: empty_manager_def)
  show "\<forall>a. tk_status (task_at q a) \<noteq> TaskRunning" "q_running_tasks q = 0" "\<not> q_worker q"
    "q_active_cancels q = []" "trig \<longleftrightarrow> q_tasks q \<noteq> []"
    using q loop z
    by (auto simp: load_state_def Let_def empty_manager_def split: if_splits option.splits state_file.splits prod.splits)
qed

lemma start_slots: "qstart s \<Longrightarrow> slots_inv s"
  by (auto simp: qstart_def boot_def slots_inv_def new_manager_facts [OF prod.collapse [symmetric]])

lemma start_owner: "qstart s \<Longrightarrow> owner_inv s"
  by (auto simp: qstart_def boot_def owner_inv_def new_manager_facts [OF prod.collapse [symmetric]])

lemma start_wake: "qstart s \<Longrightarrow> wake_inv s"
  by (auto simp: qstart_def boot_def wake_inv_def adds_ok_def work_ready_def new_manager_facts [OF prod.collapse [symmetric]])

interpretation slots: invariant_of qstart qstep slots_inv
  by unfold_locales (auto simp: start_slots qstep_simps slots_step)

interpretation owner: invariant_of qstart qstep owner_inv
  by unfold_locales (auto simp: start_owner qstep_simps owner_step)

interpretation wake: invariant_of qstart qstep wake_inv
  by unfold_locales (auto simp: start_wake qstep_simps wake_step)

text \<open>Two runs that have not yet published their result work on different tasks.\<close>

lemma owners_differ:
  assumes inv: "owner_inv s" and ij: "i < length (sy_runs s)" "j < length (sy_runs s)" "i \<noteq> j"
    and own: "owning (rn_phase (sy_runs s ! i))" "owning (rn_phase (sy_runs s ! j))"
  shows "run_ref s i \<noteq> run_ref s j"
proof
  assume eq: "run_ref s i = run_ref s j"
  let ?a = "run_ref s i"
  have "?a < q_next_ref (sy_q s)" using inv ij(1) by (auto simp: owner_inv_def run_ref_def)
  then have "length (filter (owns ?a) (sy_runs s)) \<le> 1" using owner_count [OF inv] by simp
  moreover have "{i, j} \<subseteq> {k. k < length (sy_runs s) \<and> owns ?a (sy_runs s ! k)}"
    using ij own eq by (auto simp: owns_def run_ref_def)
  then have "card {i, j} \<le> length (filter (owns ?a) (sy_runs s))"
    unfolding length_filter_conv_card by (intro card_mono) auto
  ultimately show False using ij(3) by simp
qed

subsection \<open>Runs as lists of events\<close>

fun enabled_along :: "event list \<Rightarrow> system \<Rightarrow> bool" where
  "enabled_along [] s = True"
| "enabled_along (e # es) s = (enabled e s \<and> enabled_along es (effect e s))"

lemma reach_events:
  "reach qstart qstep s \<Longrightarrow> enabled_along es s \<Longrightarrow> reach qstart qstep (fold effect es s)"
  by (induction es arbitrary: s) (auto intro: reach_step qstep)

definition empty_system :: system where
  "empty_system = boot (empty_manager ''data'' None None, False)"

definition no_disk :: save_env where
  "no_disk = \<lparr>se_marshal_ok = False, se_root_ok = True, se_write_ok = True, se_random = (\<lambda>_. None)\<rparr>"

definition no_key :: key_env where
  "no_key = \<lparr>ke_var = [], ke_root_ok = False, ke_file = ReadError, ke_random = None, ke_write_ok = False\<rparr>"

lemma trim_space_Nil: "trim_space [] = []"
  by code_simp

lemma empty_reach: "reach qstart qstep empty_system"
proof (rule reach_start)
  have "empty_system = boot (new_queue_manager demo_crypto no_key no_disk False ''data'' None)"
    by (simp add: empty_system_def new_queue_manager_def load_secret_key_def no_key_def load_state_def
        trim_space_Nil)
  then show "qstart empty_system" unfolding qstart_def by blast
qed

text \<open>One file is queued, dispatched with two slots, and its goroutine registers its cancel function.\<close>

definition first_run :: "event list" where
  "first_run = [Api_Concurrency 2, Api_Add (\<lambda>_. 0) [''film.mkv''] zero_request,
     Api_Saved 0 demo_crypto no_disk, Trigger,
     Dispatch (\<lambda>_. 0), Loop_Save demo_crypto no_disk, Run_Register 0]"

definition running_system :: system where
  "running_system = fold effect first_run empty_system"

lemma running_reach: "reach qstart qstep running_system"
proof -
  have "enabled_along first_run empty_system" by code_simp
  from reach_events [OF empty_reach this] show ?thesis by (simp add: running_system_def)
qed

text \<open>
  C7. No task is uploaded by two goroutines at once: in every reachable state a task object is
  marked running exactly when one run that has not yet published its result works on it, and
  two different such runs work on different tasks.
\<close>

theorem no_duplicate_acquisition:
  assumes "reach qstart qstep s"
  shows "(\<forall>a<q_next_ref (sy_q s). tk_status (task_at (sy_q s) a) = TaskRunning \<longleftrightarrow> (\<exists>r\<in>set (sy_runs s). owns a r))
    \<and> (\<forall>i<length (sy_runs s). \<forall>j<length (sy_runs s). i \<noteq> j \<and> owning (rn_phase (sy_runs s ! i))
          \<and> owning (rn_phase (sy_runs s ! j)) \<longrightarrow> run_ref s i \<noteq> run_ref s j)"
proof -
  have inv: "owner_inv s" by (rule owner.holds_reach [OF assms])
  have "tk_status (task_at (sy_q s) a) = TaskRunning \<longleftrightarrow> filter (owns a) (sy_runs s) \<noteq> []"
    if "a < q_next_ref (sy_q s)" for a
    using owner_count [OF inv that] by (auto split: if_splits)
  moreover note owners_differ [OF inv]
  ultimately show ?thesis by (auto simp: filter_empty_conv)
qed

theorem no_duplicate_acquisition_witness:
  "tk_status (task_at (sy_q running_system) 0) = TaskRunning \<and> (\<exists>r\<in>set (sy_runs running_system). owns 0 r)"
proof -
  have "0 < q_next_ref (sy_q running_system)" "tk_status (task_at (sy_q running_system) 0) = TaskRunning"
    by code_simp+
  then show ?thesis using no_duplicate_acquisition [OF running_reach] by blast
qed

text \<open>
  C9. The slot counter never leaks: in every reachable state \<open>runningTasks\<close> is the number of
  upload goroutines that have been started and have not yet given their slot back.
\<close>

theorem slots_never_leak:
  assumes "reach qstart qstep s"
  shows "q_running_tasks (sy_q s) = int (length (filter live (sy_runs s)))"
  using slots.holds_reach [OF assms] by (simp add: slots_inv_def)

theorem slots_never_leak_witness: "q_running_tasks (sy_q running_system) = 1"
proof -
  have "length (filter live (sy_runs running_system)) = 1" by code_simp
  with slots_never_leak [OF running_reach] show ?thesis by simp
qed

text \<open>
  C8. No wake-up is lost: in every reachable state with a pending task and a free slot, a
  signal waits in the dispatcher's channel, or some goroutine is about to send one (possibly
  after saving the tasks it added), unless the dispatcher has left its loop because of a shutdown.
\<close>

theorem no_lost_wakeup:
  assumes "reach qstart qstep s" "work_ready (sy_q s)"
  shows "q_worker (sy_q s) \<or> sy_due s > 0 \<or> sy_adds s \<noteq> [] \<or> sy_loop s = Exited"
  using wake.holds_reach [OF assms(1)] assms(2) by (simp add: wake_inv_def)

theorem no_lost_wakeup_witness:
  "let s = effect (Api_Add (\<lambda>_. 0) [''next.mkv''] zero_request) running_system in
    q_worker (sy_q s) \<or> sy_due s > 0 \<or> sy_adds s \<noteq> [] \<or> sy_loop s = Exited"
proof -
  let ?e = "Api_Add (\<lambda>_. 0) [''next.mkv''] zero_request"
  have "reach qstart qstep (effect ?e running_system)"
    by (rule reach_step [OF running_reach qstep]) simp
  moreover have "work_ready (sy_q (effect ?e running_system))"
    by code_simp
  ultimately show ?thesis using no_lost_wakeup by (simp add: Let_def del: effect.simps)
qed

text \<open>
  The concurrency limit holds at every dispatch: after a turn of the dispatcher the number
  of occupied slots is at most the limit, or was above it before (the limit was lowered) and
  has not grown.
\<close>

theorem dispatch_respects_limit:
  assumes "reach qstart qstep s" "enabled (Dispatch clock) s"
  shows "let s' = effect (Dispatch clock) s in
    int (length (filter live (sy_runs s'))) \<le> max (q_max_concurrent (sy_q s)) (q_running_tasks (sy_q s))
    \<and> q_max_concurrent (sy_q s') = q_max_concurrent (sy_q s)
    \<and> (q_running_tasks (sy_q s) \<ge> q_max_concurrent (sy_q s) \<longrightarrow> sy_runs s' = sy_runs s)"
proof -
  let ?q = "(sy_q s)\<lparr>q_worker := False\<rparr>"
  obtain as q' where r: "dispatch_loop 0 clock ?q = (as, q')" by fastforce
  have "distinct (q_tasks ?q)"
    using owner.holds_reach [OF assms(1)] by (simp add: owner_inv_def refs_ok_def)
  from dispatch_loop_order [OF this, of 0 clock] r
  have "length as \<le> nat (q_max_concurrent (sy_q s) - q_running_tasks (sy_q s))" by simp
  moreover have "slots_inv (effect (Dispatch clock) s)"
    by (rule slots_step [OF slots.holds_reach [OF assms(1)] assms(2)])
  ultimately show ?thesis
    using dispatch_loop_frame [OF r] r
    by (auto simp: Let_def dispatch_def slots_inv_def)
qed

theorem dispatch_respects_limit_witness:
  "let s = fold effect [Api_Add (\<lambda>_. 0) [''b''] zero_request, Api_Saved 0 demo_crypto no_disk, Trigger] running_system in
    int (length (filter live (sy_runs (effect (Dispatch (\<lambda>_. 0)) s)))) \<le> 2"
proof -
  let ?es = "[Api_Add (\<lambda>_. 0) [''b''] zero_request, Api_Saved 0 demo_crypto no_disk, Trigger]"
  let ?s = "fold effect ?es running_system"
  have "enabled_along ?es running_system" by code_simp
  then have reach: "reach qstart qstep ?s" by (rule reach_events [OF running_reach])
  have en: "enabled (Dispatch (\<lambda>_. 0)) ?s" by code_simp
  have "max (q_max_concurrent (sy_q ?s)) (q_running_tasks (sy_q ?s)) = 2" by code_simp
  with dispatch_respects_limit [OF reach en] show ?thesis
    by (simp only: Let_def)
qed

subsection \<open>Cancelling\<close>

text \<open>
  C30. Removing a running task whose goroutine is registered stops the upload before it starts:
  the task leaves the list, the run's context is done, and when the run connects it is turned
  away with the context's error instead of registering its connection.
\<close>

theorem remove_cancels_registered_run:
  assumes "first_index (\<lambda>a. tk_id (task_at (sy_q s) a) = i) (q_tasks (sy_q s)) = Some k"
    and "tk_status (task_at (sy_q s) (q_tasks (sy_q s) ! k)) = TaskRunning"
    and "go_get (q_active_cancels (sy_q s)) i = Some tok" "in_phase s tok Registered"
  shows "let s' = effect (Api_Control c env stat i ''remove'') s in
    q_tasks (sy_q s') = take k (q_tasks (sy_q s)) @ drop (Suc k) (q_tasks (sy_q s))
    \<and> run_cancelled (sy_q s') tok
    \<and> in_phase (effect (Run_Connect tok) s') tok (Returned (Some ''context canceled''))"
proof -
  have i: "tk_id (task_at (sy_q s) (q_tasks (sy_q s) ! k)) = i"
    using first_index_Some [OF assms(1)] by simp
  define q' where "q' = snd (control_task c env stat i ''remove'' (sy_q s))"
  have "q_cancelled_runs q' = tok # q_cancelled_runs (sy_q s) \<and> q_tasks q' = take k (q_tasks (sy_q s)) @ drop (Suc k) (q_tasks (sy_q s))"
    using assms i
    by (simp add: q'_def control_task_def control_found_def Let_def cancel_run_def save_state_def trigger_def)
  then have "run_cancelled q' tok" "q_tasks q' = take k (q_tasks (sy_q s)) @ drop (Suc k) (q_tasks (sy_q s))"
    by (simp_all add: run_cancelled_def)
  then show ?thesis
    using assms(4) by (simp add: Let_def connected_def q'_def [symmetric] in_phase_def set_phase_def)
qed

theorem remove_cancels_registered_run_witness:
  "let s' = effect (Api_Control demo_crypto no_disk (\<lambda>_. True) ''1'' ''remove'') running_system in
    q_tasks (sy_q s') = [] \<and> run_cancelled (sy_q s') 0
    \<and> in_phase (effect (Run_Connect 0) s') 0 (Returned (Some ''context canceled''))"
proof -
  have "q_tasks (sy_q running_system) = [0]" by code_simp
  moreover have "first_index (\<lambda>a. tk_id (task_at (sy_q running_system) a) = ''1'') (q_tasks (sy_q running_system)) = Some 0"
    by code_simp
  moreover have "tk_status (task_at (sy_q running_system) 0) = TaskRunning"
    "go_get (q_active_cancels (sy_q running_system)) ''1'' = Some 0" "in_phase running_system 0 Registered"
    by code_simp+
  ultimately show ?thesis
    using remove_cancels_registered_run [of running_system "''1''" 0 0 demo_crypto no_disk "\<lambda>_. True"]
    by (simp add: Let_def del: effect.simps)
qed

definition lost_cancel :: "event list" where
  "lost_cancel = [Run_Fail 0 ''sftp connection failed'', Run_Finish 0,
     Api_Control demo_crypto no_disk (\<lambda>_. True) ''1'' ''retry'',
     Dispatch (\<lambda>_. 1), Run_Register 1, Run_Save 0 demo_crypto no_disk, Run_Unregister 0]"

text \<open>
  The cancel function of a run can be deleted by another run. A failed task retried before
  its goroutine has finished unregistering gets a second run, and the first run's deferred
  \<open>delete(qm.activeCancels, id)\<close> then removes the entry of the second. Removing the task in that
  state reports success, yet the second run is not cancelled and goes on to upload a file whose
  task is no longer in the queue.
\<close>

theorem cancel_entry_can_be_lost:
  "\<exists>s. reach qstart qstep s \<and> in_phase s 1 Registered \<and> run_id s 1 = ''1''
     \<and> tk_status (task_at (sy_q s) (run_ref s 1)) = TaskRunning \<and> q_tasks (sy_q s) = [run_ref s 1]
     \<and> (let s' = effect (Api_Control demo_crypto no_disk (\<lambda>_. True) ''1'' ''remove'') s in
          q_tasks (sy_q s') = [] \<and> \<not> run_cancelled (sy_q s') 1
          \<and> in_phase (effect (Run_Connect 1) s') 1 Connected)"
proof -
  let ?s = "fold effect lost_cancel running_system"
  have "enabled_along lost_cancel running_system" by code_simp
  then have "reach qstart qstep ?s" by (rule reach_events [OF running_reach])
  moreover have "in_phase ?s 1 Registered \<and> run_id ?s 1 = ''1'' \<and> run_ref ?s 1 = 0
     \<and> tk_status (task_at (sy_q ?s) 0) = TaskRunning \<and> q_tasks (sy_q ?s) = [0]
     \<and> (let s' = effect (Api_Control demo_crypto no_disk (\<lambda>_. True) ''1'' ''remove'') ?s in
          q_tasks (sy_q s') = [] \<and> \<not> run_cancelled (sy_q s') 1
          \<and> in_phase (effect (Run_Connect 1) s') 1 Connected)"
    by code_simp
  ultimately show ?thesis
    by (intro exI [of _ ?s]) (simp only: simp_thms)
qed

text \<open>
  A graceful shutdown is not a pause: once the manager's context is cancelled, a run that
  has not yet connected ends with its task marked failed with the context's error, and the save
  that follows writes that failed state, so the upload is not queued again by the next process.
\<close>

theorem shutdown_fails_running_tasks:
  assumes "q_cancelled (sy_q s)" "in_phase s tok Registered" "good_env env"
    "run_ref s tok \<in> set (q_tasks (sy_q s))"
  shows "let s' = effect (Run_Save tok c env) (effect (Run_Finish tok) (effect (Run_Connect tok) s)) in
    tk_status (task_at (sy_q s') (run_ref s tok)) = TaskFailed
    \<and> tk_error (task_at (sy_q s') (run_ref s tok)) = ''context canceled''
    \<and> (\<exists>st. q_disk (sy_q s') = Some (StateFile st)
          \<and> (\<exists>d\<in>set (ds_tasks st). \<exists>t. dk_task d = Some t \<and> tk_id t = run_id s tok \<and> tk_status t = TaskFailed))"
proof -
  let ?a = "run_ref s tok"
  define s1 where "s1 = effect (Run_Connect tok) s"
  have s1: "s1 = set_phase tok (Returned (Some ''context canceled'')) s"
    using assms(1) by (simp add: s1_def connected_def run_cancelled_def)
  have ref: "run_ref s1 tok = ?a" "rn_phase (sy_runs s1 ! tok) = Returned (Some ''context canceled'')" "sy_q s1 = sy_q s"
    using assms(2) by (simp_all add: s1 run_ref_def set_phase_def in_phase_def)
  define q2 where "q2 = set_task ?a (finish_task (Some ''context canceled'') (task_at (sy_q s) ?a)) (sy_q s)"
  have s2: "sy_q (effect (Run_Finish tok) s1) = q2"
    by (simp add: q2_def on_task_def ref)
  have fin: "tk_status (task_at q2 ?a) = TaskFailed" "tk_error (task_at q2 ?a) = ''context canceled''"
    "tk_id (task_at q2 ?a) = run_id s tok"
    by (simp_all add: q2_def finish_task_def run_id_def)
  have "?a \<in> set (q_tasks q2)" using assms(4) by (simp add: q2_def)
  then obtain n where "n < length (q_tasks q2)" "q_tasks q2 ! n = ?a"
    by (auto simp: in_set_conv_nth)
  then have "(n, ?a) \<in> set (enumerate 0 (q_tasks q2))"
    by (simp add: in_set_enumerate_eq)
  then have "disk_entry c env q2 (n, ?a) \<in> set (ds_tasks (disk_image c env q2))"
    by (auto simp: disk_image_def)
  moreover have "dk_task (disk_entry c env q2 (n, ?a)) = Some (json_task (task_at q2 ?a))"
    by (simp add: disk_entry_fields)
  moreover have "tk_id (json_task (task_at q2 ?a)) = run_id s tok" "tk_status (json_task (task_at q2 ?a)) = TaskFailed"
    by (simp_all add: json_task_def fin)
  ultimately have "\<exists>d\<in>set (ds_tasks (disk_image c env q2)). \<exists>t. dk_task d = Some t \<and> tk_id t = run_id s tok \<and> tk_status t = TaskFailed"
    by blast
  moreover have s3: "sy_q (effect (Run_Save tok c env) x) = save_state c env (sy_q x)" for x
    by simp
  ultimately show ?thesis
    unfolding s1_def [symmetric] Let_def s3 s2 by (simp add: fin saved_file [OF assms(3)])
qed

theorem shutdown_fails_running_tasks_witness:
  "\<exists>st. q_disk (sy_q (effect (Run_Save 0 demo_crypto demo_env) (effect (Run_Finish 0)
       (effect (Run_Connect 0) (effect Shut_Down running_system))))) = Some (StateFile st)
     \<and> (\<exists>d\<in>set (ds_tasks st). \<exists>t. dk_task d = Some t \<and> tk_id t = ''1'' \<and> tk_status t = TaskFailed)"
proof -
  let ?s = "effect Shut_Down running_system"
  have "q_cancelled (sy_q ?s)" "in_phase ?s 0 Registered" "run_ref ?s 0 \<in> set (q_tasks (sy_q ?s))"
    "run_id ?s 0 = ''1''"
    by code_simp+
  then show ?thesis
    using shutdown_fails_running_tasks [of ?s 0 demo_env demo_crypto]
    by (simp add: Let_def del: effect.simps)
qed

subsection \<open>The file that is uploaded\<close>

text \<open>
  A task can only upload a file below the local directory: whatever file name the task
  carries, the path that is handed to the uploader has, after symbolic links are followed, all
  the components of the resolved local directory and no step back up; and it could be opened
  through the root of that directory.
\<close>

theorem uploaded_file_is_local:
  assumes "candidate_path e dir file_name = Inr p"
  shows "\<exists>base0 rel. fe_abs e dir = Inr base0 \<and> is_abs (eval_or e base0) = is_abs p
    \<and> under (norm_parts (eval_or e base0)) (norm_parts p)
    \<and> path_rel (eval_or e base0) p = Some rel
    \<and> fe_open_root e (eval_or e base0) = None \<and> fe_open e (eval_or e base0) rel = None"
proof -
  obtain base0 where base0: "fe_abs e dir = Inr base0"
    using assms by (auto simp: candidate_path_def split: sum.splits)
  obtain rel where rel: "path_rel (eval_or e base0) p = Some rel" "\<not> escapes rel"
    "fe_open_root e (eval_or e base0) = None" "fe_open e (eval_or e base0) rel = None"
    using assms base0
    by (auto simp: candidate_path_def Let_def split: sum.splits option.splits if_splits)
  then have "contained (eval_or e base0) p" by (simp add: contained_def)
  then show ?thesis using base0 rel by (auto simp: contained_iff)
qed

definition demo_files :: file_env where
  "demo_files = \<lparr>fe_abs = (\<lambda>p. Inr p), fe_eval = (\<lambda>_. None),
     fe_open_root = (\<lambda>_. None), fe_open = (\<lambda>_ _. None)\<rparr>"

theorem uploaded_file_is_local_witness:
  "candidate_path demo_files ''/srv/data'' ''a/../film.mkv'' = Inr ''/srv/data/film.mkv''
   \<and> under (norm_parts ''/srv/data'') (norm_parts ''/srv/data/film.mkv'')
   \<and> candidate_path demo_files ''/srv/data'' ''../etc/shadow''
       = Inl ''invalid file path: traversal detected''"
proof -
  let ?e = demo_files
  have run: "candidate_path ?e ''/srv/data'' ''a/../film.mkv'' = Inr ''/srv/data/film.mkv''"
    "candidate_path ?e ''/srv/data'' ''../etc/shadow'' = Inl ''invalid file path: traversal detected''"
    "eval_or ?e ''/srv/data'' = ''/srv/data''"
    by code_simp+
  have "fe_abs ?e ''/srv/data'' = Inr ''/srv/data''" by (simp add: demo_files_def)
  with uploaded_file_is_local [OF run(1)] run show ?thesis by simp
qed

end
