(* ===== verification/Remote_Path.thy ===== *)
theory Remote_Path
  imports Go_Path Models
begin

text \<open>
  The remote side of the file manager: \<open>SFTPClient.validateRemotePath\<close> and the operations that
  call it (\<open>internal/sftpclient/client.go\<close>), and the handlers of \<open>/api/remote/files\<close> and
  \<open>/api/remote/files/action\<close> (\<open>internal/api/server.go\<close>), which check paths a second time.

  The SFTP session (\<open>pkg/sftp\<close>) is a parameter: one function per call of
  \<open>SFTPClientInterface\<close>, from a state \<open>'s\<close> of the server to a result and a new state. An error
  is its text. \<open>filepath.ToSlash\<close> and \<open>FromSlash\<close> are the identity on Unix.
\<close>

record sftp_client =
  sc_host :: string
  sc_port :: string
  sc_user :: string
  sc_password :: string
  sc_key_path :: string
  sc_remote_dir :: string
  sc_delete_after_verify :: bool
  sc_overwrite :: bool
  sc_known_hosts_path :: string
  sc_skip_host_key_verification :: bool
  sc_rate_limit_kbps :: int
  sc_max_latency_ms :: int
  sc_min_limit_kbps :: int
  sc_connected :: bool

definition new_sftp_client :: "upload_request \<Rightarrow> sftp_client" where
  "new_sftp_client req =
     \<lparr>sc_host = ur_host req, sc_port = itoa (ur_port req), sc_user = ur_user req,
      sc_password = ur_password req, sc_key_path = ur_key_path req, sc_remote_dir = ur_remote_dir req,
      sc_delete_after_verify = False, sc_overwrite = False, sc_known_hosts_path = [],
      sc_skip_host_key_verification = ur_skip_host_key_verification req,
      sc_rate_limit_kbps = 0, sc_max_latency_ms = 0, sc_min_limit_kbps = 0, sc_connected = False\<rparr>"

text \<open>The queue sets more fields than the file manager.\<close>

definition queue_client :: "upload_request \<Rightarrow> sftp_client" where
  "queue_client req =
     (new_sftp_client req)\<lparr>sc_delete_after_verify := ur_delete_after_verify req,
       sc_overwrite := ur_overwrite req, sc_rate_limit_kbps := ur_rate_limit_kbps req,
       sc_max_latency_ms := ur_max_latency_ms req, sc_min_limit_kbps := ur_min_limit_kbps req\<rparr>"

record 's dir_ops =
  do_remove :: "string \<Rightarrow> 's \<Rightarrow> string option \<times> 's"
  do_rename :: "string \<Rightarrow> string \<Rightarrow> 's \<Rightarrow> string option \<times> 's"
  do_mkdir :: "string \<Rightarrow> 's \<Rightarrow> string option \<times> 's"
  do_read_dir :: "string \<Rightarrow> 's \<Rightarrow> (string + file_info list) \<times> 's"

subsection \<open>Paths the client accepts\<close>

definition validate_remote_path :: "sftp_client \<Rightarrow> string \<Rightarrow> string + string" where
  "validate_remote_path c p0 =
     (if \<not> sc_connected c then Inl ''SFTP client not connected''
      else
        let p1 = path_clean p0;
            (base, p) = (if is_abs p1 then (''/'', p1)
                         else let b = path_clean (sc_remote_dir c) in (b, path_join [b, p1]))
        in (case path_rel base p of
              None \<Rightarrow> Inl ''invalid remote path''
            | Some rel \<Rightarrow>
                if escapes rel then Inl ''unauthorized remote path access: traversal detected''
                else Inr p))"

definition client_remove :: "'s dir_ops \<Rightarrow> sftp_client \<Rightarrow> string \<Rightarrow> 's \<Rightarrow> string option \<times> 's" where
  "client_remove ops c p s =
     (case validate_remote_path c p of Inl e \<Rightarrow> (Some e, s) | Inr q \<Rightarrow> do_remove ops q s)"

definition client_rename :: "'s dir_ops \<Rightarrow> sftp_client \<Rightarrow> string \<Rightarrow> string \<Rightarrow> 's \<Rightarrow> string option \<times> 's" where
  "client_rename ops c old_path new_path s =
     (case validate_remote_path c old_path of
        Inl e \<Rightarrow> (Some e, s)
      | Inr op \<Rightarrow>
          (case validate_remote_path c new_path of
             Inl e \<Rightarrow> (Some e, s)
           | Inr np \<Rightarrow> do_rename ops op np s))"

definition client_mkdir :: "'s dir_ops \<Rightarrow> sftp_client \<Rightarrow> string \<Rightarrow> 's \<Rightarrow> string option \<times> 's" where
  "client_mkdir ops c p s =
     (case validate_remote_path c p of Inl e \<Rightarrow> (Some e, s) | Inr q \<Rightarrow> do_mkdir ops q s)"

definition read_remote_dir ::
  "'s dir_ops \<Rightarrow> sftp_client \<Rightarrow> string \<Rightarrow> 's \<Rightarrow> (string + file_info list) \<times> 's" where
  "read_remote_dir ops c p s =
     (case validate_remote_path c p of Inl e \<Rightarrow> (Inl e, s) | Inr q \<Rightarrow> do_read_dir ops q s)"

subsection \<open>The remote handlers\<close>

datatype remote_reply =
    RemoteOk
  | RemoteListing string "file_info list"
  | RemoteUnauthorized string
  | RemoteBadRequest string
  | RemoteInternal string

text \<open>
  \<open>/api/remote/files\<close> after decoding and connecting; \<open>query\<close> is the path of the query string.
\<close>

definition handle_remote_files ::
  "'s dir_ops \<Rightarrow> sftp_client \<Rightarrow> upload_request \<Rightarrow> string \<Rightarrow> 's \<Rightarrow> remote_reply \<times> 's" where
  "handle_remote_files ops c req query s =
     (let remote_path = (if query = [] then ur_remote_dir req else query) in
      case read_remote_dir ops c remote_path s of
        (Inl _, s') \<Rightarrow> (RemoteInternal ''Internal server error'', s')
      | (Inr files, s') \<Rightarrow> (RemoteListing remote_path files, s'))"

text \<open>The check of \<open>/api/remote/files/action\<close>, on paths with backslashes turned into slashes.\<close>

definition to_slashes :: "string \<Rightarrow> string" where
  "to_slashes = replace_char (CHR 0x5C) (CHR ''/'')"

definition remote_action_allowed :: "sftp_client \<Rightarrow> string \<Rightarrow> bool" where
  "remote_action_allowed c p =
     contained (path_clean (to_slashes (sc_remote_dir c))) (path_clean (to_slashes p))"

definition bad_remote_name :: "string \<Rightarrow> bool" where
  "bad_remote_name n \<longleftrightarrow> n = [] \<or> n = ''.'' \<or> n = ''..'' \<or> contains_str n ''/''"

definition handle_remote_action ::
  "'s dir_ops \<Rightarrow> sftp_client \<Rightarrow> file_action_request \<Rightarrow> 's \<Rightarrow> remote_reply \<times> 's" where
  "handle_remote_action ops c req s =
     (if \<not> remote_action_allowed c (fa_path req) then (RemoteUnauthorized ''Unauthorized remote path'', s)
      else
        let act = (if fa_action req = ''delete'' then Inr (client_remove ops c (fa_path req) s)
          else if fa_action req = ''rename'' then
            (if bad_remote_name (fa_new_name req) then Inl ''Invalid new name''
             else Inr (client_rename ops c (fa_path req)
                    (path_join [path_dir (fa_path req), fa_new_name req]) s))
          else if fa_action req = ''mkdir'' then Inr (client_mkdir ops c (fa_path req) s)
          else Inl ''Invalid action'')
        in case act of
             Inl msg \<Rightarrow> (RemoteBadRequest msg, s)
           | Inr (Some _, s') \<Rightarrow> (RemoteInternal ''Internal server error'', s')
           | Inr (None, s') \<Rightarrow> (RemoteOk, s'))"

subsection \<open>What the client accepts\<close>

lemma root_under [simp]: "norm_parts ''/'' = []" "is_abs ''/''"
  by code_simp+

lemma abs_contained: "is_abs p \<Longrightarrow> contained ''/'' p"
  using norm_parts_normal [of p] by (auto simp: contained_iff under_def normal_rooted)

lemma validate_abs:
  "sc_connected c \<Longrightarrow> is_abs p \<Longrightarrow> validate_remote_path c p = Inr (path_clean p)"
  using abs_contained [of "path_clean p"]
  by (auto simp: validate_remote_path_def Let_def contained_def split: option.splits)

lemma validate_rel:
  assumes "sc_connected c" "\<not> is_abs p"
  defines "b \<equiv> path_clean (sc_remote_dir c)"
  shows "(\<exists>q. validate_remote_path c p = Inr q) \<longleftrightarrow> contained b (path_join [b, path_clean p])"
    and "validate_remote_path c p = Inr q \<Longrightarrow> q = path_join [b, path_clean p]"
  using assms
  by (auto simp: validate_remote_path_def Let_def contained_def split: option.splits if_splits)

text \<open>
  What the client may touch: an absolute path is accepted anywhere in the account and is
  used in its normalised form; a relative path is only accepted when, joined to the configured
  directory, it names something below that directory.
\<close>

theorem remote_path_scope:
  assumes "validate_remote_path c p = Inr q"
  shows "(is_abs p \<and> q = path_clean p) \<or>
    (\<not> is_abs p \<and> is_abs q = is_abs (sc_remote_dir c) \<and> under (norm_parts (sc_remote_dir c)) (norm_parts q))"
proof -
  have conn: "sc_connected c" using assms by (simp add: validate_remote_path_def split: if_splits)
  show ?thesis
  proof (cases "is_abs p")
    case True
    then show ?thesis using validate_abs [OF conn True] assms by simp
  next
    case False
    then have "contained (path_clean (sc_remote_dir c)) q"
      using validate_rel [OF conn False] assms by auto
    with False show ?thesis by (simp add: contained_iff)
  qed
qed

definition demo_client :: "string \<Rightarrow> sftp_client" where
  "demo_client dir = (new_sftp_client (zero_request\<lparr>ur_remote_dir := dir\<rparr>))\<lparr>sc_connected := True\<rparr>"

lemma demo_client_simps [simp]: "sc_connected (demo_client dir)" "sc_remote_dir (demo_client dir) = dir"
  by (simp_all add: demo_client_def new_sftp_client_def)

theorem remote_path_scope_witness:
  "validate_remote_path (demo_client ''/upload'') ''a/../b'' = Inr ''/upload/b''
    \<and> under (norm_parts ''/upload'') (norm_parts ''/upload/b'')
    \<and> validate_remote_path (demo_client ''/upload'') ''../b''
        = Inl ''unauthorized remote path access: traversal detected''"
proof -
  have run: "validate_remote_path (demo_client ''/upload'') ''a/../b'' = Inr ''/upload/b''"
    "validate_remote_path (demo_client ''/upload'') ''../b''
        = Inl ''unauthorized remote path access: traversal detected''"
    "\<not> is_abs ''a/../b''"
    by code_simp+
  with remote_path_scope [OF run(1)] show ?thesis by simp
qed

subsection \<open>A relative remote directory\<close>

lemma under_append: "under bs (bs @ rest) \<longleftrightarrow> ''..'' \<notin> set rest"
  by (simp add: under_def)

lemma join_plain:
  assumes "a \<noteq> []" "\<not> is_abs p" "''..'' \<notin> set (norm_parts p)"
  shows "norm_parts (path_join [a, path_clean p]) = norm_parts a @ norm_parts p"
proof -
  have parts: "\<forall>x\<in>set (norm_parts p). part x" "normal False (norm_parts p)"
    using norm_parts_normal [of p] assms(2) by (simp_all add: normal_def)
  have "clean_parts r out cs = rev out @ cs" if "\<forall>x\<in>set cs. part x \<and> x \<noteq> ''..''" for r out cs
    using that by (induction r out cs rule: clean_parts.induct) (auto simp: part_def)
  then have step: "clean_parts r out (norm_parts p) = rev out @ norm_parts p" for r out
    using parts(1) assms(3) by metis
  show ?thesis
  proof (cases "norm_parts p = []")
    case True
    then have "path_clean p = ''.''" using assms(2) by (simp add: path_clean_def show_path_def)
    then show ?thesis using path_join2(2) [OF assms(1), of "''.''"] True
      by (simp add: split_on_clean)
  next
    case False
    then have "path_clean p = parts_path (norm_parts p)" using assms(2) by (simp add: path_clean_def show_path_def)
    then show ?thesis
      using path_join2(2) [OF assms(1), of "path_clean p"] path_parts_join [OF parts(1) False] step by simp
  qed
qed

text \<open>
  A relative remote directory is applied twice. Listing without a path asks the client for
  the configured directory itself; when that is relative the client resolves it below the
  configured directory again, so the listing that the reply labels with the directory comes
  from the directory of the same name inside it.
\<close>

theorem relative_remote_dir_applied_twice:
  assumes "sc_connected c" "sc_remote_dir c = ur_remote_dir req"
    and "\<not> is_abs (ur_remote_dir req)" "norm_parts (ur_remote_dir req) \<noteq> []"
    and "''..'' \<notin> set (norm_parts (ur_remote_dir req))"
  shows "\<exists>q. norm_parts q = norm_parts (ur_remote_dir req) @ norm_parts (ur_remote_dir req) \<and> \<not> is_abs q
    \<and> handle_remote_files ops c req [] s =
        (case do_read_dir ops q s of
           (Inl _, s') \<Rightarrow> (RemoteInternal ''Internal server error'', s')
         | (Inr files, s') \<Rightarrow> (RemoteListing (ur_remote_dir req) files, s'))"
proof -
  let ?d = "ur_remote_dir req" and ?b = "path_clean (ur_remote_dir req)"
  let ?q = "path_join [?b, path_clean ?d]"
  have q: "norm_parts ?q = norm_parts ?d @ norm_parts ?d"
    using join_plain [of ?b ?d] clean_nonempty [of ?d] assms(3,5) by simp
  have rel: "\<not> is_abs ?q" using path_join2(1) [of ?b "path_clean ?d"] clean_nonempty [of ?d] assms(3) by simp
  have "contained ?b ?q"
    using q rel assms(3,5) by (simp add: contained_iff under_append)
  then have "validate_remote_path c ?d = Inr ?q"
    using validate_rel [OF assms(1), of ?d] assms(2,3) by auto
  then show ?thesis
    using q rel by (intro exI [of _ ?q]) (simp add: handle_remote_files_def read_remote_dir_def Let_def)
qed

definition demo_ops :: "string list dir_ops" where
  "demo_ops = \<lparr>do_remove = (\<lambda>p s. (None, p # s)), do_rename = (\<lambda>p q s. (None, p # q # s)),
     do_mkdir = (\<lambda>p s. (None, p # s)), do_read_dir = (\<lambda>p s. (Inr [], p # s))\<rparr>"

theorem relative_remote_dir_applied_twice_witness:
  "\<exists>q. norm_parts q = [''uploads'', ''uploads'']
    \<and> handle_remote_files demo_ops (demo_client ''uploads'') (zero_request\<lparr>ur_remote_dir := ''uploads''\<rparr>) [] []
        = (RemoteListing ''uploads'' [], [q])"
proof -
  let ?req = "zero_request\<lparr>ur_remote_dir := ''uploads''\<rparr>"
  have np: "norm_parts ''uploads'' = [''uploads'']" "\<not> is_abs ''uploads''" by code_simp+
  from relative_remote_dir_applied_twice [of "demo_client ''uploads''" ?req demo_ops "[]"] np
  show ?thesis by (auto simp: demo_ops_def)
qed

subsection \<open>What a remote action may touch\<close>

lemma to_slashes_id: "CHR 0x5C \<notin> set p \<Longrightarrow> to_slashes p = p"
  by (auto simp: to_slashes_def replace_char_def intro: map_idI)

lemma under_refl [simp]: "under bs bs" by (simp add: under_def)

lemma norm_parts_dir:
  assumes "is_abs p"
  obtains ws w where "norm_parts p = clean_parts True [] (ws @ [w])"
    "norm_parts (path_dir p) = clean_parts True [] ws" "is_abs (path_dir p)" "CHR ''/'' \<notin> set w"
proof -
  define w where "w = rev (takeWhile (\<lambda>c. c \<noteq> CHR ''/'') (rev p))"
  define d where "d = rev (dropWhile (\<lambda>c. c \<noteq> CHR ''/'') (rev p))"
  have p: "p = d @ w" by (simp add: w_def d_def flip: rev_append)
  have w: "CHR ''/'' \<notin> set w" by (auto simp: w_def dest: set_takeWhileD)
  have "CHR ''/'' \<in> set p" using assms by (auto simp: is_abs_Cons)
  then have ne: "dropWhile (\<lambda>c. c \<noteq> CHR ''/'') (rev p) \<noteq> []" by (simp add: dropWhile_eq_Nil_conv)
  then have "hd (dropWhile (\<lambda>c. c \<noteq> CHR ''/'') (rev p)) = CHR ''/''"
    using hd_dropWhile by blast
  then obtain d' where d: "d = d' @ ''/''"
    using ne unfolding d_def by (metis list.collapse rev.simps(2))
  have abs_d: "is_abs d" using assms p d by (cases d') (auto simp: is_abs_Cons)
  have parts_d: "path_parts d = path_parts d' @ [[]]"
    by (simp add: d split_on_append_sep)
  have parts_p: "path_parts p = path_parts d' @ [w]"
    using w by (simp add: p d split_on_append_sep split_on_clean)
  have "norm_parts (path_dir p) = norm_parts d" by (simp add: path_dir_def flip: d_def)
  also have "\<dots> = clean_parts True [] (path_parts d')"
    using abs_d parts_d by (simp add: norm_parts_def clean_parts_append)
  finally have "norm_parts (path_dir p) = clean_parts True [] (path_parts d')" .
  moreover have "norm_parts p = clean_parts True [] (path_parts d' @ [w])"
    using assms by (simp add: norm_parts_def parts_p)
  moreover have "is_abs (path_dir p)" using abs_d by (simp add: path_dir_def flip: d_def)
  ultimately show thesis using that w by blast
qed

lemma dir_under:
  assumes "is_abs p" "under bs (norm_parts p)" "norm_parts p \<noteq> bs" "''..'' \<notin> set bs"
  shows "under bs (norm_parts (path_dir p))"
proof -
  obtain ws w where w: "norm_parts p = clean_parts True [] (ws @ [w])"
    "norm_parts (path_dir p) = clean_parts True [] ws" "is_abs (path_dir p)"
    by (rule norm_parts_dir [OF assms(1)])
  let ?n = "clean_parts True [] ws"
  have n: "normal True ?n" using norm_parts_normal [of "path_dir p"] w by simp
  have p: "norm_parts p = clean_parts True (rev ?n) [w]"
    using w by (simp add: clean_parts_append)
  obtain rest where rest: "norm_parts p = bs @ rest" "''..'' \<notin> set rest" "rest \<noteq> []"
    using assms(2,3) by (auto simp: under_iff)
  consider "w = [] \<or> w = ''.''" | "w = ''..''" | "w \<noteq> []" "w \<noteq> ''.''" "w \<noteq> ''..''" by blast
  then show ?thesis
  proof cases
    case 1
    then show ?thesis using p w(2) assms(2) by auto
  next
    case 2
    show ?thesis
    proof (cases "?n = []")
      case True
      then show ?thesis using p 2 rest by simp
    next
      case False
      then have "hd (rev ?n) \<noteq> ''..''"
        using normal_rooted [OF n] by (metis hd_rev last_in_set)
      then have "norm_parts p = butlast ?n" using p 2 False by (simp flip: butlast_rev)
      then have "?n = bs @ rest @ [last ?n]" using False rest(1) by (metis append_assoc append_butlast_last_id)
      then show ?thesis
        using w(2) normal_rooted [OF n] by (metis Un_iff set_append under_append)
    qed
  next
    case 3
    then have "norm_parts p = ?n @ [w]" using p by simp
    then obtain rest' where "rest = rest' @ [w]" "?n = bs @ rest'"
      using rest by (metis append_butlast_last_id butlast_append butlast_snoc last_appendR last_snoc)
    then show ?thesis using rest(2) w(2) by (simp add: under_append)
  qed
qed

lemma dir_join_under:
  assumes "is_abs p" "under bs (norm_parts p)" "norm_parts p \<noteq> bs" "''..'' \<notin> set bs" "\<not> bad_remote_name n"
  shows "is_abs (path_join [path_dir p, n])" "under bs (norm_parts (path_join [path_dir p, n]))"
proof -
  have abs: "is_abs (path_dir p)" by (rule norm_parts_dir [OF assms(1)])
  then have ne: "path_dir p \<noteq> []" by (auto simp: is_abs_Cons)
  have "CHR ''/'' \<notin> set n"
    using assms(5) by (auto simp: bad_remote_name_def contains_str_def sublist_def in_set_conv_decomp)
  then have n: "part n" "n \<noteq> ''..''" using assms(5) by (auto simp: bad_remote_name_def part_def)
  show "is_abs (path_join [path_dir p, n])" using path_join2(1) [OF ne] abs by simp
  show "under bs (norm_parts (path_join [path_dir p, n]))"
    using dir_under [OF assms(1-4)] join_part [OF ne n] n(2) by (auto simp: under_iff)
qed


definition remote_request :: "string \<Rightarrow> string \<Rightarrow> string \<Rightarrow> file_action_request" where
  "remote_request action p n = \<lparr>fa_action = action, fa_path = p, fa_new_name = n, fa_config = zero_request\<rparr>"


text \<open>
  Both restrictions are needed: with a backslash in the path the handler and the client
  read different paths, so a request that passes the check deletes \<open>/z\<close> although the
  configured directory is \<open>/upload\<close>; and renaming the configured directory itself moves it
  out to its parent, where the handler for local files refuses its root.
\<close>

theorem remote_action_can_escape:
  "handle_remote_action demo_ops (demo_client ''/upload'')
      (remote_request ''delete'' (''/upload/x'' @ [CHR 0x5C] @ ''y/../../z'') '''') [] = (RemoteOk, [''/z''])
    \<and> handle_remote_action demo_ops (demo_client ''/upload'') (remote_request ''rename'' ''/upload'' ''z'') []
      = (RemoteOk, [''/upload'', ''/z''])"
  by (intro conjI) code_simp+

end
