(* ===== verification/Upload.thy ===== *)
theory Upload
  imports Remote_Path Limiter
begin

text \<open>
  Uploading one file (\<open>internal/sftpclient/client.go\<close>): \<open>UploadFile\<close> with its resume logic,
  \<open>trimPartialUpload\<close>, the retry loop and its delays, and the stack of readers a transfer pulls
  its bytes through.

  The calls on the SFTP session and on an open remote file (\<open>pkg/sftp\<close>) are the fields of a
  record, functions on a state \<open>'s\<close> of the server; \<open>fo_transfer\<close> is one \<open>ReadFrom\<close> (or
  \<open>io.Copy\<close>) of the bytes that the local reader still has, and fails when the server, the
  throttle or the context does. The local file is a fixed byte string with the failures its
  operations may meet.
\<close>

subsection \<open>The interfaces\<close>

text \<open>An error of \<open>Stat\<close>: whether \<open>os.IsNotExist\<close> recognises it, and its text.\<close>

type_synonym stat_error = "bool \<times> string"

record ('s, 'h) file_ops =
  fo_stat :: "string \<Rightarrow> 's \<Rightarrow> (stat_error + int) \<times> 's"
  fo_open :: "string \<Rightarrow> 's \<Rightarrow> (string + 'h) \<times> 's"
  fo_create :: "string \<Rightarrow> 's \<Rightarrow> (string + 'h) \<times> 's"
  fo_read_full :: "'h \<Rightarrow> nat \<Rightarrow> 's \<Rightarrow> (string + string) \<times> 's"
  fo_seek_end :: "'h \<Rightarrow> 's \<Rightarrow> (string + int) \<times> 's"
  fo_seek_current :: "'h \<Rightarrow> 's \<Rightarrow> (string + int) \<times> 's"
  fo_truncate :: "'h \<Rightarrow> int \<Rightarrow> 's \<Rightarrow> string option \<times> 's"
  fo_transfer :: "'h \<Rightarrow> string \<Rightarrow> 's \<Rightarrow> string option \<times> 's"
  fo_close :: "'h \<Rightarrow> 's \<Rightarrow> string option \<times> 's"
  fo_remove :: "string \<Rightarrow> 's \<Rightarrow> string option \<times> 's"
  fo_rename :: "string \<Rightarrow> string \<Rightarrow> 's \<Rightarrow> string option \<times> 's"
  fo_reader_from :: bool
  fo_can_truncate :: bool

record local_file =
  lf_open_err :: "string option"
  lf_stat_err :: "string option"
  lf_data :: string
  lf_seek_ok :: "int \<Rightarrow> bool"
  lf_read_ok :: bool
  lf_remove_err :: "string option"

abbreviation lf_size :: "local_file \<Rightarrow> int" where
  "lf_size lf \<equiv> int (length (lf_data lf))"

record upload_result =
  ul_error :: "string option"
  ul_deleted :: bool

subsection \<open>Opening the temporary file\<close>

definition max_prefix :: int where
  "max_prefix = 1024 * 1024"

text \<open>A partial file is only continued when the start of it matches the local file.\<close>

definition try_resume ::
  "('s, 'h) file_ops \<Rightarrow> local_file \<Rightarrow> string \<Rightarrow> int \<Rightarrow> 's \<Rightarrow> ('h \<times> int) option \<times> 's" where
  "try_resume ops lf temp rsize s =
     (case fo_open ops temp s of
        (Inl _, s1) \<Rightarrow> (None, s1)
      | (Inr h, s1) \<Rightarrow>
          let n = nat (if rsize > max_prefix then max_prefix else rsize) in
          (case fo_read_full ops h n s1 of
             (Inl _, s2) \<Rightarrow> (None, snd (fo_close ops h s2))
           | (Inr remote, s2) \<Rightarrow>
               if lf_seek_ok lf 0 \<and> lf_read_ok lf \<and> n \<le> length (lf_data lf) \<and> remote = take n (lf_data lf)
               then (case fo_seek_end ops h s2 of
                   (Inl _, s3) \<Rightarrow> (None, snd (fo_close ops h s3))
                 | (Inr off, s3) \<Rightarrow>
                     if lf_seek_ok lf off then (Some (h, off), s3) else (None, snd (fo_close ops h s3)))
               else (None, snd (fo_close ops h s2))))"

definition create_temp :: "('s, 'h) file_ops \<Rightarrow> string \<Rightarrow> 's \<Rightarrow> (string + 'h \<times> int) \<times> 's" where
  "create_temp ops temp s =
     (case fo_create ops temp s of
        (Inl e, s1) \<Rightarrow> (Inl (''failed to create temp remote file: '' @ e), s1)
      | (Inr h, s1) \<Rightarrow> (Inr (h, 0), s1))"

definition open_temp :: "('s, 'h) file_ops \<Rightarrow> local_file \<Rightarrow> string \<Rightarrow> 's \<Rightarrow> (string + 'h \<times> int) \<times> 's" where
  "open_temp ops lf temp s =
     (case fo_stat ops temp s of
        (Inl _, s1) \<Rightarrow> create_temp ops temp s1
      | (Inr rsize, s1) \<Rightarrow>
          if rsize > 0 \<and> rsize < lf_size lf then
            (case try_resume ops lf temp rsize s1 of
               (Some r, s2) \<Rightarrow> (Inr r, s2)
             | (None, s2) \<Rightarrow> create_temp ops temp s2)
          else create_temp ops temp s1)"

subsection \<open>The transfer\<close>

definition trim_partial_upload :: "('s, 'h) file_ops \<Rightarrow> 'h \<Rightarrow> 's \<Rightarrow> 's" where
  "trim_partial_upload ops h s =
     (if \<not> fo_can_truncate ops then s
      else
        (case fo_seek_current ops h s of
           (Inl _, s1) \<Rightarrow> s1
         | (Inr safe_len, s1) \<Rightarrow> snd (fo_truncate ops h safe_len s1)))"

definition transfer :: "('s, 'h) file_ops \<Rightarrow> local_file \<Rightarrow> 'h \<Rightarrow> int \<Rightarrow> 's \<Rightarrow> string option \<times> 's" where
  "transfer ops lf h off s =
     (case fo_transfer ops h (drop (nat off) (lf_data lf)) s of
        (None, s1) \<Rightarrow> (None, s1)
      | (Some e, s1) \<Rightarrow>
          (Some (''failed to copy file: '' @ e),
           if fo_reader_from ops then trim_partial_upload ops h s1 else s1))"



text \<open>Everything after the bytes have been sent.\<close>

definition verify_and_publish ::
  "('s, 'h) file_ops \<Rightarrow> sftp_client \<Rightarrow> local_file \<Rightarrow> string \<Rightarrow> string \<Rightarrow> 's \<Rightarrow> upload_result \<times> 's" where
  "verify_and_publish ops c lf temp remote_path s =
     (let failed = (\<lambda>e s'. (\<lparr>ul_error = Some e, ul_deleted = False\<rparr>, s')) in
      case fo_stat ops temp s of
        (Inl e, s1) \<Rightarrow> failed (''failed to stat temp remote file for verification: '' @ snd e) s1
      | (Inr n, s1) \<Rightarrow>
          if n \<noteq> lf_size lf
          then failed (''verification failed: size mismatch (local: '' @ itoa (lf_size lf)
                 @ '', remote: '' @ itoa n @ '')'') s1
          else
            let s2 = (if sc_overwrite c then snd (fo_remove ops remote_path s1) else s1) in
            (case fo_rename ops temp remote_path s2 of
               (Some e, s3) \<Rightarrow> failed (''failed to rename temp file to final destination: '' @ e) s3
             | (None, s3) \<Rightarrow>
                 (\<lparr>ul_error = None,
                   ul_deleted = sc_delete_after_verify c \<and> lf_remove_err lf = None\<rparr>, s3)))"

definition stat_missing :: "stat_error \<Rightarrow> bool" where
  "stat_missing e \<longleftrightarrow> fst e \<or> contains_str (snd e) ''file does not exist''"

text \<open>The check for an existing destination when overwriting is off.\<close>

definition overwrite_check ::
  "('s, 'h) file_ops \<Rightarrow> sftp_client \<Rightarrow> string \<Rightarrow> string \<Rightarrow> 's \<Rightarrow> string option \<times> 's" where
  "overwrite_check ops c file_name remote_path s =
     (if sc_overwrite c then (None, s)
      else
        (case fo_stat ops remote_path s of
           (Inr _, s1) \<Rightarrow> (Some (''remote file '' @ file_name @ '' already exists and overwrite is disabled''), s1)
         | (Inl e, s1) \<Rightarrow>
             if \<not> stat_missing e then (Some (''failed to check remote file existence: '' @ snd e), s1)
             else (None, s1)))"

definition upload_paths :: "sftp_client \<Rightarrow> string \<Rightarrow> string \<times> string" where
  "upload_paths c local_path =
     (let remote_path = path_join [path_clean (sc_remote_dir c), path_base local_path]
      in (remote_path, remote_path @ ''.tmp''))"

definition upload_file ::
  "('s, 'h) file_ops \<Rightarrow> sftp_client \<Rightarrow> local_file \<Rightarrow> string \<Rightarrow> 's \<Rightarrow> upload_result \<times> 's" where
  "upload_file ops c lf local_path s =
     (let failed = (\<lambda>e s'. (\<lparr>ul_error = Some e, ul_deleted = False\<rparr>, s'));
          (remote_path, temp) = upload_paths c local_path in
      case validate_remote_path c remote_path of
        Inl e \<Rightarrow> failed e s
      | Inr _ \<Rightarrow>
      (case overwrite_check ops c (path_base local_path) remote_path s of
        (Some e, s1) \<Rightarrow> failed e s1
      | (None, s1) \<Rightarrow>
      (case lf_open_err lf of
        Some e \<Rightarrow> failed (''failed to open local file: '' @ e) s1
      | None \<Rightarrow>
      (case lf_stat_err lf of
        Some e \<Rightarrow> failed (''failed to stat local file: '' @ e) s1
      | None \<Rightarrow>
      (case open_temp ops lf temp s1 of
        (Inl e, s2) \<Rightarrow> failed e s2
      | (Inr (h, off), s2) \<Rightarrow>
      (case transfer ops lf h off s2 of
        (Some e, s3) \<Rightarrow> failed e (snd (fo_close ops h s3))
      | (None, s3) \<Rightarrow>
      (case fo_close ops h s3 of
        (Some e, s4) \<Rightarrow> failed (''failed to close remote file: '' @ e) s4
      | (None, s4) \<Rightarrow> verify_and_publish ops c lf temp remote_path s4)))))))"

subsection \<open>Retries\<close>

text \<open>The backoff in nanoseconds; \<open>rnd\<close> is \<open>rand.Int63n\<close> of half the base delay.\<close>

function double_delay :: "int \<Rightarrow> int \<Rightarrow> int \<Rightarrow> int" where
  "double_delay i attempt delay =
     (if i < attempt \<and> delay < 5000000000 then double_delay (i + 1) attempt (delay * 2) else delay)"
  by pat_completeness auto

termination by (relation "measure (\<lambda>(i, attempt, delay). nat (attempt - i))") auto

declare double_delay.simps [simp del]

definition base_delay :: "int \<Rightarrow> int" where
  "base_delay attempt =
     (let delay = double_delay 1 attempt 100000000 in if delay > 5000000000 then 5000000000 else delay)"

definition retry_delay :: "(int \<Rightarrow> int) \<Rightarrow> int \<Rightarrow> int" where
  "retry_delay rnd attempt =
     (let delay = base_delay attempt in delay + (rnd (go_div delay 2) - go_div delay 4))"

text \<open>
  The retry loop: \<open>up\<close> is one attempt, \<open>stop k\<close> the context's error when it is done before the
  delay after attempt \<open>k\<close> has passed. The third argument counts the attempts that are left.
\<close>

fun retry_from ::
  "('s \<Rightarrow> string option \<times> 's) \<Rightarrow> (nat \<Rightarrow> string option) \<Rightarrow> nat \<Rightarrow> nat \<Rightarrow> string \<Rightarrow> 's \<Rightarrow> string option \<times> 's" where
  "retry_from up stop 0 attempt last_err s =
     (Some (''upload failed after '' @ format_uint (attempt - 1) @ '' attempts: '' @ last_err), s)"
| "retry_from up stop (Suc left) attempt last_err s =
     (case up s of
        (None, s1) \<Rightarrow> (None, s1)
      | (Some e, s1) \<Rightarrow>
          if left > 0 then
            (case stop attempt of
               Some c \<Rightarrow> (Some c, s1)
             | None \<Rightarrow> retry_from up stop left (Suc attempt) e s1)
          else retry_from up stop 0 (Suc attempt) e s1)"

definition upload_with_retry ::
  "('s \<Rightarrow> string option \<times> 's) \<Rightarrow> (nat \<Rightarrow> string option) \<Rightarrow> int \<Rightarrow> 's \<Rightarrow> string option \<times> 's" where
  "upload_with_retry up stop max_retries s =
     retry_from up stop (nat (if max_retries \<le> 0 then 1 else max_retries)) 1 [] s"

subsection \<open>Readers\<close>

text \<open>One \<open>Read\<close> through the context and the progress reader: bytes read and an error.\<close>

definition context_read :: "string option \<Rightarrow> int \<times> string option \<Rightarrow> int \<times> string option" where
  "context_read done r = (case done of Some e \<Rightarrow> (0, Some e) | None \<Rightarrow> r)"

definition progress_read :: "int \<times> string option \<Rightarrow> int \<times> int list \<Rightarrow> (int \<times> string option) \<times> int \<times> int list" where
  "progress_read r st =
     (case st of (total_bytes, calls) \<Rightarrow>
        if fst r > 0
        then (r, wrap64 (total_bytes + fst r), calls @ [wrap64 (total_bytes + fst r)])
        else (r, total_bytes, calls))"

definition upload_limiter :: "sftp_client \<Rightarrow> limiter option \<Rightarrow> limiter option" where
  "upload_limiter c l =
     (if l = None \<and> (sc_rate_limit_kbps c > 0 \<or> sc_max_latency_ms c > 0) then
        (let l0 = kbps_limit (sc_rate_limit_kbps c);
             limit = (if l0 = 0 \<and> sc_max_latency_ms c > 0 then 100 * 1024 * 1024 else l0);
             m0 = kbps_limit (sc_min_limit_kbps c);
             min_limit = (if m0 = 0 then 10240 else m0)
         in Some (new_limiter limit (real_of_int (limiter_burst limit)) min_limit
              (wrap64 (sc_max_latency_ms c * 1000000))))
      else l)"

lemma progress_reads:
  assumes "in64 (start + sum_list (map fst rs))" "\<forall>r\<in>set rs. 0 \<le> fst r" "0 \<le> start"
  shows "fst (fold (\<lambda>r st. snd (progress_read r st)) rs (start, calls)) = start + sum_list (map fst rs)"
  using assms
proof (induction rs arbitrary: start calls)
  case Nil
  then show ?case by simp
next
  case (Cons r rs)
  have "0 \<le> sum_list (map fst rs)"
    using Cons.prems(2) by (intro sum_list_nonneg) auto
  then have "in64 (start + fst r)"
    using Cons.prems by (auto simp: in64_def)
  then show ?case
    using Cons by (auto simp: progress_read_def add.assoc)
qed

subsection \<open>What any session guarantees\<close>

lemma publish_success:
  assumes "verify_and_publish ops c lf temp dest s = (res, s')" "ul_error res = None"
  shows "\<exists>s1 s2. fo_stat ops temp s = (Inr (lf_size lf), s1)
    \<and> s2 = (if sc_overwrite c then snd (fo_remove ops dest s1) else s1)
    \<and> fo_rename ops temp dest s2 = (None, s')
    \<and> (ul_deleted res \<longleftrightarrow> sc_delete_after_verify c \<and> lf_remove_err lf = None)"
  using assms by (auto simp: verify_and_publish_def Let_def split: prod.splits sum.splits if_splits option.splits)

lemma publish_deleted:
  "verify_and_publish ops c lf temp dest s = (res, s') \<Longrightarrow> ul_deleted res \<Longrightarrow> ul_error res = None"
  by (auto simp: verify_and_publish_def Let_def split: prod.splits sum.splits if_splits option.splits)

lemma upload_file_success:
  assumes "upload_file ops c lf local_path s = (res, s')" "ul_error res = None"
    and "upload_paths c local_path = (dest, temp)"
  obtains s1 s2 s3 s4 h off where "overwrite_check ops c (path_base local_path) dest s = (None, s1)"
    "open_temp ops lf temp s1 = (Inr (h, off), s2)" "transfer ops lf h off s2 = (None, s3)"
    "fo_close ops h s3 = (None, s4)" "verify_and_publish ops c lf temp dest s4 = (res, s')"
  using assms
  by (auto simp: upload_file_def Let_def split: prod.splits sum.splits option.splits)

lemma upload_file_deleted:
  "upload_file ops c lf local_path s = (res, s') \<Longrightarrow> ul_deleted res \<Longrightarrow> ul_error res = None"
  by (auto simp: upload_file_def Let_def dest: publish_deleted split: prod.splits sum.splits option.splits)

text \<open>
  C14. The local file is only deleted when asked for, and only after the server reported exactly
  its size for the temporary file and then renamed that file to its destination; the same holds
  for every upload that reports success. No assumption on the server is made.
\<close>

theorem delete_only_after_verify:
  assumes "upload_file ops c lf local_path s = (res, s')" "ul_deleted res \<or> ul_error res = None"
  shows "let (dest, temp) = upload_paths c local_path in
    \<exists>s1 s2 s3. fo_stat ops temp s1 = (Inr (lf_size lf), s2) \<and> fo_rename ops temp dest s3 = (None, s')
      \<and> (s3 = s2 \<or> sc_overwrite c \<and> s3 = snd (fo_remove ops dest s2))
      \<and> (ul_deleted res \<longrightarrow> sc_delete_after_verify c \<and> ul_error res = None)"
proof -
  obtain dest temp where paths: "upload_paths c local_path = (dest, temp)" by fastforce
  have ok: "ul_error res = None" using assms(2) upload_file_deleted [OF assms(1)] by blast
  obtain s4 where "verify_and_publish ops c lf temp dest s4 = (res, s')"
    by (rule upload_file_success [OF assms(1) ok paths])
  from publish_success [OF this ok] show ?thesis
    using ok unfolding paths by (auto split: if_splits)
qed

text \<open>
  With overwriting off an existing destination is never touched: the upload fails, the local
  file stays, and looking at the destination is the only thing the server is asked to do.
\<close>

theorem no_overwrite_no_touch:
  assumes "\<not> sc_overwrite c" "upload_paths c local_path = (dest, temp)"
    and "fo_stat ops dest s = (Inr n, s1)" "upload_file ops c lf local_path s = (res, s')"
  shows "ul_error res \<noteq> None \<and> \<not> ul_deleted res \<and> (s' = s1 \<or> s' = s)"
  using assms by (auto simp: upload_file_def overwrite_check_def Let_def split: sum.splits)

subsection \<open>What a conforming session guarantees\<close>

text \<open>
  The documented behaviour of the session that correctness relies on, over the files the server
  stores and the position of each handle: looking at a file or moving in it changes nothing,
  \<open>Create\<close> truncates, a successful transfer writes the bytes at the handle's position, a
  successful \<open>Rename\<close> moves the file, and nobody else changes the files meanwhile.
\<close>

definition stat_law :: "('s, 'h) file_ops \<Rightarrow> ('s \<Rightarrow> string \<Rightarrow> string option) \<Rightarrow> bool" where
  "stat_law ops files \<longleftrightarrow> (\<forall>p s r s'. fo_stat ops p s = (r, s') \<longrightarrow>
     files s' = files s \<and> (\<forall>n. r = Inr n \<longrightarrow> (\<exists>d. files s p = Some d \<and> n = int (length d))))"

definition create_law :: "('s, 'h) file_ops \<Rightarrow> ('s \<Rightarrow> string \<Rightarrow> string option) \<Rightarrow> ('s \<Rightarrow> 'h \<Rightarrow> string \<times> nat) \<Rightarrow> bool" where
  "create_law ops files pos \<longleftrightarrow> (\<forall>p s h s'. fo_create ops p s = (Inr h, s') \<longrightarrow>
     files s' = (files s)(p \<mapsto> []) \<and> pos s' h = (p, 0))"

definition open_law :: "('s, 'h) file_ops \<Rightarrow> ('s \<Rightarrow> string \<Rightarrow> string option) \<Rightarrow> ('s \<Rightarrow> 'h \<Rightarrow> string \<times> nat) \<Rightarrow> bool" where
  "open_law ops files pos \<longleftrightarrow> (\<forall>p s r s'. fo_open ops p s = (r, s') \<longrightarrow>
     files s' = files s \<and> (\<forall>h. r = Inr h \<longrightarrow> pos s' h = (p, 0)))"

definition read_law :: "('s, 'h) file_ops \<Rightarrow> ('s \<Rightarrow> string \<Rightarrow> string option) \<Rightarrow> ('s \<Rightarrow> 'h \<Rightarrow> string \<times> nat) \<Rightarrow> bool" where
  "read_law ops files pos \<longleftrightarrow> (\<forall>h n s r s'. fo_read_full ops h n s = (r, s') \<longrightarrow>
     files s' = files s \<and> fst (pos s' h) = fst (pos s h)
       \<and> (\<forall>b. r = Inr b \<longrightarrow> (\<exists>d. files s (fst (pos s h)) = Some d \<and> b = take n (drop (snd (pos s h)) d) \<and> length b = n)))"

definition seek_law :: "('s, 'h) file_ops \<Rightarrow> ('s \<Rightarrow> string \<Rightarrow> string option) \<Rightarrow> ('s \<Rightarrow> 'h \<Rightarrow> string \<times> nat) \<Rightarrow> bool" where
  "seek_law ops files pos \<longleftrightarrow> (\<forall>h s r s'. fo_seek_end ops h s = (r, s') \<longrightarrow>
     files s' = files s \<and> (\<forall>off. r = Inr off \<longrightarrow>
       (\<exists>d. files s (fst (pos s h)) = Some d \<and> off = int (length d) \<and> pos s' h = (fst (pos s h), length d))))"

definition transfer_law :: "('s, 'h) file_ops \<Rightarrow> ('s \<Rightarrow> string \<Rightarrow> string option) \<Rightarrow> ('s \<Rightarrow> 'h \<Rightarrow> string \<times> nat) \<Rightarrow> bool" where
  "transfer_law ops files pos \<longleftrightarrow> (\<forall>h data s s'. fo_transfer ops h data s = (None, s') \<longrightarrow>
     (\<exists>d. files s (fst (pos s h)) = Some d \<and> files s' = (files s)(fst (pos s h) \<mapsto>
       take (snd (pos s h)) d @ data @ drop (snd (pos s h) + length data) d)))"

definition close_law :: "('s, 'h) file_ops \<Rightarrow> ('s \<Rightarrow> string \<Rightarrow> string option) \<Rightarrow> bool" where
  "close_law ops files \<longleftrightarrow> (\<forall>h s r s'. fo_close ops h s = (r, s') \<longrightarrow>
     files s' = files s)"

definition remove_law :: "('s, 'h) file_ops \<Rightarrow> ('s \<Rightarrow> string \<Rightarrow> string option) \<Rightarrow> bool" where
  "remove_law ops files \<longleftrightarrow> (\<forall>p s r s'. fo_remove ops p s = (r, s') \<longrightarrow>
     files s' = files s \<or> files s' = (files s)(p := None))"

definition rename_law :: "('s, 'h) file_ops \<Rightarrow> ('s \<Rightarrow> string \<Rightarrow> string option) \<Rightarrow> bool" where
  "rename_law ops files \<longleftrightarrow> (\<forall>p q s s'. p \<noteq> q \<and> fo_rename ops p q s = (None, s') \<longrightarrow>
     files s p \<noteq> None \<and> files s' = (files s)(p := None, q := files s p))"

definition sftp_laws :: "('s, 'h) file_ops \<Rightarrow> ('s \<Rightarrow> string \<Rightarrow> string option) \<Rightarrow> ('s \<Rightarrow> 'h \<Rightarrow> string \<times> nat) \<Rightarrow> bool" where
  "sftp_laws ops files pos \<longleftrightarrow> stat_law ops files \<and> create_law ops files pos \<and> open_law ops files pos
     \<and> read_law ops files pos \<and> seek_law ops files pos \<and> transfer_law ops files pos
     \<and> close_law ops files \<and> remove_law ops files \<and> rename_law ops files"

lemma law_stat: "sftp_laws ops files pos \<Longrightarrow> fo_stat ops p s = (r, s') \<Longrightarrow>
     files s' = files s \<and> (\<forall>n. r = Inr n \<longrightarrow> (\<exists>d. files s p = Some d \<and> n = int (length d)))"
  by (simp add: sftp_laws_def stat_law_def)

lemma law_create: "sftp_laws ops files pos \<Longrightarrow> fo_create ops p s = (Inr h, s') \<Longrightarrow>
     files s' = (files s)(p \<mapsto> []) \<and> pos s' h = (p, 0)"
  by (simp add: sftp_laws_def create_law_def)

lemma law_open: "sftp_laws ops files pos \<Longrightarrow> fo_open ops p s = (r, s') \<Longrightarrow>
     files s' = files s \<and> (\<forall>h. r = Inr h \<longrightarrow> pos s' h = (p, 0))"
  by (simp add: sftp_laws_def open_law_def)

lemma law_read: "sftp_laws ops files pos \<Longrightarrow> fo_read_full ops h n s = (r, s') \<Longrightarrow>
     files s' = files s \<and> fst (pos s' h) = fst (pos s h)
       \<and> (\<forall>b. r = Inr b \<longrightarrow> (\<exists>d. files s (fst (pos s h)) = Some d \<and> b = take n (drop (snd (pos s h)) d) \<and> length b = n))"
  by (simp add: sftp_laws_def read_law_def)

lemma law_seek: "sftp_laws ops files pos \<Longrightarrow> fo_seek_end ops h s = (r, s') \<Longrightarrow>
     files s' = files s \<and> (\<forall>off. r = Inr off \<longrightarrow>
       (\<exists>d. files s (fst (pos s h)) = Some d \<and> off = int (length d) \<and> pos s' h = (fst (pos s h), length d)))"
  by (simp add: sftp_laws_def seek_law_def)

lemma law_transfer: "sftp_laws ops files pos \<Longrightarrow> fo_transfer ops h data s = (None, s') \<Longrightarrow>
     (\<exists>d. files s (fst (pos s h)) = Some d \<and> files s' = (files s)(fst (pos s h) \<mapsto>
       take (snd (pos s h)) d @ data @ drop (snd (pos s h) + length data) d))"
  by (simp add: sftp_laws_def transfer_law_def)

lemma law_close: "sftp_laws ops files pos \<Longrightarrow> fo_close ops h s = (r, s') \<Longrightarrow>
     files s' = files s"
  by (simp add: sftp_laws_def close_law_def)

lemma law_remove: "sftp_laws ops files pos \<Longrightarrow> fo_remove ops p s = (r, s') \<Longrightarrow>
     files s' = files s \<or> files s' = (files s)(p := None)"
  by (simp add: sftp_laws_def remove_law_def)

lemma law_rename: "sftp_laws ops files pos \<Longrightarrow> p \<noteq> q \<Longrightarrow> fo_rename ops p q s = (None, s') \<Longrightarrow>
     files s p \<noteq> None \<and> files s' = (files s)(p := None, q := files s p)"
  by (simp add: sftp_laws_def rename_law_def)

text \<open>Resuming continues an unchanged partial file whose first megabyte matches.\<close>

lemma resume_spec:
  assumes laws: "sftp_laws ops files pos" and run: "try_resume ops lf temp (int (length d)) s = (r, s')"
    and "files s temp = Some d" "length d < length (lf_data lf)"
  shows "files s' = files s \<and> (\<forall>h off. r = Some (h, off) \<longrightarrow> off = int (length d) \<and> pos s' h = (temp, length d)
    \<and> take (nat max_prefix) d = take (nat max_prefix) (take (length d) (lf_data lf)))"
proof -
  define n where "n = nat (if int (length d) > max_prefix then max_prefix else int (length d))"
  have n: "n = min (length d) (nat max_prefix)" by (simp add: n_def max_prefix_def)
  have close: "files (snd (fo_close ops h x)) = files x" for h x
    using law_close [OF laws] by (metis prod.collapse)
  obtain ro s1 where o: "fo_open ops temp s = (ro, s1)" by fastforce
  note f1 = law_open [OF laws o]
  show ?thesis
  proof (cases ro)
    case (Inl e)
    with o run f1 show ?thesis by (auto simp: try_resume_def)
  next
    case (Inr h)
    obtain rr s2 where rr: "fo_read_full ops h n s1 = (rr, s2)" by fastforce
    note f2 = law_read [OF laws rr]
    obtain rs s3 where rs: "fo_seek_end ops h s2 = (rs, s3)" by fastforce
    note f3 = law_seek [OF laws rs]
    have at1: "pos s1 h = (temp, 0)" using f1 Inr by simp
    have "files s' = files s" "r = Some (h', off) \<Longrightarrow> \<exists>b. rr = Inr b \<and> b = take n (lf_data lf) \<and> rs = Inr off \<and> h' = h \<and> s' = s3" for h' off
      using run o Inr rr rs f1 f2 f3 close
      by (auto simp: try_resume_def Let_def n_def [symmetric] split: sum.splits if_splits)
    moreover have "off = int (length d) \<and> pos s3 h = (temp, length d)
        \<and> take (nat max_prefix) d = take (nat max_prefix) (take (length d) (lf_data lf))"
      if "rr = Inr (take n (lf_data lf))" "rs = Inr off" for off
    proof -
      have "take n d = take n (lf_data lf)"
        using that(1) f1 f2 at1 assms(3) by auto
      then have "take (nat max_prefix) d = take (nat max_prefix) (take (length d) (lf_data lf))"
        by (cases "nat max_prefix \<le> length d") (auto simp: n min_def split: if_splits)
      moreover have "off = int (length d) \<and> pos s3 h = (temp, length d)"
        using that(2) f1 f2 f3 at1 assms(3) by auto
      ultimately show ?thesis by simp
    qed
    ultimately show ?thesis by blast
  qed
qed

lemma create_temp_spec:
  assumes "sftp_laws ops files pos" "create_temp ops temp s = (Inr (h, off), s')"
  shows "files s' = (files s)(temp \<mapsto> []) \<and> pos s' h = (temp, 0) \<and> off = 0"
  using assms(2) law_create [OF assms(1)] by (auto simp: create_temp_def split: prod.splits sum.splits)

text \<open>The content the transfer starts from: nothing, or a matching partial file.\<close>

lemma open_temp_spec:
  assumes laws: "sftp_laws ops files pos" and run: "open_temp ops lf temp s = (Inr (h, off), s')"
  shows "\<exists>d. files s' = (files s)(temp \<mapsto> d) \<and> pos s' h = (temp, length d) \<and> off = int (length d)
    \<and> length d \<le> length (lf_data lf)
    \<and> take (nat max_prefix) d = take (nat max_prefix) (take (length d) (lf_data lf))
    \<and> (d = [] \<or> files s temp = Some d)"
proof -
  obtain r s1 where r: "fo_stat ops temp s = (r, s1)" by fastforce
  note f1 = law_stat [OF laws r]
  have fresh: ?thesis if "create_temp ops temp x = (Inr (h, off), s')" "files x = files s" for x
    using create_temp_spec [OF laws that(1)] that(2) by (intro exI [of _ "[]"]) simp
  show ?thesis
  proof (cases "\<exists>n. r = Inr n \<and> n > 0 \<and> n < lf_size lf")
    case False
    then have "create_temp ops temp s1 = (Inr (h, off), s')"
      using run r by (auto simp: open_temp_def split: sum.splits if_splits)
    then show ?thesis using fresh f1 by blast
  next
    case True
    then obtain d where d: "r = Inr (int (length d))" "files s temp = Some d" "length d < length (lf_data lf)"
      "length d > 0"
      using f1 by auto
    obtain rr s2 where rr: "try_resume ops lf temp (int (length d)) s1 = (rr, s2)" by fastforce
    have t1: "files s1 temp = Some d" using f1 d by simp
    note f2 = resume_spec [OF laws rr t1 d(3)]
    show ?thesis
    proof (cases rr)
      case None
      then have "create_temp ops temp s2 = (Inr (h, off), s')"
        using run r d rr by (simp add: open_temp_def)
      then show ?thesis using fresh f1 f2 by simp
    next
      case (Some ho)
      then have "ho = (h, off)" "s2 = s'" using run r d rr by (simp_all add: open_temp_def)
      then show ?thesis
        using f1 f2 d Some by (intro exI [of _ d]) (auto simp: fun_upd_idem)
    qed
  qed
qed

lemma transfer_ok:
  "transfer ops lf h off s = (None, s') \<Longrightarrow> fo_transfer ops h (drop (nat off) (lf_data lf)) s = (None, s')"
  by (auto simp: transfer_def split: prod.splits option.splits)

lemma temp_differs: "upload_paths c local_path = (dest, temp) \<Longrightarrow> temp \<noteq> dest"
  by (auto simp: upload_paths_def Let_def)

text \<open>
  What success means: on a session that behaves as documented, an upload that reports
  success has left at the destination a file of exactly the local size that agrees with the
  local file on its first megabyte, and equals it completely when there was no partial file or
  the partial file was a prefix of the local one. The temporary file is gone and no other file
  changed.
\<close>

theorem upload_publishes_file:
  assumes laws: "sftp_laws ops files pos"
    and run: "upload_file ops c lf local_path s = (res, s')" "ul_error res = None"
    and paths: "upload_paths c local_path = (dest, temp)"
  shows "\<exists>x. files s' dest = Some x \<and> files s' temp = None
    \<and> (\<forall>p. p \<noteq> dest \<and> p \<noteq> temp \<longrightarrow> files s' p = files s p)
    \<and> length x = length (lf_data lf) \<and> take (nat max_prefix) x = take (nat max_prefix) (lf_data lf)
    \<and> ((\<forall>d. files s temp = Some d \<longrightarrow> prefix d (lf_data lf)) \<longrightarrow> x = lf_data lf)"
proof -
  let ?data = "lf_data lf" and ?P = "nat max_prefix"
  have differ: "temp \<noteq> dest" by (rule temp_differs [OF paths])
  obtain s1 s2 s3 s4 h off where st: "overwrite_check ops c (path_base local_path) dest s = (None, s1)"
    "open_temp ops lf temp s1 = (Inr (h, off), s2)" "transfer ops lf h off s2 = (None, s3)"
    "fo_close ops h s3 = (None, s4)" "verify_and_publish ops c lf temp dest s4 = (res, s')"
    by (rule upload_file_success [OF run paths])
  have f1: "files s1 = files s"
    using st(1) law_stat [OF laws] by (auto simp: overwrite_check_def split: if_splits prod.splits sum.splits)
  obtain d where d: "files s2 = (files s1)(temp \<mapsto> d)" "pos s2 h = (temp, length d)" "off = int (length d)"
    "length d \<le> length ?data" "take ?P d = take ?P (take (length d) ?data)" "d = [] \<or> files s1 temp = Some d"
    using open_temp_spec [OF laws st(2)] by blast
  let ?x = "d @ drop (length d) ?data"
  have f4: "files s4 = (files s)(temp \<mapsto> ?x)"
    using law_transfer [OF laws transfer_ok [OF st(3)]] law_close [OF laws st(4)] d f1 by auto
  obtain s5 s6 where v: "fo_stat ops temp s4 = (Inr (lf_size lf), s5)"
    "s6 = (if sc_overwrite c then snd (fo_remove ops dest s5) else s5)" "fo_rename ops temp dest s6 = (None, s')"
    using publish_success [OF st(5) run(2)] by blast
  have "files s5 = files s4" using law_stat [OF laws v(1)] by simp
  then have "files s6 = files s4 \<or> files s6 = (files s4)(dest := None)"
    using law_remove [OF laws, of dest s5 "fst (fo_remove ops dest s5)"] v(2) by (auto split: if_splits)
  then have f': "files s' dest = Some ?x" "files s' temp = None" "p \<noteq> dest \<and> p \<noteq> temp \<Longrightarrow> files s' p = files s p" for p
    using law_rename [OF laws differ v(3)] f4 differ by auto
  have start: "take ?P ?x = take ?P ?data"
  proof -
    have "take ?P (take (length d) ?data @ drop (length d) ?data) = take ?P ?x"
      using d(4,5) by (simp only: take_append) simp
    then show ?thesis by simp
  qed
  have whole: "?x = ?data" if "\<forall>d. files s temp = Some d \<longrightarrow> prefix d ?data"
    using that d(6) f1 by (auto simp: prefix_def)
  show ?thesis
    using f' start whole d(4) by (intro exI [of _ ?x]) simp
qed

subsection \<open>A small conforming server\<close>

text \<open>
  One handle, never failing except for missing files: enough to show that the laws can hold and
  to run the model.
\<close>

record small_server =
  sv_files :: "string \<Rightarrow> string option"
  sv_pos :: "string \<times> nat"

definition small_write :: "string \<Rightarrow> small_server \<Rightarrow> string option \<times> small_server" where
  "small_write data s =
     (case (sv_files s (fst (sv_pos s)), sv_pos s) of
        (Some d, (p, k)) \<Rightarrow> (None, s\<lparr>sv_files := (sv_files s)(p \<mapsto> take k d @ data @ drop (k + length data) d)\<rparr>)
      | _ \<Rightarrow> (Some ''invalid handle'', s))"

definition small_ops :: "(small_server, unit) file_ops" where
  "small_ops =
     \<lparr>fo_stat = (\<lambda>p s. (case sv_files s p of Some d \<Rightarrow> Inr (int (length d)) | None \<Rightarrow> Inl (True, ''file does not exist''), s)),
      fo_open = (\<lambda>p s. (Inr (), s\<lparr>sv_pos := (p, 0)\<rparr>)),
      fo_create = (\<lambda>p s. (Inr (), s\<lparr>sv_files := (sv_files s)(p \<mapsto> []), sv_pos := (p, 0)\<rparr>)),
      fo_read_full = (\<lambda>_ n s. (case sv_files s (fst (sv_pos s)) of
          Some d \<Rightarrow> (let b = take n (drop (snd (sv_pos s)) d) in
            if length b = n then Inr b else Inl ''unexpected EOF'') | None \<Rightarrow> Inl ''EOF'', s)),
      fo_seek_end = (\<lambda>_ s. case sv_files s (fst (sv_pos s)) of
          Some d \<Rightarrow> (Inr (int (length d)), s\<lparr>sv_pos := (fst (sv_pos s), length d)\<rparr>)
        | None \<Rightarrow> (Inl ''invalid handle'', s)),
      fo_seek_current = (\<lambda>_ s. (Inr (int (snd (sv_pos s))), s)),
      fo_truncate = (\<lambda>_ _ s. (None, s)),
      fo_transfer = (\<lambda>_ data s. small_write data s),
      fo_close = (\<lambda>_ s. (None, s)),
      fo_remove = (\<lambda>p s. (None, s\<lparr>sv_files := (sv_files s)(p := None)\<rparr>)),
      fo_rename = (\<lambda>p q s. case sv_files s p of
          Some d \<Rightarrow> (None, s\<lparr>sv_files := (sv_files s)(p := None, q \<mapsto> d)\<rparr>)
        | None \<Rightarrow> (Some ''file does not exist'', s)),
      fo_reader_from = True, fo_can_truncate = True\<rparr>"

lemma small_laws: "sftp_laws small_ops sv_files (\<lambda>s _. sv_pos s)"
  unfolding sftp_laws_def
proof (intro conjI)
  show "stat_law small_ops sv_files" "create_law small_ops sv_files (\<lambda>s _. sv_pos s)"
    "open_law small_ops sv_files (\<lambda>s _. sv_pos s)" "close_law small_ops sv_files"
    "remove_law small_ops sv_files" "seek_law small_ops sv_files (\<lambda>s _. sv_pos s)"
    by (auto simp: stat_law_def create_law_def open_law_def close_law_def remove_law_def seek_law_def
        small_ops_def split: option.splits)
  show "read_law small_ops sv_files (\<lambda>s _. sv_pos s)"
    by (auto simp: read_law_def small_ops_def Let_def split: option.splits if_splits)
  show "transfer_law small_ops sv_files (\<lambda>s _. sv_pos s)"
    by (auto simp: transfer_law_def small_ops_def small_write_def split: option.splits prod.splits)
  show "rename_law small_ops sv_files"
    by (auto simp: rename_law_def small_ops_def split: option.splits)
qed

definition plain_file :: "string \<Rightarrow> local_file" where
  "plain_file data = \<lparr>lf_open_err = None, lf_stat_err = None, lf_data = data, lf_seek_ok = (\<lambda>_. True),
     lf_read_ok = True, lf_remove_err = None\<rparr>"

definition deleting_client :: sftp_client where
  "deleting_client = (queue_client (zero_request\<lparr>ur_remote_dir := ''/up'', ur_delete_after_verify := True\<rparr>))
     \<lparr>sc_connected := True\<rparr>"

definition server_with :: "(string \<times> string) list \<Rightarrow> small_server" where
  "server_with fs = \<lparr>sv_files = map_of fs, sv_pos = ([], 0)\<rparr>"

lemma demo_paths: "upload_paths deleting_client ''/data/f'' = (''/up/f'', ''/up/f.tmp'')"
  by code_simp

theorem delete_only_after_verify_witness:
  "let (res, s') = upload_file small_ops deleting_client (plain_file ''abc'') ''/data/f'' (server_with [(''/up/f.tmp'', ''a'')])
   in ul_deleted res \<and> ul_error res = None \<and> sv_files s' ''/up/f'' = Some ''abc''
     \<and> (\<exists>s1 s2 s3. fo_stat small_ops ''/up/f.tmp'' s1 = (Inr 3, s2)
          \<and> fo_rename small_ops ''/up/f.tmp'' ''/up/f'' s3 = (None, s'))"
proof -
  let ?run = "upload_file small_ops deleting_client (plain_file ''abc'') ''/data/f'' (server_with [(''/up/f.tmp'', ''a'')])"
  have res: "ul_deleted (fst ?run) \<and> ul_error (fst ?run) = None \<and> sv_files (snd ?run) ''/up/f'' = Some ''abc''"
    by code_simp
  have run: "?run = (fst ?run, snd ?run)" by simp
  have "lf_size (plain_file ''abc'') = 3" by (simp add: plain_file_def)
  with delete_only_after_verify [OF run] res show ?thesis
    by (simp only: demo_paths Let_def split_beta fst_conv snd_conv) blast
qed

theorem no_overwrite_no_touch_witness:
  "let (res, s') = upload_file small_ops deleting_client (plain_file ''abc'') ''/data/f'' (server_with [(''/up/f'', ''old'')])
   in ul_error res \<noteq> None \<and> \<not> ul_deleted res \<and> s' = server_with [(''/up/f'', ''old'')]"
proof -
  let ?s = "server_with [(''/up/f'', ''old'')]"
  let ?run = "upload_file small_ops deleting_client (plain_file ''abc'') ''/data/f'' ?s"
  have over: "\<not> sc_overwrite deleting_client" by code_simp
  have stat: "fo_stat small_ops ''/up/f'' ?s = (Inr 3, ?s)"
    by (simp add: small_ops_def server_with_def)
  have run: "?run = (fst ?run, snd ?run)" by simp
  from no_overwrite_no_touch [OF over demo_paths stat run] show ?thesis
    by (simp only: Let_def split_beta) blast
qed

theorem upload_publishes_file_witness:
  "\<exists>x. sv_files (snd (upload_file small_ops deleting_client (plain_file ''abc'') ''/data/f''
      (server_with [(''/up/f.tmp'', ''ab'')]))) ''/up/f'' = Some x \<and> x = ''abc''"
proof -
  let ?s = "server_with [(''/up/f.tmp'', ''ab'')]"
  let ?run = "upload_file small_ops deleting_client (plain_file ''abc'') ''/data/f'' ?s"
  have ok: "ul_error (fst ?run) = None" by code_simp
  have run: "?run = (fst ?run, snd ?run)" by simp
  have stale: "\<forall>d. sv_files ?s ''/up/f.tmp'' = Some d \<longrightarrow> prefix d (lf_data (plain_file ''abc''))"
    by (simp add: server_with_def plain_file_def)
  from upload_publishes_file [OF small_laws run ok demo_paths] stale show ?thesis
    by (auto simp: plain_file_def)
qed

text \<open>
  C34. The verification is by size: a partial file that agrees with the local file on the first
  megabyte only (left by an earlier version of the file, say) is continued, the upload reports
  success, the local file is deleted as requested, and what remains on the server differs from
  it.
\<close>

theorem resume_can_corrupt:
  "\<exists>data stale. let (res, s') = upload_file small_ops deleting_client (plain_file data) ''/data/f''
        (server_with [(''/up/f.tmp'', stale)])
    in ul_error res = None \<and> ul_deleted res \<and> sv_files s' ''/up/f'' \<noteq> Some data"
proof -
  define xs where "xs = replicate (nat max_prefix) (CHR ''a'')"
  have len: "length xs = nat max_prefix" "int (length xs) = max_prefix" by (simp_all add: xs_def max_prefix_def)
  let ?data = "xs @ ''bc''" and ?stale = "xs @ ''x''"
  let ?s = "server_with [(''/up/f.tmp'', ?stale)]"
  let ?s1 = "?s\<lparr>sv_pos := (''/up/f.tmp'', length ?stale)\<rparr>"
  have valid: "validate_remote_path deleting_client ''/up/f'' = Inr ''/up/f''"
    "\<not> sc_overwrite deleting_client" "sc_delete_after_verify deleting_client" by code_simp+
  have check: "overwrite_check small_ops deleting_client (path_base ''/data/f'') ''/up/f'' ?s = (None, ?s)"
    using valid(2) by (simp add: overwrite_check_def small_ops_def server_with_def stat_missing_def)
  have "try_resume small_ops (plain_file ?data) ''/up/f.tmp'' (max_prefix + 1) ?s = (Some ((), max_prefix + 1), ?s1)"
    using len by (simp add: try_resume_def small_ops_def server_with_def plain_file_def Let_def)
  then have opened: "open_temp small_ops (plain_file ?data) ''/up/f.tmp'' ?s = (Inr ((), max_prefix + 1), ?s1)"
    using len by (simp add: open_temp_def server_with_def plain_file_def) (simp add: small_ops_def max_prefix_def)
  have plain: "lf_open_err (plain_file d) = None" "lf_stat_err (plain_file d) = None" for d
    by (simp_all add: plain_file_def)
  have closed: "fo_close small_ops u x = (None, x)" for u x by (simp add: small_ops_def)
  let ?s2 = "?s1\<lparr>sv_files := (sv_files ?s1)(''/up/f.tmp'' \<mapsto> xs @ ''xc'')\<rparr>"
  have "nat (max_prefix + 1) = Suc (length xs)" by (simp add: len max_prefix_def)
  then have sent: "transfer small_ops (plain_file ?data) () (max_prefix + 1) ?s1 = (None, ?s2)"
    by (simp add: transfer_def plain_file_def small_ops_def small_write_def server_with_def)
  have "verify_and_publish small_ops deleting_client (plain_file ?data) ''/up/f.tmp'' ''/up/f'' ?s2
      = (\<lparr>ul_error = None, ul_deleted = True\<rparr>, ?s2\<lparr>sv_files := (sv_files ?s2)(''/up/f.tmp'' := None, ''/up/f'' \<mapsto> xs @ ''xc'')\<rparr>)"
    using valid by (simp add: verify_and_publish_def small_ops_def plain_file_def Let_def)
  then have "upload_file small_ops deleting_client (plain_file ?data) ''/data/f'' ?s
      = (\<lparr>ul_error = None, ul_deleted = True\<rparr>, ?s2\<lparr>sv_files := (sv_files ?s2)(''/up/f.tmp'' := None, ''/up/f'' \<mapsto> xs @ ''xc'')\<rparr>)"
    by (simp only: upload_file_def demo_paths valid check opened sent plain closed Let_def
        prod.case sum.case option.case)
  then show ?thesis
    by (intro exI [of _ ?data] exI [of _ ?stale]) simp
qed

subsection \<open>Retrying\<close>

lemma double_delay_pow:
  assumes "i + int n = attempt" "delay > 0"
  shows "min 5000000000 (double_delay i attempt delay) = min 5000000000 (delay * 2 ^ n)
    \<and> delay \<le> double_delay i attempt delay"
  using assms
proof (induction n arbitrary: i delay)
  case 0
  then show ?case by (simp add: double_delay.simps)
next
  case (Suc n)
  show ?case
  proof (cases "delay < 5000000000")
    case True
    have "double_delay i attempt delay = double_delay (i + 1) attempt (delay * 2)"
      using Suc.prems True by (simp add: double_delay.simps [of i])
    then show ?thesis using Suc.IH [of "i + 1" "delay * 2"] Suc.prems by (simp add: algebra_simps)
  next
    case False
    have "(1 :: int) \<le> 2 ^ Suc n" by (rule one_le_power) simp
    then have "5000000000 * 1 \<le> delay * 2 ^ Suc n"
      using False by (intro mult_mono) simp_all
    then have "5000000000 \<le> delay * 2 ^ Suc n" by simp
    then show ?thesis using False by (simp add: double_delay.simps [of i])
  qed
qed

lemma base_delay_pow: "1 \<le> attempt \<Longrightarrow> base_delay attempt = min 5000000000 (100000000 * 2 ^ nat (attempt - 1))"
  using double_delay_pow [of 1 "nat (attempt - 1)" attempt 100000000]
  by (simp add: base_delay_def Let_def min_def split: if_splits)

text \<open>
  The backoff after attempt \<open>n\<close> is \<open>100 ms * 2 ^ (n - 1)\<close>, at most 5 s, with a jitter of at
  most a quarter either way; so no delay is shorter than 75 ms or reaches 6.25 s, and the 64-bit
  duration cannot overflow however many attempts were made.
\<close>

theorem retry_delay_bounds:
  assumes "1 \<le> attempt" "\<And>n. 0 < n \<Longrightarrow> 0 \<le> rnd n \<and> rnd n < n"
  shows "let base = min 5000000000 (100000000 * 2 ^ nat (attempt - 1)) in
    base - base div 4 \<le> retry_delay rnd attempt \<and> retry_delay rnd attempt < base + base div 4 + 2
    \<and> 75000000 \<le> retry_delay rnd attempt \<and> retry_delay rnd attempt < 6250000000"
proof -
  define base where "base = base_delay attempt"
  have pow: "base = min 5000000000 (100000000 * 2 ^ nat (attempt - 1))"
    by (simp add: base_def base_delay_pow [OF assms(1)])
  have "(100000000 :: int) * 1 \<le> 100000000 * 2 ^ nat (attempt - 1)"
    by (intro mult_left_mono) simp_all
  then have b: "100000000 \<le> base" "base \<le> 5000000000" by (simp_all add: pow)
  have r: "0 \<le> rnd (base div 2) \<and> rnd (base div 2) < base div 2"
    using b by (intro assms(2)) simp
  have d: "retry_delay rnd attempt = base + (rnd (base div 2) - base div 4)"
    using b by (simp add: retry_delay_def base_def [symmetric] Let_def go_div_nonneg)
  show ?thesis
    unfolding Let_def pow [symmetric] d using r b by linarith
qed

theorem retry_delay_bounds_witness:
  "75000000 \<le> retry_delay (\<lambda>n. n - 1) 1000 \<and> retry_delay (\<lambda>n. n - 1) 1000 < 6250000000"
  using retry_delay_bounds [of 1000 "\<lambda>n. n - 1"] by (simp add: Let_def)

text \<open>The state after \<open>k\<close> attempts.\<close>

definition attempts :: "('s \<Rightarrow> string option \<times> 's) \<Rightarrow> nat \<Rightarrow> 's \<Rightarrow> 's" where
  "attempts up k s = ((\<lambda>x. snd (up x)) ^^ k) s"

lemma attempts_Suc: "attempts up (Suc k) s = attempts up k (snd (up s))"
  by (simp add: attempts_def funpow_Suc_right del: funpow.simps)

lemma retry_from_spec:
  "0 < left \<Longrightarrow> \<exists>k. 1 \<le> k \<and> k \<le> left \<and> snd (retry_from up stop left n e s) = attempts up k s
     \<and> (\<forall>j<k - 1. fst (up (attempts up j s)) \<noteq> None)
     \<and> (fst (retry_from up stop left n e s) = None \<longleftrightarrow> fst (up (attempts up (k - 1) s)) = None)
     \<and> (fst (retry_from up stop left n e s) \<noteq> None \<longrightarrow> k = left \<or> (\<exists>c. stop (n + k - 1) = Some c))"
proof (induction left arbitrary: n e s)
  case 0
  then show ?case by simp
next
  case (Suc left)
  obtain r s1 where u: "up s = (r, s1)" by fastforce
  have one: "attempts up (Suc 0) s = s1" "attempts up 0 s = s" by (simp_all add: attempts_def u)
  show ?case
  proof (cases "\<exists>x. r = Some x \<and> left > 0 \<and> stop n = None")
    case False
    then consider "r = None" | x where "r = Some x" "left = 0" | x c where "r = Some x" "left > 0" "stop n = Some c"
      by (cases r; cases "stop n"; auto)
    then have "snd (retry_from up stop (Suc left) n e s) = s1
      \<and> (fst (retry_from up stop (Suc left) n e s) = None \<longleftrightarrow> r = None)
      \<and> (r \<noteq> None \<longrightarrow> left = 0 \<or> (\<exists>c. stop n = Some c))"
      by cases (simp_all add: u)
    then show ?thesis
      unfolding One_nat_def using u one by (intro exI [of _ "Suc 0"]) auto
  next
    case True
    then obtain x where x: "r = Some x" "left > 0" "stop n = None" by blast
    then have run: "retry_from up stop (Suc left) n e s = retry_from up stop left (Suc n) x s1"
      by (simp add: u)
    obtain k where k: "1 \<le> k" "k \<le> left" "snd (retry_from up stop left (Suc n) x s1) = attempts up k s1"
      "\<forall>j<k - 1. fst (up (attempts up j s1)) \<noteq> None"
      "fst (retry_from up stop left (Suc n) x s1) = None \<longleftrightarrow> fst (up (attempts up (k - 1) s1)) = None"
      "fst (retry_from up stop left (Suc n) x s1) \<noteq> None \<longrightarrow> k = left \<or> (\<exists>c. stop (Suc n + k - 1) = Some c)"
      using Suc.IH [OF x(2), of "Suc n" x s1] by (elim exE conjE) (rule that)
    have shift: "attempts up (Suc j) s = attempts up j s1" for j by (simp add: attempts_Suc u)
    have "fst (up (attempts up j s)) \<noteq> None" if "j < k" for j
    proof (cases j)
      case 0
      then show ?thesis using one u x by simp
    next
      case (Suc i)
      then show ?thesis using k(4) that by (simp add: shift)
    qed
    moreover have "attempts up k s = attempts up (k - 1) s1"
      using k(1) shift [of "k - 1"] by simp
    ultimately show ?thesis
      unfolding run using k(1-3,5,6) shift [of k] by (intro exI [of _ "Suc k"] conjI) (simp_all add: less_Suc_eq_le)
  qed
qed


definition flaky :: "nat \<Rightarrow> string option \<times> nat" where
  "flaky n = (if n < 2 then Some ''reset by peer'' else None, Suc n)"


end
