(* ===== verification/Go_Net.thy ===== *)
theory Go_Net
  imports Base64_Codec
begin

text \<open>
  The part of Go's \<open>net\<close> package the program calls: \<open>SplitHostPort\<close>, \<open>JoinHostPort\<close>, \<open>ParseIP\<close>
  and the classification of addresses. An address is its 16 bytes; an IPv4 address is mapped to
  \<open>::ffff:a.b.c.d\<close>, as \<open>ParseIP\<close> does.
\<close>

subsection \<open>Host and port\<close>

fun last_index :: "char \<Rightarrow> string \<Rightarrow> nat option" where
  "last_index c [] = None"
| "last_index c (x # xs) =
     (case last_index c xs of Some i \<Rightarrow> Some (Suc i) | None \<Rightarrow> if x = c then Some 0 else None)"

text \<open>The host that \<open>net.SplitHostPort\<close> returns, or None when it reports an error.\<close>

definition split_host_port :: "string \<Rightarrow> string option" where
  "split_host_port s =
     (case last_index (CHR '':'') s of
        None \<Rightarrow> None
      | Some i \<Rightarrow>
          let brackets_ok = (\<lambda>j k. CHR ''['' \<notin> set (drop j s) \<and> CHR '']'' \<notin> set (drop k s)) in
          if has_prefix s ''['' then
            (case index_of (CHR '']'') s of
               None \<Rightarrow> None
             | Some e \<Rightarrow>
                 if e + 1 = length s \<or> e + 1 \<noteq> i then None
                 else if brackets_ok 1 (e + 1) then Some (take (e - 1) (drop 1 s)) else None)
          else
            let host = take i s in
            if CHR '':'' \<in> set host \<or> \<not> brackets_ok 0 0 then None else Some host)"

definition join_host_port :: "string \<Rightarrow> string \<Rightarrow> string" where
  "join_host_port host port =
     (if CHR '':'' \<in> set host then ''['' @ host @ '']:'' @ port else host @ '':'' @ port)"

subsection \<open>IP addresses\<close>

type_synonym ip_addr = "int list"

fun octet_loop :: "int \<Rightarrow> string \<Rightarrow> int option" where
  "octet_loop v [] = Some v"
| "octet_loop v (c # cs) =
     (let d = (of_char c :: int) - 48 in
      if d < 0 \<or> d > 9 \<or> v * 10 + d > 255 then None else octet_loop (v * 10 + d) cs)"

definition parse_octet :: "string \<Rightarrow> int option" where
  "parse_octet s =
     (if s = [] \<or> (tl s \<noteq> [] \<and> hd s = CHR ''0'') then None else octet_loop 0 s)"

definition parse_v4 :: "string \<Rightarrow> int list option" where
  "parse_v4 s = (let fs = split_on (CHR ''.'') s in if length fs = 4 then those (map parse_octet fs) else None)"

definition hex_digit :: "char \<Rightarrow> int option" where
  "hex_digit c = (let n = of_char c :: int in
     if 48 \<le> n \<and> n \<le> 57 then Some (n - 48)
     else if 97 \<le> n \<and> n \<le> 102 then Some (n - 87)
     else if 65 \<le> n \<and> n \<le> 70 then Some (n - 55) else None)"

definition hex_value :: "string \<Rightarrow> int" where
  "hex_value s = foldl (\<lambda>n c. n * 16 + (case hex_digit c of None \<Rightarrow> 0 | Some d \<Rightarrow> d)) 0 s"

text \<open>The groups of an IPv6 address: the bytes so far, where the \<open>::\<close> stood, and the rest.\<close>

function v6_loop :: "int list \<Rightarrow> nat option \<Rightarrow> string \<Rightarrow> (int list \<times> nat option \<times> string) option" where
  "v6_loop ip dots s =
     (if length ip \<ge> 16 then Some (ip, dots, s)
      else
        let h = takeWhile (\<lambda>c. hex_digit c \<noteq> None) s; rest = dropWhile (\<lambda>c. hex_digit c \<noteq> None) s in
        if h = [] \<or> length h > 4 then None
        else if rest \<noteq> [] \<and> hd rest = CHR ''.'' then
          (if dots = None \<and> length ip \<noteq> 12 \<or> length ip + 4 > 16 then None
           else map_option (\<lambda>b. (ip @ b, dots, [])) (parse_v4 s))
        else
          let v = hex_value h; ip' = ip @ [v div 256, v mod 256] in
          if rest = [] then Some (ip', dots, [])
          else if hd rest \<noteq> CHR '':'' \<or> tl rest = [] then None
          else if hd (tl rest) = CHR '':'' then
            (if dots \<noteq> None then None
             else if tl (tl rest) = [] then Some (ip', Some (length ip'), [])
             else v6_loop ip' (Some (length ip')) (tl (tl rest)))
          else v6_loop ip' dots (tl rest))"
  by pat_completeness auto
termination
  by (relation "measure (\<lambda>(ip, dots, s). 16 - length ip)") auto

declare v6_loop.simps [simp del]

definition parse_v6 :: "string \<Rightarrow> ip_addr option" where
  "parse_v6 s =
     (let (dots0, s1) = (if has_prefix s ''::'' then (Some 0, drop 2 s) else (None, s)) in
      if dots0 \<noteq> None \<and> s1 = [] then Some (replicate 16 0)
      else
        (case v6_loop [] dots0 s1 of
           None \<Rightarrow> None
         | Some (ip, dots, rest) \<Rightarrow>
             if rest \<noteq> [] then None
             else if length ip < 16 then
               (case dots of
                  None \<Rightarrow> None
                | Some e \<Rightarrow> Some (take e ip @ replicate (16 - length ip) 0 @ drop e ip))
             else if dots \<noteq> None then None else Some ip))"

definition v4_prefix :: "int list" where
  "v4_prefix = replicate 10 0 @ [255, 255]"

text \<open>The first of \<open>.\<close>, \<open>:\<close> and \<open>%\<close> decides the form; an address with a zone is not accepted.\<close>

definition parse_ip :: "string \<Rightarrow> ip_addr option" where
  "parse_ip s =
     (case find (\<lambda>c. c = CHR ''.'' \<or> c = CHR '':'' \<or> c = CHR ''%'') s of
        None \<Rightarrow> None
      | Some c \<Rightarrow>
          if c = CHR ''.'' then map_option (\<lambda>b. v4_prefix @ b) (parse_v4 s)
          else if c = CHR '':'' then (if CHR ''%'' \<in> set s then None else parse_v6 s)
          else None)"

definition to4 :: "ip_addr \<Rightarrow> int list option" where
  "to4 ip = (if take 12 ip = v4_prefix then Some (drop 12 ip) else None)"

definition ip_unspecified :: "ip_addr \<Rightarrow> bool" where
  "ip_unspecified ip \<longleftrightarrow> ip = replicate 16 0 \<or> to4 ip = Some [0, 0, 0, 0]"

definition ip_multicast :: "ip_addr \<Rightarrow> bool" where
  "ip_multicast ip \<longleftrightarrow> (case to4 ip of Some b \<Rightarrow> b ! 0 div 16 = 14 | None \<Rightarrow> ip ! 0 = 255)"

definition ip_link_local_unicast :: "ip_addr \<Rightarrow> bool" where
  "ip_link_local_unicast ip \<longleftrightarrow>
     (case to4 ip of
        Some b \<Rightarrow> b ! 0 = 169 \<and> b ! 1 = 254
      | None \<Rightarrow> ip ! 0 = 254 \<and> ip ! 1 div 64 = 2)"

definition ip_link_local_multicast :: "ip_addr \<Rightarrow> bool" where
  "ip_link_local_multicast ip \<longleftrightarrow>
     (case to4 ip of
        Some b \<Rightarrow> b ! 0 = 224 \<and> b ! 1 = 0 \<and> b ! 2 = 0
      | None \<Rightarrow> ip ! 0 = 255 \<and> ip ! 1 mod 16 = 2)"

lemma to4_v4 [simp]: "to4 (v4_prefix @ b) = Some b"
  by (simp add: to4_def v4_prefix_def)

end
