(* ===== verification/Sessions.thy ===== *)
theory Sessions
  imports Go_Net Models
begin

text \<open>
  Logging in (\<open>internal/api/server.go\<close>): the session table, the rate limiter of \<open>/api/login\<close>, the
  address it counts by, the login and logout handlers and the check in front of every other
  route. Each locked region is one function; the login handler passes through up to four of
  them, and \<open>login\<close> is what one request does when no other runs in between.

  Instants are nanoseconds; the zero time of Go is the start of year 1. Every call of
  \<open>time.Now\<close> is a separate argument. Cookies, JSON and \<open>subtle.ConstantTimeCompare\<close> are the
  values they denote.
\<close>

subsection \<open>Time\<close>

definition zero_time :: instant where
  "zero_time = - 62135596800000000000"

text \<open>\<open>Time.Sub\<close> saturates at the ends of the 64-bit range.\<close>

definition time_sub :: "instant \<Rightarrow> instant \<Rightarrow> duration" where
  "time_sub a b = max (- (2 ^ 63)) (min (2 ^ 63 - 1) (a - b))"

definition minutes :: "int \<Rightarrow> duration" where
  "minutes n = n * 60000000000"

subsection \<open>Sessions\<close>

type_synonym session_table = "(string, instant) go_map"

definition session_ttl :: duration where
  "session_ttl = 7 * 24 * minutes 60"

definition max_sessions :: nat where
  "max_sessions = 1000"

text \<open>The two locked regions of \<open>validSession\<close>: the look-up and the removal of an expired entry.\<close>

definition session_live :: "instant \<Rightarrow> string \<Rightarrow> session_table \<Rightarrow> bool" where
  "session_live now tok m = (case go_get m tok of None \<Rightarrow> False | Some expiry \<Rightarrow> now < expiry)"

definition drop_expired :: "instant \<Rightarrow> string \<Rightarrow> session_table \<Rightarrow> session_table" where
  "drop_expired now tok m =
     (case go_get m tok of None \<Rightarrow> m | Some expiry \<Rightarrow> if \<not> now < expiry then go_del tok m else m)"

definition valid_session :: "instant \<Rightarrow> instant \<Rightarrow> string \<Rightarrow> session_table \<Rightarrow> bool \<times> session_table" where
  "valid_session now1 now2 tok m =
     (case go_get m tok of
        None \<Rightarrow> (False, m)
      | Some expiry \<Rightarrow> if now1 < expiry then (True, m) else (False, drop_expired now2 tok m))"

text \<open>The scan for the entry closest to expiring, in the order the map is visited.\<close>

fun oldest_session :: "session_table \<Rightarrow> string list \<Rightarrow> string \<Rightarrow> instant \<Rightarrow> string" where
  "oldest_session m [] oldest oldest_expiry = oldest"
| "oldest_session m (t # ts) oldest oldest_expiry =
     (case go_get m t of
        None \<Rightarrow> oldest_session m ts oldest oldest_expiry
      | Some expiry \<Rightarrow>
          if oldest = [] \<or> expiry < oldest_expiry then oldest_session m ts t expiry
          else oldest_session m ts oldest oldest_expiry)"

definition session_room :: "instant \<times> string list \<Rightarrow> session_table \<Rightarrow> session_table" where
  "session_room env m =
     (case env of (now, ord) \<Rightarrow>
        let m1 = (if length m \<ge> max_sessions then filter (\<lambda>(t, expiry). now < expiry) m else m)
        in if length m1 \<ge> max_sessions
           then go_del (oldest_session m1 (range_keys ord m1) [] zero_time) m1 else m1)"

definition add_session :: "instant \<Rightarrow> string list \<Rightarrow> string \<Rightarrow> session_table \<Rightarrow> session_table" where
  "add_session now ord tok m = go_put tok (now + session_ttl) (session_room (now, ord) m)"

subsection \<open>The address of a client\<close>

definition client_ip :: "string \<Rightarrow> string list \<Rightarrow> bool \<Rightarrow> string" where
  "client_ip remote_addr forwarded_for trust_proxy =
     (let ip = (case split_host_port remote_addr of None \<Rightarrow> remote_addr | Some h \<Rightarrow> h) in
      if \<not> trust_proxy then ip
      else if forwarded_for = [] then ip
      else
        let parts = split_on (CHR '','') (last forwarded_for);
            final = trim_space (last parts)
        in if final \<noteq> [] then final else ip)"

subsection \<open>The login limiter\<close>

record login_attempt =
  la_count :: int
  la_blocked_until :: instant
  la_last_attempt :: instant

definition new_attempt :: login_attempt where
  "new_attempt = \<lparr>la_count = 0, la_blocked_until = zero_time, la_last_attempt = zero_time\<rparr>"

definition max_login_attempts :: int where "max_login_attempts = 5"
definition login_block_duration :: duration where "login_block_duration = minutes 15"
definition max_limiter_entries :: nat where "max_limiter_entries = 1000"
definition limiter_idle_timeout :: duration where "limiter_idle_timeout = minutes 15"
definition max_global_login_failures :: int where "max_global_login_failures = 100"
definition global_login_failure_window :: duration where "global_login_failure_window = minutes 15"

record auth_state =
  au_sessions :: session_table
  au_attempts :: "(string, login_attempt) go_map"
  au_failures :: int
  au_window_start :: instant

definition initial_auth :: auth_state where
  "initial_auth = \<lparr>au_sessions = [], au_attempts = [], au_failures = 0, au_window_start = zero_time\<rparr>"

definition global_login_blocked :: "instant \<Rightarrow> auth_state \<Rightarrow> bool \<times> auth_state" where
  "global_login_blocked now st =
     (let st' = (if time_sub now (au_window_start st) > global_login_failure_window
                 then st\<lparr>au_failures := 0, au_window_start := now\<rparr> else st)
      in (au_failures st' \<ge> max_global_login_failures, st'))"

definition attempts_room ::
  "instant \<times> string list \<Rightarrow> (string, login_attempt) go_map \<Rightarrow> (string, login_attempt) go_map" where
  "attempts_room env m =
     (case env of (now, ord) \<Rightarrow>
        if length m < max_limiter_entries then m
        else
          let m1 = filter (\<lambda>(k, v). \<not> (now > la_blocked_until v
                     \<and> time_sub now (la_last_attempt v) > limiter_idle_timeout)) m
          in if length m1 \<ge> max_limiter_entries
             then (case range_keys ord m1 of [] \<Rightarrow> m1 | k # _ \<Rightarrow> go_del k m1) else m1)"

text \<open>
  What one request meets: the instants of its calls of \<open>time.Now\<close> in order, the orders in which
  its loops visit the tables, and the token the random generator gives.
\<close>

record login_env =
  ln_clock :: "nat \<Rightarrow> instant"
  ln_order :: "nat \<Rightarrow> string list"
  ln_token :: "string option"

definition find_attempt ::
  "instant \<Rightarrow> string list \<Rightarrow> string \<Rightarrow> auth_state \<Rightarrow> login_attempt \<times> auth_state" where
  "find_attempt now ord ip st =
     (case go_get (au_attempts st) ip of
        Some a \<Rightarrow> (a, st)
      | None \<Rightarrow> (new_attempt, st\<lparr>au_attempts := go_put ip new_attempt (attempts_room (now, ord) (au_attempts st))\<rparr>))"

definition put_attempt :: "string \<Rightarrow> login_attempt \<Rightarrow> auth_state \<Rightarrow> auth_state" where
  "put_attempt ip a st = st\<lparr>au_attempts := go_put ip a (au_attempts st)\<rparr>"

text \<open>The first locked region: is this address, or everyone, blocked?\<close>

definition login_begin :: "login_env \<Rightarrow> string \<Rightarrow> auth_state \<Rightarrow> bool \<times> auth_state" where
  "login_begin e ip st =
     (let (a, st1) = find_attempt (ln_clock e 0) (ln_order e 0) ip st;
          a1 = a\<lparr>la_last_attempt := ln_clock e 1\<rparr>;
          st2 = put_attempt ip a1 st1
      in if ln_clock e 2 < la_blocked_until a1 then (True, st2)
         else global_login_blocked (ln_clock e 3) st2)"

text \<open>The region after a wrong password.\<close>

definition count_failure :: "login_env \<Rightarrow> login_attempt \<Rightarrow> login_attempt" where
  "count_failure e a =
     (let a1 = (if ln_clock e 5 > la_blocked_until a \<and> la_count a \<ge> max_login_attempts
                then a\<lparr>la_count := 0\<rparr> else a);
          a2 = a1\<lparr>la_count := la_count a1 + 1, la_last_attempt := ln_clock e 6\<rparr>
      in if la_count a2 \<ge> max_login_attempts
         then a2\<lparr>la_blocked_until := ln_clock e 7 + login_block_duration\<rparr> else a2)"

definition login_fail :: "login_env \<Rightarrow> string \<Rightarrow> auth_state \<Rightarrow> auth_state" where
  "login_fail e ip st =
     (let (a, st1) = find_attempt (ln_clock e 4) (ln_order e 1) ip st;
          (blocked, st2) = global_login_blocked (ln_clock e 8) (put_attempt ip (count_failure e a) st1)
      in if \<not> blocked then st2\<lparr>au_failures := au_failures st2 + 1\<rparr> else st2)"

text \<open>The regions after the right password.\<close>

definition login_succeed :: "login_env \<Rightarrow> string \<Rightarrow> auth_state \<Rightarrow> string option \<times> auth_state" where
  "login_succeed e ip st =
     (let st1 = st\<lparr>au_attempts := go_del ip (au_attempts st)\<rparr> in
      case ln_token e of
        None \<Rightarrow> (None, st1)
      | Some tok \<Rightarrow> (Some tok, st1\<lparr>au_sessions := add_session (ln_clock e 9) (ln_order e 2) tok (au_sessions st1)\<rparr>))"

datatype login_reply = LoginOpen | LoginBadRequest | LoginBlocked | LoginWrong | LoginFailed | LoginOk string

definition login_finish ::
  "string \<Rightarrow> login_env \<Rightarrow> string \<Rightarrow> string \<Rightarrow> auth_state \<Rightarrow> login_reply \<times> auth_state" where
  "login_finish auth_password e ip password st =
     (if password \<noteq> auth_password then (LoginWrong, login_fail e ip st)
      else (case login_succeed e ip st of
          (None, st') \<Rightarrow> (LoginFailed, st')
        | (Some tok, st') \<Rightarrow> (LoginOk tok, st')))"

definition login ::
  "string \<Rightarrow> login_env \<Rightarrow> string \<Rightarrow> string option \<Rightarrow> auth_state \<Rightarrow> login_reply \<times> auth_state" where
  "login auth_password e ip body st =
     (if auth_password = [] then (LoginOpen, st)
      else
        (case body of
           None \<Rightarrow> (LoginBadRequest, st)
         | Some password \<Rightarrow>
             let (blocked, st1) = login_begin e ip st in
             if blocked then (LoginBlocked, st1) else login_finish auth_password e ip password st1))"

definition is_secure_request :: "bool \<Rightarrow> bool \<Rightarrow> string \<Rightarrow> bool" where
  "is_secure_request tls trust_proxy proto \<longleftrightarrow> tls \<or> trust_proxy \<and> to_lower proto = ''https''"

subsection \<open>Logging out and the check in front of the routes\<close>

text \<open>The method and the session cookie of a request; the reply is its status.\<close>

definition logout :: "string \<Rightarrow> string option \<Rightarrow> session_table \<Rightarrow> nat \<times> session_table" where
  "logout meth cookie m =
     (if meth \<noteq> ''POST'' then (405, m)
      else (200, case cookie of None \<Rightarrow> m | Some tok \<Rightarrow> go_del tok m))"

definition with_auth ::
  "string \<Rightarrow> instant \<Rightarrow> instant \<Rightarrow> string option \<Rightarrow> session_table \<Rightarrow> bool \<times> session_table" where
  "with_auth auth_password now1 now2 cookie m =
     (if auth_password = [] then (True, m)
      else (case cookie of None \<Rightarrow> (False, m) | Some tok \<Rightarrow> valid_session now1 now2 tok m))"

text \<open>The page that \<open>/\<close> serves.\<close>

definition index_page ::
  "string \<Rightarrow> instant \<Rightarrow> instant \<Rightarrow> string option \<Rightarrow> session_table \<Rightarrow> string \<times> session_table" where
  "index_page auth_password now1 now2 cookie m =
     (case with_auth auth_password now1 now2 cookie m of
        (ok, m') \<Rightarrow> (if ok then ''static/index.html'' else ''static/login.html'', m'))"

subsection \<open>The tables stay bounded\<close>

lemma covers_filter: "covers ord m \<Longrightarrow> covers ord (filter P m)"
  by (auto simp: covers_def)

lemma oldest_session_mem:
  "oldest_session m ts o1 e1 \<in> set ts \<or> oldest_session m ts o1 e1 = o1"
  by (induction ts arbitrary: o1 e1) (auto split: option.splits)

lemma oldest_session_key:
  assumes "\<forall>t\<in>set ts. go_get m t \<noteq> None" "ts \<noteq> []"
  shows "oldest_session m ts [] e1 \<in> set ts"
  using assms
proof (cases ts)
  case (Cons t rest)
  then obtain e where "go_get m t = Some e" using assms by auto
  with Cons show ?thesis using oldest_session_mem [of m rest t e] by auto
qed simp

text \<open>The entry found expires first.\<close>

lemma oldest_session_min:
  assumes "\<forall>t\<in>set ts. t \<noteq> [] \<and> go_get m t \<noteq> None" "o1 \<noteq> [] \<longrightarrow> go_get m o1 = Some e1"
    "ts \<noteq> [] \<or> o1 \<noteq> []"
  shows "\<exists>e. go_get m (oldest_session m ts o1 e1) = Some e
    \<and> (\<forall>t\<in>set ts \<union> (if o1 = [] then {} else {o1}). \<forall>x. go_get m t = Some x \<longrightarrow> e \<le> x)"
  using assms
proof (induction ts arbitrary: o1 e1)
  case Nil
  then show ?case by auto
next
  case (Cons t ts)
  then obtain x where x: "go_get m t = Some x" "t \<noteq> []" by auto
  show ?case
  proof (cases "o1 = [] \<or> x < e1")
    case True
    have "\<exists>e. go_get m (oldest_session m ts t x) = Some e
      \<and> (\<forall>u\<in>set ts \<union> (if t = [] then {} else {t}). \<forall>y. go_get m u = Some y \<longrightarrow> e \<le> y)"
      using Cons.prems x by (intro Cons.IH) auto
    then show ?thesis using True x Cons.prems(2) by (fastforce split: if_splits)
  next
    case False
    have "\<exists>e. go_get m (oldest_session m ts o1 e1) = Some e
      \<and> (\<forall>u\<in>set ts \<union> (if o1 = [] then {} else {o1}). \<forall>y. go_get m u = Some y \<longrightarrow> e \<le> y)"
      using Cons.prems False by (intro Cons.IH) auto
    then show ?thesis using False x Cons.prems(2) by (fastforce split: if_splits)
  qed
qed

definition session_env_ok :: "instant \<times> string list \<Rightarrow> session_table \<Rightarrow> bool" where
  "session_env_ok env m = covers (snd env) m"

lemma range_keys_get: "t \<in> set (range_keys ord m) \<Longrightarrow> go_get m t \<noteq> None"
  by (simp add: range_keys_def)

lemma del_first_less:
  assumes "covers ord m" "m \<noteq> []"
  obtains k ks where "range_keys ord m = k # ks" "length (go_del k m) < length m"
proof -
  obtain k ks where k: "range_keys ord m = k # ks"
    using range_keys_Nil [OF assms(1)] assms(2) by (cases "range_keys ord m") auto
  then have "k \<in> fst ` set m" using range_keys_sub [of ord m] by auto
  then show thesis by (rule that [OF k length_del_less])
qed

lemma session_room_form:
  "\<exists>P k. session_room e m = filter P m \<or> session_room e m = go_del k (filter P m)"
proof -
  obtain now ord where e: "e = (now, ord)" by (cases e)
  define P where "P = (if length m \<ge> max_sessions then \<lambda>(t :: string, expiry). now < expiry else (\<lambda>_. True))"
  have m1: "(if length m \<ge> max_sessions then filter (\<lambda>(t, expiry). now < expiry) m else m) = filter P m"
    by (simp add: P_def)
  let ?k = "oldest_session (filter P m) (range_keys ord (filter P m)) [] zero_time"
  have "session_room e m = (if max_sessions \<le> length (filter P m) then go_del ?k (filter P m) else filter P m)"
    unfolding session_room_def e prod.case Let_def m1 ..
  then show ?thesis by (cases "max_sessions \<le> length (filter P m)") auto
qed

lemma filter_del_sub:
  assumes "m' = filter P m \<or> m' = go_del k (filter P m)"
  shows "set m' \<subseteq> set m" "map_ok m \<Longrightarrow> map_ok m'"
  using assms set_del_sub [of k "filter P m"] by auto

interpretation session_cap: capped_table session_room session_env_ok max_sessions
proof
  show "set (session_room e m) \<subseteq> set m" for e m
    using session_room_form [of e m] by (elim exE) (rule filter_del_sub(1))
  show "map_ok (session_room e m)" if "map_ok m" for e m
    using session_room_form [of e m] by (elim exE) (rule filter_del_sub(2) [OF _ that])
  show "length (session_room e m) < max_sessions"
    if m: "map_ok m" "session_env_ok e m" "length m \<le> max_sessions" for e m
  proof -
    obtain now ord where e: "e = (now, ord)" by (cases e)
    define m1 where "m1 = (if length m \<ge> max_sessions then filter (\<lambda>(t, expiry). now < expiry) m else m)"
    have m1: "covers ord m1" using m(2) e by (simp add: m1_def session_env_ok_def covers_filter)
    have len: "length m1 \<le> max_sessions"
      using m(3) order.trans [OF length_filter_le m(3)] by (simp add: m1_def)
    have room: "session_room e m = (if length m1 \<ge> max_sessions
        then go_del (oldest_session m1 (range_keys ord m1) [] zero_time) m1 else m1)"
      unfolding session_room_def e prod.case Let_def m1_def [symmetric] by simp
    show ?thesis
    proof (cases "length m1 \<ge> max_sessions")
      case True
      then have "m1 \<noteq> []" by (auto simp: max_sessions_def)
      then have "range_keys ord m1 \<noteq> []" using range_keys_Nil [OF m1] by simp
      then have "oldest_session m1 (range_keys ord m1) [] zero_time \<in> set (range_keys ord m1)"
        using range_keys_get by (intro oldest_session_key) auto
      then have "oldest_session m1 (range_keys ord m1) [] zero_time \<in> fst ` set m1"
        using range_keys_sub by fast
      from length_del_less [OF this] show ?thesis using room True len by simp
    qed (use room in simp)
  qed
qed

definition attempts_env_ok :: "instant \<times> string list \<Rightarrow> (string, login_attempt) go_map \<Rightarrow> bool" where
  "attempts_env_ok env m = covers (snd env) m"

interpretation attempt_cap: capped_table attempts_room attempts_env_ok max_limiter_entries
proof
  show "set (attempts_room e m) \<subseteq> set m" for e m
    by (cases e) (auto simp: attempts_room_def Let_def split: if_splits list.splits dest: set_del_sub [THEN subsetD])
  show "map_ok (attempts_room e m)" if "map_ok m" for e m
    using that by (cases e) (simp add: attempts_room_def Let_def split: list.split)
  show "length (attempts_room e m) < max_limiter_entries"
    if m: "map_ok m" "attempts_env_ok e m" "length m \<le> max_limiter_entries" for e m
  proof -
    obtain now ord where e: "e = (now, ord)" by (cases e)
    define m1 where "m1 = filter (\<lambda>(k, v). \<not> (now > la_blocked_until v
                     \<and> time_sub now (la_last_attempt v) > limiter_idle_timeout)) m"
    have m1: "covers ord m1" using m(2) e unfolding m1_def by (simp add: attempts_env_ok_def covers_filter del: de_Morgan_conj)
    have len: "length m1 \<le> max_limiter_entries"
      unfolding m1_def by (rule order.trans [OF length_filter_le m(3)])
    show ?thesis
    proof (cases "length m < max_limiter_entries")
      case False
      then have room: "attempts_room e m = (if length m1 \<ge> max_limiter_entries
          then (case range_keys ord m1 of [] \<Rightarrow> m1 | k # _ \<Rightarrow> go_del k m1) else m1)"
        unfolding attempts_room_def e prod.case Let_def m1_def [symmetric] by simp
      show ?thesis
      proof (cases "length m1 \<ge> max_limiter_entries")
        case True
        then have "m1 \<noteq> []" by (auto simp: max_limiter_entries_def)
        then obtain k ks where "range_keys ord m1 = k # ks" "length (go_del k m1) < length m1"
          using del_first_less [OF m1] by blast
        then show ?thesis using room True len by simp
      qed (use room in simp)
    qed (simp add: attempts_room_def e)
  qed
qed

subsection \<open>Logging in as a step relation\<close>

text \<open>
  Requests interleave between their locked regions. A password is only compared after
  \<open>login_begin\<close> let the request through, so \<open>Auth_Wrong\<close> and \<open>Auth_Right\<close> are the two ways the
  rest of a request can go; the last component of a state lists the tokens issued after a right
  password with the instant their session was added.
\<close>

datatype auth_event =
    Auth_Begin login_env string
  | Auth_Wrong login_env string
  | Auth_Right login_env string
  | Auth_Check instant instant string
  | Auth_Logout string

type_synonym auth_system = "auth_state \<times> (string \<times> instant) list"

fun auth_enabled :: "auth_event \<Rightarrow> auth_system \<Rightarrow> bool" where
  "auth_enabled (Auth_Begin e ip) s = covers (ln_order e 0) (au_attempts (fst s))"
| "auth_enabled (Auth_Wrong e ip) s = covers (ln_order e 1) (au_attempts (fst s))"
| "auth_enabled (Auth_Right e ip) s = covers (ln_order e 2) (au_sessions (fst s))"
| "auth_enabled (Auth_Check t u tok) s = True"
| "auth_enabled (Auth_Logout tok) s = True"

fun auth_effect :: "auth_event \<Rightarrow> auth_system \<Rightarrow> auth_system" where
  "auth_effect (Auth_Begin e ip) (st, issued) = (snd (login_begin e ip st), issued)"
| "auth_effect (Auth_Wrong e ip) (st, issued) = (login_fail e ip st, issued)"
| "auth_effect (Auth_Right e ip) (st, issued) =
     (snd (login_succeed e ip st),
      (case ln_token e of None \<Rightarrow> issued | Some tok \<Rightarrow> (tok, ln_clock e 9) # issued))"
| "auth_effect (Auth_Check t u tok) (st, issued) =
     (st\<lparr>au_sessions := snd (valid_session t u tok (au_sessions st))\<rparr>, issued)"
| "auth_effect (Auth_Logout tok) (st, issued) =
     (st\<lparr>au_sessions := go_del tok (au_sessions st)\<rparr>, issued)"

inductive auth_step :: "auth_system \<Rightarrow> auth_event \<Rightarrow> auth_system \<Rightarrow> bool" where
  auth_step: "auth_enabled ev s \<Longrightarrow> auth_step s ev (auth_effect ev s)"

inductive_simps auth_step_simps: "auth_step s ev t"

definition auth_start :: "auth_system \<Rightarrow> bool" where
  "auth_start s \<longleftrightarrow> s = (initial_auth, [])"

definition auth_inv :: "auth_system \<Rightarrow> bool" where
  "auth_inv s \<longleftrightarrow> map_ok (au_sessions (fst s)) \<and> length (au_sessions (fst s)) \<le> max_sessions
     \<and> map_ok (au_attempts (fst s)) \<and> length (au_attempts (fst s)) \<le> max_limiter_entries
     \<and> (\<forall>(tok, expiry)\<in>set (au_sessions (fst s)). (tok, expiry - session_ttl) \<in> set (snd s))"

lemma find_attempt_frame:
  assumes "find_attempt now ord ip st = (a, st')" "map_ok (au_attempts st)"
    "length (au_attempts st) \<le> max_limiter_entries" "covers ord (au_attempts st)"
  shows "au_sessions st' = au_sessions st" "map_ok (au_attempts st')"
    "length (au_attempts st') \<le> max_limiter_entries" "ip \<in> fst ` set (au_attempts st')"
    "au_failures st' = au_failures st" "au_window_start st' = au_window_start st"
proof -
  show "au_sessions st' = au_sessions st" "au_failures st' = au_failures st" "au_window_start st' = au_window_start st"
    using assms(1) by (auto simp: find_attempt_def split: option.splits)
  show "map_ok (au_attempts st')"
    using assms(1,2) attempt_cap.room_ok by (auto simp: find_attempt_def split: option.splits)
  show "length (au_attempts st') \<le> max_limiter_entries"
    using assms attempt_cap.insert_within [of "au_attempts st" "(now, ord)" ip new_attempt]
    by (auto simp: find_attempt_def attempts_env_ok_def split: option.splits)
  show "ip \<in> fst ` set (au_attempts st')"
    using assms(1) by (auto simp: find_attempt_def keys_put dest: map_of_SomeD split: option.splits intro: rev_image_eqI)
qed

lemma put_attempt_frame:
  assumes "ip \<in> fst ` set (au_attempts st)"
  shows "au_sessions (put_attempt ip a st) = au_sessions st" "au_failures (put_attempt ip a st) = au_failures st"
    "length (au_attempts (put_attempt ip a st)) = length (au_attempts st)"
    "map_ok (au_attempts st) \<Longrightarrow> map_ok (au_attempts (put_attempt ip a st))"
  using assms by (simp_all add: put_attempt_def length_put)

lemma global_frame [simp]:
  "au_sessions (snd (global_login_blocked now st)) = au_sessions st"
  "au_attempts (snd (global_login_blocked now st)) = au_attempts st"
  by (simp_all add: global_login_blocked_def Let_def)

lemma login_begin_frame:
  assumes "map_ok (au_attempts st)" "length (au_attempts st) \<le> max_limiter_entries"
    "covers (ln_order e 0) (au_attempts st)"
  shows "au_sessions (snd (login_begin e ip st)) = au_sessions st \<and> map_ok (au_attempts (snd (login_begin e ip st)))
    \<and> length (au_attempts (snd (login_begin e ip st))) \<le> max_limiter_entries"
proof -
  obtain a st1 where f: "find_attempt (ln_clock e 0) (ln_order e 0) ip st = (a, st1)" by fastforce
  note ff = find_attempt_frame [OF f assms]
  show ?thesis
    using ff put_attempt_frame [OF ff(4)] unfolding login_begin_def f by (simp add: Let_def)
qed

lemma login_fail_frame:
  assumes "map_ok (au_attempts st)" "length (au_attempts st) \<le> max_limiter_entries"
    "covers (ln_order e 1) (au_attempts st)"
  shows "au_sessions (login_fail e ip st) = au_sessions st \<and> map_ok (au_attempts (login_fail e ip st))
    \<and> length (au_attempts (login_fail e ip st)) \<le> max_limiter_entries"
proof -
  obtain a st1 where f: "find_attempt (ln_clock e 4) (ln_order e 1) ip st = (a, st1)" by fastforce
  note ff = find_attempt_frame [OF f assms]
  show ?thesis
    using ff put_attempt_frame [OF ff(4)] unfolding login_fail_def f by (simp add: Let_def case_prod_beta)
qed

lemma valid_session_sub: "set (snd (valid_session t u tok m)) \<subseteq> set m" "map_ok m \<Longrightarrow> map_ok (snd (valid_session t u tok m))"
  "length (snd (valid_session t u tok m)) \<le> length m"
  using set_del_sub [of tok m] length_del_le [of tok m]
  by (auto simp: valid_session_def drop_expired_def split: option.splits)

lemma auth_inv_step:
  assumes "auth_inv s" "auth_enabled ev s"
  shows "auth_inv (auth_effect ev s)"
proof -
  obtain st issued where s: "s = (st, issued)" by (cases s)
  have inv: "map_ok (au_sessions st)" "length (au_sessions st) \<le> max_sessions" "map_ok (au_attempts st)"
    "length (au_attempts st) \<le> max_limiter_entries"
    "\<And>tok expiry. (tok, expiry) \<in> set (au_sessions st) \<Longrightarrow> (tok, expiry - session_ttl) \<in> set issued"
    using assms(1) by (auto simp: auth_inv_def s)
  show ?thesis
  proof (cases ev)
    case (Auth_Begin e ip)
    then show ?thesis
      using login_begin_frame [OF inv(3,4), of e ip] inv assms(2) by (auto simp: auth_inv_def s)
  next
    case (Auth_Wrong e ip)
    then show ?thesis
      using login_fail_frame [OF inv(3,4), of e ip] inv assms(2) by (auto simp: auth_inv_def s)
  next
    case (Auth_Right e ip)
    have cov: "session_env_ok (ln_clock e 9, ln_order e 2) (au_sessions st)"
      using assms(2) by (simp add: Auth_Right s session_env_ok_def)
    have dels: "map_ok (go_del ip (au_attempts st))" "length (go_del ip (au_attempts st)) \<le> max_limiter_entries"
      using inv(3,4) length_del_le [of ip "au_attempts st"] by auto
    show ?thesis
    proof (cases "ln_token e")
      case None
      then show ?thesis using inv dels by (auto simp: auth_inv_def s Auth_Right login_succeed_def)
    next
      case (Some tok)
      let ?m = "add_session (ln_clock e 9) (ln_order e 2) tok (au_sessions st)"
      have m: "map_ok ?m" "length ?m \<le> max_sessions"
        unfolding add_session_def
        using session_cap.insert_ok [OF inv(1)] session_cap.insert_within [OF inv(1) cov inv(2)] by simp_all
      have "set ?m \<subseteq> insert (tok, ln_clock e 9 + session_ttl) (set (au_sessions st))"
        unfolding add_session_def using put_sub session_cap.room_sub by fastforce
      then have "(t, x - session_ttl) \<in> set ((tok, ln_clock e 9) # issued)" if "(t, x) \<in> set ?m" for t x
        using that inv(5) by fastforce
      then show ?thesis using inv dels m by (auto simp: auth_inv_def s Auth_Right login_succeed_def Some)
    qed
  next
    case (Auth_Check t u tok)
    have "set (snd (valid_session t u tok (au_sessions st))) \<subseteq> set (au_sessions st)"
      by (rule valid_session_sub)
    then show ?thesis
      using inv valid_session_sub(2) [OF inv(1), of t u tok] valid_session_sub(3) [of t u tok "au_sessions st"]
      by (auto simp: auth_inv_def s Auth_Check)
  next
    case (Auth_Logout tok)
    have "set (go_del tok (au_sessions st)) \<subseteq> set (au_sessions st)" by (rule set_del_sub)
    then show ?thesis
      using inv length_del_le [of tok "au_sessions st"] by (auto simp: auth_inv_def s Auth_Logout)
  qed
qed

lemma auth_inv_start: "auth_start s \<Longrightarrow> auth_inv s"
  by (simp add: auth_start_def auth_inv_def initial_auth_def)

interpretation auth: invariant_of auth_start auth_step auth_inv
  by unfold_locales (auto simp: auth_step_simps intro: auth_inv_start auth_inv_step)

lemma auth_reach_events:
  "reach auth_start auth_step s \<Longrightarrow> auth_enabled ev s \<Longrightarrow> reach auth_start auth_step (auth_effect ev s)"
  by (auto intro: reach_step auth_step)

lemma auth_reach_start: "reach auth_start auth_step (initial_auth, [])"
  by (simp add: reach_start auth_start_def)

text \<open>
  C32. However requests interleave, neither table ever holds more than 1000 entries, and every
  session in the table belongs to a token issued after a right password and expires exactly one
  session lifetime after it was issued: nothing else creates or prolongs a session.
\<close>

theorem auth_tables_bounded:
  assumes "reach auth_start auth_step (st, issued)"
  shows "length (au_sessions st) \<le> 1000 \<and> length (au_attempts st) \<le> 1000
    \<and> (session_live now tok (au_sessions st) \<longrightarrow>
        (\<exists>t. (tok, t) \<in> set issued \<and> now < t + session_ttl))"
proof -
  have inv: "auth_inv (st, issued)" by (rule auth.holds_reach [OF assms])
  have "\<exists>t. (tok, t) \<in> set issued \<and> now < t + session_ttl" if live: "session_live now tok (au_sessions st)"
  proof -
    obtain expiry where "go_get (au_sessions st) tok = Some expiry" "now < expiry"
      using live by (auto simp: session_live_def split: option.splits)
    then have "(tok, expiry - session_ttl) \<in> set issued" "now < expiry - session_ttl + session_ttl"
      using inv by (auto simp: auth_inv_def dest: map_of_SomeD)
    then show ?thesis by blast
  qed
  with inv show ?thesis by (auto simp: auth_inv_def max_sessions_def max_limiter_entries_def)
qed

definition demo_login :: "instant \<Rightarrow> login_env" where
  "demo_login now = \<lparr>ln_clock = (\<lambda>_. now), ln_order = (\<lambda>_. [''10.0.0.7'']), ln_token = Some ''tok''\<rparr>"

theorem auth_tables_bounded_witness:
  "let st = fst (auth_effect (Auth_Right (demo_login 5) ''10.0.0.7'') (initial_auth, [])) in
    session_live 6 ''tok'' (au_sessions st) \<and> length (au_sessions st) \<le> 1000"
proof -
  let ?s = "auth_effect (Auth_Right (demo_login 5) ''10.0.0.7'') (initial_auth, [])"
  have "auth_enabled (Auth_Right (demo_login 5) ''10.0.0.7'') (initial_auth, [])"
    by (simp add: initial_auth_def demo_login_def covers_def)
  then have "reach auth_start auth_step ?s" by (rule auth_reach_events [OF auth_reach_start])
  then have "reach auth_start auth_step (fst ?s, snd ?s)" by simp
  from auth_tables_bounded [OF this] have "length (au_sessions (fst ?s)) \<le> 1000" by blast
  moreover have "session_live 6 ''tok'' (au_sessions (fst ?s))" by code_simp
  ultimately show ?thesis by (simp add: Let_def)
qed

text \<open>
  Making room for a session never ends one that could be kept: a session that disappears
  when another is added had expired, or the table was full of live sessions and it was one that
  expires first.
\<close>

theorem eviction_drops_oldest:
  assumes "map_ok m" "covers ord m" "[] \<notin> fst ` set m" "go_get m old = Some expiry" "old \<noteq> tok"
    and gone: "go_get (add_session now ord tok m) old = None"
  shows "expiry \<le> now \<or> (\<forall>t x. go_get m t = Some x \<and> now < x \<longrightarrow> expiry \<le> x)"
proof (rule ccontr)
  assume neg: "\<not> ?thesis"
  define m1 where "m1 = (if length m \<ge> max_sessions then filter (\<lambda>(t, expiry). now < expiry) m else m)"
  have m1: "map_ok m1" "covers ord m1" "set m1 \<subseteq> set m" "(old, expiry) \<in> set m1"
    using assms(1,2) map_of_SomeD [OF assms(4)] neg by (auto simp: m1_def covers_filter)
  have live: "now < x" if "go_get m1 t = Some x" "length m \<ge> max_sessions" for t x
    using map_of_SomeD [OF that(1)] that(2) by (simp add: m1_def)
  let ?k = "oldest_session m1 (range_keys ord m1) [] zero_time"
  have room: "session_room (now, ord) m = (if length m1 \<ge> max_sessions then go_del ?k m1 else m1)"
    unfolding session_room_def prod.case Let_def m1_def [symmetric] by simp
  have get1: "go_get m1 old = Some expiry" using m1 by simp
  have "go_get (session_room (now, ord) m) old = None"
    using gone assms(5) by (simp add: add_session_def get_put)
  then have full: "length m1 \<ge> max_sessions" and old: "old = ?k"
    using get1 by (auto simp: room get_del split: if_splits)
  have "length m1 \<le> length m" by (simp add: m1_def)
  then have full0: "length m \<ge> max_sessions" using full by simp
  have keys: "\<forall>t\<in>set (range_keys ord m1). t \<noteq> [] \<and> go_get m1 t \<noteq> None"
    using range_keys_sub [of ord m1] m1(3) assms(3) range_keys_get by fastforce
  have "range_keys ord m1 \<noteq> []" using range_keys_Nil [OF m1(2)] m1(4) by auto
  then obtain e where e: "go_get m1 ?k = Some e"
    "\<forall>t\<in>set (range_keys ord m1). \<forall>x. go_get m1 t = Some x \<longrightarrow> e \<le> x"
    using oldest_session_min [OF keys, of "[]" zero_time] by auto
  have "e = expiry" using e(1) old get1 by simp
  have "expiry \<le> x" if "go_get m t = Some x" "now < x" for t x
  proof -
    have "(t, x) \<in> set m1" using map_of_SomeD [OF that(1)] that(2) full0 by (simp add: m1_def)
    then have "go_get m1 t = Some x" "t \<in> set (range_keys ord m1)"
      using m1(1,2) by (auto simp: set_range_keys intro: rev_image_eqI)
    with e(2) \<open>e = expiry\<close> show ?thesis by blast
  qed
  with neg show False by blast
qed

definition full_table :: session_table where
  "full_table = map (\<lambda>i. (CHR ''s'' # replicate i (CHR ''x''), int i + 1)) [0..<1000]"

lemma full_table_keys: "map fst full_table = map (\<lambda>i. CHR ''s'' # replicate i (CHR ''x'')) [0..<1000]"
  unfolding full_table_def map_map comp_def fst_conv ..

lemma full_table_ok: "map_ok full_table" "covers (map fst full_table) full_table" "[] \<notin> fst ` set full_table"
  "length full_table = max_sessions" "''tok'' \<notin> fst ` set full_table"
proof -
  show ok: "map_ok full_table"
    unfolding full_table_keys by (simp add: distinct_map inj_on_def)
  show "covers (map fst full_table) full_table"
    unfolding covers_def using ok by simp
  show "[] \<notin> fst ` set full_table" "''tok'' \<notin> fst ` set full_table"
    by (auto simp: full_table_def)
  show "length full_table = max_sessions" by (simp add: full_table_def max_sessions_def)
qed

theorem eviction_drops_oldest_witness:
  "\<exists>old expiry. go_get full_table old = Some expiry
    \<and> go_get (add_session 0 (map fst full_table) ''tok'' full_table) old = None
    \<and> (expiry \<le> 0 \<or> (\<forall>t x. go_get full_table t = Some x \<and> 0 < x \<longrightarrow> expiry \<le> x))"
proof -
  let ?m = "full_table" and ?r = "session_room (0, map fst full_table) full_table"
  have "length ?r < length ?m"
    using session_cap.room_below [OF full_table_ok(1), of "(0, map fst full_table)"] full_table_ok
    by (simp add: session_env_ok_def)
  moreover have "map_ok ?r" by (rule session_cap.room_ok [OF full_table_ok(1)])
  ultimately have "card (fst ` set ?r) < card (fst ` set ?m)"
    using full_table_ok(1) by (metis distinct_card length_map set_map)
  then have "\<not> fst ` set ?m \<subseteq> fst ` set ?r"
    using card_mono [of "fst ` set ?r" "fst ` set ?m"] by auto
  then obtain old where "old \<in> fst ` set ?m" and unkept: "old \<notin> fst ` set ?r" by blast
  then obtain expiry where mem: "(old, expiry) \<in> set ?m" by auto
  note old = mem unkept
  then have get: "go_get ?m old = Some expiry" using full_table_ok(1) by simp
  have ne: "old \<noteq> ''tok''" using old(1) full_table_ok(5) by (auto intro: rev_image_eqI)
  have gone: "go_get (add_session 0 (map fst full_table) ''tok'' ?m) old = None"
    using old(2) ne by (simp add: add_session_def get_put map_of_eq_None_iff)
  show ?thesis
    using eviction_drops_oldest [OF full_table_ok(1-3) get ne gone] get gone by blast
qed

text \<open>
  Behind a trusted proxy the address that logins are counted by is the one the proxy
  appended: whatever the client puts in front of it in the header, it cannot choose it; and
  without a trusted proxy the header is ignored.
\<close>

theorem client_ip_not_spoofable:
  assumes "CHR '','' \<notin> set proxy_part" "trim_space proxy_part \<noteq> []"
  shows "client_ip addr (earlier @ [client_part @ '','' @ proxy_part]) True = trim_space proxy_part
    \<and> client_ip addr headers False = client_ip addr [] False"
proof -
  have "split_on (CHR '','') (client_part @ '','' @ proxy_part) = split_on (CHR '','') client_part @ [proxy_part]"
    using assms(1) by (simp add: split_on_append_sep split_on_clean)
  then show ?thesis using assms(2) by (simp add: client_ip_def Let_def)
qed

theorem client_ip_not_spoofable_witness:
  "client_ip ''10.0.0.2:4711'' [''1.2.3.4, 203.0.113.9''] True = ''203.0.113.9''
    \<and> client_ip ''10.0.0.2:4711'' [''1.2.3.4''] False = ''10.0.0.2''"
proof -
  have t: "trim_space '' 203.0.113.9'' = ''203.0.113.9''" "CHR '','' \<notin> set '' 203.0.113.9''"
    "client_ip ''10.0.0.2:4711'' [] False = ''10.0.0.2''"
    by code_simp+
  from client_ip_not_spoofable [OF t(2), of "''10.0.0.2:4711''" "[]" "''1.2.3.4''" "[''1.2.3.4'']"] t
  show ?thesis by simp
qed

subsection \<open>Guessing\<close>

definition attempt_is :: "string \<Rightarrow> nat \<Rightarrow> auth_state \<Rightarrow> bool" where
  "attempt_is ip n st \<longleftrightarrow>
     (case go_get (au_attempts st) ip of
        None \<Rightarrow> n = 0
      | Some a \<Rightarrow> la_count a = int n \<and> la_blocked_until a = zero_time)"

lemma find_attempt_is:
  assumes "find_attempt now ord ip st = (a, st1)" "attempt_is ip n st"
  shows "la_count a = int n" "la_blocked_until a = zero_time" "au_failures st1 = au_failures st"
  using assms by (auto simp: find_attempt_def attempt_is_def new_attempt_def split: option.splits)

lemma global_failures: "0 \<le> k \<Longrightarrow> au_failures st \<le> k \<Longrightarrow> au_failures (snd (global_login_blocked now st)) \<le> k"
  by (simp add: global_login_blocked_def Let_def)

lemma global_open: "au_failures st < 100 \<Longrightarrow> \<not> fst (global_login_blocked now st)"
  by (simp add: global_login_blocked_def Let_def max_global_login_failures_def)

lemma begin_passes:
  assumes "attempt_is ip n st" "au_failures st \<le> k" "0 \<le> k" "k < 100" "zero_time \<le> ln_clock e 2"
  shows "\<not> fst (login_begin e ip st)" "attempt_is ip n (snd (login_begin e ip st))"
    "au_failures (snd (login_begin e ip st)) \<le> k"
proof -
  obtain a st1 where f: "find_attempt (ln_clock e 0) (ln_order e 0) ip st = (a, st1)" by fastforce
  note a = find_attempt_is [OF f assms(1)]
  let ?st2 = "put_attempt ip (a\<lparr>la_last_attempt := ln_clock e 1\<rparr>) st1"
  have run: "login_begin e ip st = global_login_blocked (ln_clock e 3) ?st2"
    unfolding login_begin_def f Let_def prod.case using a assms(5) by (simp add: not_less)
  have st2: "au_failures ?st2 \<le> k" "au_failures ?st2 < 100" "attempt_is ip n ?st2"
    using a assms(2,4) by (simp_all add: put_attempt_def attempt_is_def get_put)
  show "\<not> fst (login_begin e ip st)" unfolding run by (rule global_open [OF st2(2)])
  show "au_failures (snd (login_begin e ip st)) \<le> k" unfolding run by (rule global_failures [OF assms(3) st2(1)])
  show "attempt_is ip n (snd (login_begin e ip st))"
    using st2(3) unfolding run by (simp add: attempt_is_def)
qed

lemma fail_counts:
  assumes "attempt_is ip n st" "n < 5" "au_failures st \<le> k" "0 \<le> k"
  shows "au_failures (login_fail e ip st) \<le> k + 1"
    "\<exists>a. go_get (au_attempts (login_fail e ip st)) ip = Some a \<and> la_count a = int (Suc n)
      \<and> la_blocked_until a = (if n = 4 then ln_clock e 7 + login_block_duration else zero_time)"
proof -
  obtain a st1 where f: "find_attempt (ln_clock e 4) (ln_order e 1) ip st = (a, st1)" by fastforce
  note a = find_attempt_is [OF f assms(1)]
  let ?st2 = "put_attempt ip (count_failure e a) st1"
  obtain b st3 where g: "global_login_blocked (ln_clock e 8) ?st2 = (b, st3)" by fastforce
  have run: "login_fail e ip st = (if \<not> b then st3\<lparr>au_failures := au_failures st3 + 1\<rparr> else st3)"
    unfolding login_fail_def f Let_def prod.case g ..
  have "au_failures ?st2 \<le> k" using a(3) assms(3) by (simp add: put_attempt_def)
  from global_failures [OF assms(4) this, of "ln_clock e 8"] show "au_failures (login_fail e ip st) \<le> k + 1"
    by (simp add: run g)
  have "au_attempts (login_fail e ip st) = au_attempts ?st2"
    using global_frame(2) [of "ln_clock e 8" ?st2] by (simp add: run g)
  moreover have "la_count (count_failure e a) = int (Suc n)"
    "la_blocked_until (count_failure e a) = (if n = 4 then ln_clock e 7 + login_block_duration else zero_time)"
    using a(1,2) assms(2) by (auto simp: count_failure_def Let_def max_login_attempts_def)
  ultimately show "\<exists>a. go_get (au_attempts (login_fail e ip st)) ip = Some a \<and> la_count a = int (Suc n)
      \<and> la_blocked_until a = (if n = 4 then ln_clock e 7 + login_block_duration else zero_time)"
    by (simp add: put_attempt_def get_put)
qed

fun login_all :: "string \<Rightarrow> string \<Rightarrow> (login_env \<times> string) list \<Rightarrow> auth_state \<Rightarrow> auth_state" where
  "login_all pw ip [] st = st"
| "login_all pw ip ((e, guess) # rs) st = login_all pw ip rs (snd (login pw e ip (Some guess) st))"

lemma wrong_login:
  assumes "pw \<noteq> []" "guess \<noteq> pw" "attempt_is ip n st" "n < 5" "au_failures st \<le> 95 + int n" "zero_time \<le> ln_clock e 2"
  shows "snd (login pw e ip (Some guess) st) = login_fail e ip (snd (login_begin e ip st))"
    "attempt_is ip n (snd (login_begin e ip st))" "au_failures (snd (login_begin e ip st)) \<le> 95 + int n"
proof -
  have "\<not> fst (login_begin e ip st)" "attempt_is ip n (snd (login_begin e ip st))"
    "au_failures (snd (login_begin e ip st)) \<le> 95 + int n"
    using begin_passes [OF assms(3,5) _ _ assms(6)] assms(4) by simp_all
  then show "snd (login pw e ip (Some guess) st) = login_fail e ip (snd (login_begin e ip st))"
    "attempt_is ip n (snd (login_begin e ip st))" "au_failures (snd (login_begin e ip st)) \<le> 95 + int n"
    using assms(1,2) by (simp_all add: login_def login_finish_def Let_def case_prod_beta)
qed

lemma wrong_logins:
  assumes "pw \<noteq> []" "\<forall>(e, guess)\<in>set rs. guess \<noteq> pw \<and> (\<forall>k. start \<le> ln_clock e k)" "zero_time \<le> start"
    and "attempt_is ip n st" "au_failures st \<le> 95 + int n" "n + length rs = 5" "rs \<noteq> []"
  shows "\<exists>a. go_get (au_attempts (login_all pw ip rs st)) ip = Some a
    \<and> start + login_block_duration \<le> la_blocked_until a"
  using assms(2,4-)
proof (induction rs arbitrary: n st)
  case (Cons r rs)
  obtain e guess where r: "r = (e, guess)" by (cases r)
  have e: "guess \<noteq> pw" "\<And>k. start \<le> ln_clock e k" "n < 5" using Cons.prems r by auto
  have clock: "zero_time \<le> ln_clock e 2" using e(2) [of 2] assms(3) by simp
  note w = wrong_login [OF assms(1) e(1) Cons.prems(2) e(3) Cons.prems(3) clock]
  let ?st = "login_fail e ip (snd (login_begin e ip st))"
  have f: "au_failures ?st \<le> 95 + int (Suc n)"
    using fail_counts(1) [OF w(2) e(3) w(3)] by simp
  obtain a where a: "go_get (au_attempts ?st) ip = Some a" "la_count a = int (Suc n)"
    "la_blocked_until a = (if n = 4 then ln_clock e 7 + login_block_duration else zero_time)"
    using fail_counts(2) [OF w(2) e(3) w(3)] by auto
  show ?case
  proof (cases rs)
    case Nil
    then have "n = 4" using Cons.prems(4) by simp
    with Nil a e(2) [of 7] show ?thesis by (simp add: r w(1))
  next
    case (Cons r' rs')
    then have "n \<noteq> 4" "rs \<noteq> []" using Cons.prems(4) by auto
    then have "attempt_is ip (Suc n) ?st" using a by (simp add: attempt_is_def)
    then show ?thesis
      using Cons.IH [of "Suc n" ?st] Cons.prems(1,4) f \<open>rs \<noteq> []\<close> by (simp add: r w(1))
  qed
qed simp

lemma blocked_login:
  assumes "go_get (au_attempts st) ip = Some a" "ln_clock e 2 < la_blocked_until a" "pw \<noteq> []"
  shows "fst (login pw e ip (Some guess) st) = LoginBlocked"
  using assms by (simp add: login_def login_begin_def find_attempt_def Let_def)



text \<open>Requests that have all passed the check before the first of them is counted.\<close>

fun begin_all :: "login_env list \<Rightarrow> string \<Rightarrow> auth_state \<Rightarrow> bool list \<times> auth_state" where
  "begin_all [] ip st = ([], st)"
| "begin_all (e # es) ip st =
     (case login_begin e ip st of (b, st1) \<Rightarrow> (case begin_all es ip st1 of (bs, st2) \<Rightarrow> (b # bs, st2)))"

fun finish_all :: "string \<Rightarrow> (login_env \<times> string) list \<Rightarrow> string \<Rightarrow> auth_state \<Rightarrow> login_reply list \<times> auth_state" where
  "finish_all pw [] ip st = ([], st)"
| "finish_all pw ((e, guess) # rs) ip st =
     (case login_finish pw e ip guess st of (r, st1) \<Rightarrow>
        (case finish_all pw rs ip st1 of (rs', st2) \<Rightarrow> (r # rs', st2)))"

lemma begin_all_passes:
  assumes "\<forall>e\<in>set es. zero_time \<le> ln_clock e 2" "attempt_is ip 0 st" "au_failures st \<le> 0"
  shows "fst (begin_all es ip st) = map (\<lambda>e. False) es"
  using assms
proof (induction es arbitrary: st)
  case (Cons e es)
  then have clock: "zero_time \<le> ln_clock e 2" by simp
  obtain b st1 where b: "login_begin e ip st = (b, st1)" by fastforce
  have "\<not> b" "attempt_is ip 0 st1" "au_failures st1 \<le> 0"
    using begin_passes [OF Cons.prems(2,3) _ _ clock] b by simp_all
  then show ?case using Cons.IH [of st1] Cons.prems(1) by (simp add: b case_prod_beta)
qed simp

lemma finish_all_append:
  "finish_all pw (rs @ rs') ip st =
     (case finish_all pw rs ip st of (as, st1) \<Rightarrow> (case finish_all pw rs' ip st1 of (bs, st2) \<Rightarrow> (as @ bs, st2)))"
  by (induction rs arbitrary: st) (auto split: prod.splits)

lemma finish_all_wrong:
  "\<forall>(e, guess)\<in>set rs. guess \<noteq> pw \<Longrightarrow> fst (finish_all pw rs ip st) = map (\<lambda>r. LoginWrong) rs"
proof (induction rs arbitrary: st)
  case (Cons r rs)
  obtain e guess where r: "r = (e, guess)" by (cases r)
  with Cons show ?case by (simp add: login_finish_def case_prod_beta)
qed simp

text \<open>
  Guessing in parallel is not: the check for a block and the counting of a failure are
  separate locked regions, so any number of requests from one address that pass the check before
  the first is counted are all compared with the password, and the last gets its session although
  all the others have been counted by then.
\<close>

theorem parallel_guesses_pass:
  assumes "\<forall>(e, guess)\<in>set rs. guess \<noteq> pw \<and> zero_time \<le> ln_clock e 2" "zero_time \<le> ln_clock e 2"
    and "ln_token e = Some tok"
  shows "let (blocked, st) = begin_all (map fst rs @ [e]) ip initial_auth in
    blocked = replicate (Suc (length rs)) False
    \<and> fst (finish_all pw (rs @ [(e, pw)]) ip st) = replicate (length rs) LoginWrong @ [LoginOk tok]"
proof -
  obtain bs st where b: "begin_all (map fst rs @ [e]) ip initial_auth = (bs, st)" by fastforce
  have "attempt_is ip 0 initial_auth" "au_failures initial_auth \<le> 0"
    by (simp_all add: attempt_is_def initial_auth_def)
  then have "bs = map (\<lambda>e. False) (map fst rs @ [e])"
    using begin_all_passes [of "map fst rs @ [e]" ip initial_auth] assms(1,2) b by fastforce
  moreover have "fst (finish_all pw rs ip st) = map (\<lambda>r. LoginWrong) rs"
    using assms(1) by (intro finish_all_wrong) auto
  ultimately show ?thesis
    using assms(3)
    by (simp add: b finish_all_append login_finish_def login_succeed_def case_prod_beta map_replicate_const
          flip: replicate_append_same)
qed

theorem parallel_guesses_pass_witness:
  "let (blocked, st) = begin_all (map fst (replicate 200 (demo_login 5, ''wrong'')) @ [demo_login 5]) ''10.0.0.7'' initial_auth in
    blocked = replicate (Suc 200) False
    \<and> fst (finish_all ''right'' (replicate 200 (demo_login 5, ''wrong'') @ [(demo_login 5, ''right'')]) ''10.0.0.7'' st)
      = replicate 200 LoginWrong @ [LoginOk ''tok'']"
proof -
  have t: "zero_time \<le> ln_clock (demo_login 5) 2" "ln_token (demo_login 5) = Some ''tok''" "''wrong'' \<noteq> ''right''"
    by (simp_all add: demo_login_def zero_time_def)
  have "\<forall>(e, guess)\<in>set (replicate 200 (demo_login 5, ''wrong'')). guess \<noteq> ''right'' \<and> zero_time \<le> ln_clock e 2"
    using t by simp
  from parallel_guesses_pass [OF this t(1,2), of "''10.0.0.7''"] show ?thesis
    by (simp only: length_replicate)
qed

end
