(* ===== verification/Local_Files.thy ===== *)
theory Local_Files
  imports Go_Path Models
begin

text \<open>
  The local side of the file manager (\<open>internal/api/server.go\<close>): the handlers of \<open>/api/files\<close>,
  \<open>/api/files/action\<close> and \<open>/api/files/download\<close>, and the check of the file list in \<open>/api/upload\<close>.

  The file system is a parameter, a state \<open>'s\<close> and one function per call: the walk of
  \<open>EvalSymlinks\<close> (which the library cleans), and the operations of an \<open>os.Root\<close>, addressed by
  the directory it was opened on. The working directory is \<open>rt_cwd\<close>. A reply is its status code
  or what the body says; the texts of error replies are left out.
\<close>

record file_entry =
  fe_name :: string
  fe_is_dir :: bool
  fe_size :: "int option"

record opened_file =
  of_seekable :: bool
  of_stat :: "(string \<times> bool) option"
  of_content :: string

record 's root_ops =
  rt_cwd :: "string option"
  rt_walk :: "string \<Rightarrow> 's \<Rightarrow> string option"
  rt_open :: "string \<Rightarrow> 's \<Rightarrow> bool"
  rt_read_dir :: "string \<Rightarrow> string \<Rightarrow> 's \<Rightarrow> file_entry list option"
  rt_open_file :: "string \<Rightarrow> string \<Rightarrow> 's \<Rightarrow> opened_file option"
  rt_stat :: "string \<Rightarrow> string \<Rightarrow> 's \<Rightarrow> bool"
  rt_remove_all :: "string \<Rightarrow> string \<Rightarrow> 's \<Rightarrow> bool \<times> 's"
  rt_rename :: "string \<Rightarrow> string \<Rightarrow> string \<Rightarrow> 's \<Rightarrow> bool \<times> 's"
  rt_mkdir_all :: "string \<Rightarrow> string \<Rightarrow> 's \<Rightarrow> bool \<times> 's"

definition eval_symlinks :: "'s root_ops \<Rightarrow> string \<Rightarrow> 's \<Rightarrow> string option" where
  "eval_symlinks rt p s = map_option path_clean (rt_walk rt p s)"

text \<open>\<open>p, _ = FilepathEvalSymlinks(p)\<close> leaves the empty string on an error.\<close>

definition eval_or_empty :: "'s root_ops \<Rightarrow> string \<Rightarrow> 's \<Rightarrow> string" where
  "eval_or_empty rt p s = (case eval_symlinks rt p s of None \<Rightarrow> [] | Some q \<Rightarrow> q)"

text \<open>The other idiom keeps the path.\<close>

definition eval_or_same :: "'s root_ops \<Rightarrow> string \<Rightarrow> 's \<Rightarrow> string" where
  "eval_or_same rt p s = (case eval_symlinks rt p s of None \<Rightarrow> p | Some q \<Rightarrow> q)"

datatype local_reply =
    LocalOk
  | LocalListing string "file_info list"
  | LocalFile string string
  | LocalStatus nat

subsection \<open>Listing\<close>

definition entry_info :: "file_entry \<Rightarrow> file_info option" where
  "entry_info e = (case fe_size e of
      None \<Rightarrow> None
    | Some n \<Rightarrow> Some \<lparr>fi_name = fe_name e, fi_size = n, fi_is_dir = fe_is_dir e\<rparr>)"

definition query_path :: "string \<Rightarrow> string" where
  "query_path query = (let p = path_clean query in if p = ''.'' then [] else p)"

definition list_local :: "'s root_ops \<Rightarrow> string \<Rightarrow> string \<Rightarrow> 's \<Rightarrow> local_reply" where
  "list_local rt dir query s =
     (let rel_path = query_path query; full = path_join [dir, rel_path] in
      case path_abs (rt_cwd rt) dir of
        None \<Rightarrow> LocalStatus 500
      | Some dir_abs \<Rightarrow>
          let base = eval_or_empty rt dir_abs s;
              (target, label) =
                (case path_abs (rt_cwd rt) full of
                   None \<Rightarrow> ([], [])
                 | Some full_abs \<Rightarrow>
                     let t = eval_or_empty rt full_abs s in (t, if contained base t then rel_path else []));
              rel = (case path_rel base target of
                   None \<Rightarrow> ''.''
                 | Some r \<Rightarrow> if escapes r then ''.'' else r)
          in if \<not> rt_open rt base s then LocalStatus 500
             else (case rt_read_dir rt base rel s of
                 None \<Rightarrow> LocalStatus 500
               | Some entries \<Rightarrow> LocalListing label (List.map_filter entry_info entries)))"

subsection \<open>Actions\<close>

definition bad_local_name :: "string \<Rightarrow> bool" where
  "bad_local_name n \<longleftrightarrow> n = [] \<or> n = ''.'' \<or> n = ''..'' \<or> path_base n \<noteq> n"

definition act_reply :: "bool \<times> 's \<Rightarrow> local_reply \<times> 's" where
  "act_reply r = (if fst r then LocalOk else LocalStatus 500, snd r)"

text \<open>The operation on the base directory \<open>base\<close> after all checks of the path.\<close>

definition local_operation ::
  "'s root_ops \<Rightarrow> string \<Rightarrow> string \<Rightarrow> string \<Rightarrow> file_action_request \<Rightarrow> 's \<Rightarrow> local_reply \<times> 's" where
  "local_operation rt base target rel req s =
     (if fa_action req = ''delete'' then act_reply (rt_remove_all rt base rel s)
      else if fa_action req = ''rename'' then
        (if bad_local_name (fa_new_name req) then (LocalStatus 400, s)
         else
           (case path_abs (rt_cwd rt) (path_join [path_dir target, fa_new_name req]) of
              None \<Rightarrow> (LocalStatus 500, s)
            | Some new_path \<Rightarrow>
                (case path_rel base new_path of
                   None \<Rightarrow> (LocalStatus 400, s)
                 | Some new_rel \<Rightarrow>
                     if escapes new_rel then (LocalStatus 400, s)
                     else act_reply (rt_rename rt base rel new_rel s))))
      else if fa_action req = ''mkdir'' then act_reply (rt_mkdir_all rt base rel s)
      else (LocalStatus 400, s))"

definition local_action ::
  "'s root_ops \<Rightarrow> string \<Rightarrow> file_action_request \<Rightarrow> 's \<Rightarrow> local_reply \<times> 's" where
  "local_action rt dir req s =
     (case path_abs (rt_cwd rt) dir of
        None \<Rightarrow> (LocalStatus 500, s)
      | Some dir_abs \<Rightarrow>
          let base = eval_or_empty rt dir_abs s in
          (case path_abs (rt_cwd rt) (path_join [dir, fa_path req]) of
             None \<Rightarrow> (LocalStatus 500, s)
           | Some full_abs \<Rightarrow>
               let target = eval_or_same rt full_abs s in
               (case path_rel base target of
                  None \<Rightarrow> (LocalStatus 401, s)
                | Some rel \<Rightarrow>
                    if escapes rel then (LocalStatus 401, s)
                    else if (rel = ''.'' \<or> rel = []) \<and> (fa_action req = ''delete'' \<or> fa_action req = ''rename'')
                    then (LocalStatus 403, s)
                    else if \<not> rt_open rt base s then (LocalStatus 500, s)
                    else local_operation rt base target rel req s)))"

subsection \<open>Downloads\<close>

definition download_local :: "'s root_ops \<Rightarrow> string \<Rightarrow> string \<Rightarrow> string \<Rightarrow> 's \<Rightarrow> local_reply" where
  "download_local rt dir meth query s =
     (let rel_path = path_clean query in
      if meth \<noteq> ''GET'' then LocalStatus 405
      else if rel_path = [] \<or> rel_path = ''.'' then LocalStatus 400
      else
        (case path_abs (rt_cwd rt) dir of
           None \<Rightarrow> LocalStatus 500
         | Some dir_abs \<Rightarrow>
             let base = eval_or_empty rt dir_abs s in
             (case path_abs (rt_cwd rt) (path_join [dir, rel_path]) of
                None \<Rightarrow> LocalStatus 500
              | Some full_abs \<Rightarrow>
                  (case path_rel base (eval_or_same rt full_abs s) of
                     None \<Rightarrow> LocalStatus 401
                   | Some rel \<Rightarrow>
                       if escapes rel then LocalStatus 401
                       else if \<not> is_local rel then LocalStatus 401
                       else if \<not> rt_open rt base s then LocalStatus 500
                       else
                         (case rt_open_file rt base rel s of
                            None \<Rightarrow> LocalStatus 404
                          | Some f \<Rightarrow>
                              if \<not> of_seekable f then LocalStatus 500
                              else (case of_stat f of
                                  None \<Rightarrow> LocalStatus 400
                                | Some (name, dir) \<Rightarrow>
                                    if dir then LocalStatus 400 else LocalFile name (of_content f)))))))"

subsection \<open>The file list of an upload\<close>

definition upload_file_ok :: "'s root_ops \<Rightarrow> string \<Rightarrow> string \<Rightarrow> 's \<Rightarrow> bool" where
  "upload_file_ok rt base file s =
     (case path_abs (rt_cwd rt) (path_join [base, file]) of
        None \<Rightarrow> False
      | Some full \<Rightarrow>
          (case path_rel base full of
             None \<Rightarrow> False
           | Some rel \<Rightarrow> \<not> escapes rel \<and> rt_stat rt base rel s))"

text \<open>The loop collects the files it rejects and the files it accepts.\<close>

fun check_files :: "'s root_ops \<Rightarrow> string \<Rightarrow> string list \<Rightarrow> 's \<Rightarrow> string list \<times> string list" where
  "check_files rt base [] s = ([], [])"
| "check_files rt base (f # fs) s =
     (case check_files rt base fs s of (invalid, valid) \<Rightarrow>
        if upload_file_ok rt base f s then (invalid, f # valid) else (f # invalid, valid))"

lemma check_files_filter:
  "check_files rt base fs s = (filter (\<lambda>f. \<not> upload_file_ok rt base f s) fs, filter (\<lambda>f. upload_file_ok rt base f s) fs)"
  by (induction fs) auto

subsection \<open>Reading stays inside\<close>

lemma path_rel_dot: "path_rel base base = Some ''.''"
  by (simp add: path_rel_def)

text \<open>The directory everything is opened in, and what a listing and a download may be.\<close>

definition local_base :: "'s root_ops \<Rightarrow> string \<Rightarrow> 's \<Rightarrow> string option" where
  "local_base rt dir s = map_option (\<lambda>a. eval_or_empty rt a s) (path_abs (rt_cwd rt) dir)"

definition listing_inside :: "'s root_ops \<Rightarrow> string \<Rightarrow> 's \<Rightarrow> string \<Rightarrow> file_info list \<Rightarrow> bool" where
  "listing_inside rt dir s label files \<longleftrightarrow>
     (\<exists>base rel entries. local_base rt dir s = Some base \<and> is_local rel \<and> rt_open rt base s \<and> rt_read_dir rt base rel s = Some entries
        \<and> files = List.map_filter entry_info entries
        \<and> (label = [] \<or> (\<exists>full. path_abs (rt_cwd rt) (path_join [dir, label]) = Some full
              \<and> norm_parts (eval_or_empty rt full s) = norm_parts base @ norm_parts rel)))"

definition download_inside :: "'s root_ops \<Rightarrow> string \<Rightarrow> 's \<Rightarrow> string \<Rightarrow> string \<Rightarrow> bool" where
  "download_inside rt dir s name content \<longleftrightarrow>
     (\<exists>base rel f. local_base rt dir s = Some base \<and> is_local rel \<and> rt_open rt base s \<and> rt_open_file rt base rel s = Some f
        \<and> of_stat f = Some (name, False) \<and> content = of_content f)"

lemma list_local_inside:
  "(\<exists>label files. list_local rt dir query s = LocalListing label files \<and> listing_inside rt dir s label files)
   \<or> list_local rt dir query s = LocalStatus 500"
proof (cases "path_abs (rt_cwd rt) dir")
  case None
  then show ?thesis by (simp add: list_local_def Let_def)
next
  case (Some dir_abs)
  define base where "base = eval_or_empty rt dir_abs s"
  define full where "full = path_abs (rt_cwd rt) (path_join [dir, query_path query])"
  define target where "target = (case full of None \<Rightarrow> [] | Some f \<Rightarrow> eval_or_empty rt f s)"
  define label where "label = (if full \<noteq> None \<and> contained base target then query_path query else [])"
  define rel where "rel = (case path_rel base target of None \<Rightarrow> ''.'' | Some r \<Rightarrow> if escapes r then ''.'' else r)"
  have run: "list_local rt dir query s =
    (if \<not> rt_open rt base s then LocalStatus 500
     else (case rt_read_dir rt base rel s of None \<Rightarrow> LocalStatus 500
       | Some entries \<Rightarrow> LocalListing label (List.map_filter entry_info entries)))"
    using Some unfolding list_local_def Let_def rel_def label_def target_def full_def base_def
    by (cases "path_abs (rt_cwd rt) (path_join [dir, query_path query])") simp_all
  have "is_local ''.''" by code_simp
  then have local: "is_local rel"
    using path_rel_under(3) [of base target] by (auto simp: rel_def split: option.splits)
  have named: "label = [] \<or> (\<exists>f. path_abs (rt_cwd rt) (path_join [dir, label]) = Some f
      \<and> norm_parts (eval_or_empty rt f s) = norm_parts base @ norm_parts rel)"
  proof (cases "full \<noteq> None \<and> contained base target")
    case True
    then obtain f r where f: "full = Some f" and r: "path_rel base target = Some r" "\<not> escapes r"
      by (auto simp: contained_def split: option.splits)
    have "norm_parts target = norm_parts base @ norm_parts r" by (rule path_rel_under(2) [OF r])
    then show ?thesis using True f r by (simp add: label_def rel_def target_def full_def)
  next
    case False
    then have "label = []" unfolding label_def by (rule if_not_P)
    then show ?thesis ..
  qed
  show ?thesis
  proof (cases "rt_open rt base s \<and> rt_read_dir rt base rel s \<noteq> None")
    case True
    then obtain entries where entries: "rt_open rt base s" "rt_read_dir rt base rel s = Some entries" by auto
    moreover have "local_base rt dir s = Some base" using Some by (simp add: local_base_def base_def)
    ultimately have "listing_inside rt dir s label (List.map_filter entry_info entries)"
      using local named unfolding listing_inside_def by blast
    with entries show ?thesis by (simp add: run)
  qed (auto simp: run)
qed

lemma download_local_inside:
  assumes "download_local rt dir meth query s = LocalFile name content"
  shows "download_inside rt dir s name content"
  using assms unfolding download_local_def Let_def
  by (auto split: option.splits if_splits prod.splits bool.splits simp: download_inside_def local_base_def)

text \<open>
  C22. Listing and downloading only read below the resolved local directory, whatever the query
  and whatever symbolic links there are: the entries are those of a local path of that
  directory, and when the listing carries a path the resolved query is that local path; a
  download is the content of a file, not of a directory, at a local path.
\<close>

theorem local_reads_contained:
  "(case list_local rt dir query s of
      LocalListing label files \<Rightarrow> listing_inside rt dir s label files
    | LocalStatus st \<Rightarrow> st = 500
    | _ \<Rightarrow> False)
   \<and> (case download_local rt dir meth query s of
        LocalFile name content \<Rightarrow> download_inside rt dir s name content
      | LocalStatus st \<Rightarrow> st \<in> {400, 401, 404, 405, 500}
      | _ \<Rightarrow> False)"
proof (rule conjI)
  show "case list_local rt dir query s of
      LocalListing label files \<Rightarrow> listing_inside rt dir s label files
    | LocalStatus st \<Rightarrow> st = 500
    | _ \<Rightarrow> False"
    using list_local_inside [of rt dir query s] by auto
  show "case download_local rt dir meth query s of
        LocalFile name content \<Rightarrow> download_inside rt dir s name content
      | LocalStatus st \<Rightarrow> st \<in> {400, 401, 404, 405, 500}
      | _ \<Rightarrow> False"
    using download_local_inside [of rt dir meth query s]
    by (auto simp: download_local_def Let_def split: option.splits)
qed

subsection \<open>Actions stay inside\<close>

text \<open>The new name of a rename: in the same directory, with the one odd name \<open>/\<close> that \<open>Base\<close> lets through.\<close>

definition renamed_in_place :: "string \<Rightarrow> string \<Rightarrow> string \<Rightarrow> string \<Rightarrow> bool" where
  "renamed_in_place base rel name new_rel \<longleftrightarrow> is_local new_rel \<and>
     (\<not> is_abs base \<or> norm_parts new_rel = butlast (norm_parts rel) @ (if name = ''/'' then [] else [name]))"

definition action_inside :: "'s root_ops \<Rightarrow> string \<Rightarrow> file_action_request \<Rightarrow> 's \<Rightarrow> 's \<Rightarrow> bool" where
  "action_inside rt dir req s s' \<longleftrightarrow>
     (\<exists>base rel. local_base rt dir s = Some base \<and> is_local rel \<and> rt_open rt base s
        \<and> (fa_action req = ''delete'' \<and> norm_parts rel \<noteq> [] \<and> s' = snd (rt_remove_all rt base rel s)
           \<or> fa_action req = ''rename'' \<and> norm_parts rel \<noteq> []
               \<and> (\<exists>new_rel. renamed_in_place base rel (fa_new_name req) new_rel
                     \<and> s' = snd (rt_rename rt base rel new_rel s))
           \<or> fa_action req = ''mkdir'' \<and> s' = snd (rt_mkdir_all rt base rel s)))"

lemma snd_act_reply [simp]: "snd (act_reply r) = snd r"
  by (simp add: act_reply_def)

lemma target_clean:
  assumes "path_abs cwd p = Some f"
  shows "path_clean (eval_or_same rt f s) = eval_or_same rt f s \<or> eval_or_same rt f s = []"
proof -
  have "path_clean f = f \<or> f = []"
    using assms clean_idem
    by (auto simp: path_abs_def path_join_def Let_def split: if_splits option.splits)
  then show ?thesis by (auto simp: eval_or_same_def eval_symlinks_def clean_idem split: option.splits)
qed

lemma rename_in_place:
  assumes "path_clean target = target \<or> target = []" "path_rel base target = Some rel" "\<not> escapes rel" "norm_parts rel \<noteq> []"
    and "\<not> bad_local_name name" "path_abs cwd (path_join [path_dir target, name]) = Some new_path"
    and "path_rel base new_path = Some new_rel" "\<not> escapes new_rel"
  shows "renamed_in_place base rel name new_rel"
proof (cases "is_abs base")
  case True
  note r = path_rel_under [OF assms(2,3)] and n = path_rel_under [OF assms(7,8)]
  have ne: "norm_parts target \<noteq> []" using r(2) assms(4) by simp
  moreover have "norm_parts [] = []" by code_simp
  ultimately have clean: "path_clean target = target" using assms(1) by auto
  have d: "norm_parts (path_dir target) = norm_parts base @ butlast (norm_parts rel)" "is_abs (path_dir target)"
    using dir_clean [OF clean ne] r(1,2) assms(4) True by (simp_all add: butlast_append)
  have dne: "path_dir target \<noteq> []" using d(2) by (auto simp: is_abs_Cons)
  let ?j = "path_join [path_dir target, name]"
  have "is_abs ?j" using path_join2(1) [OF dne] d(2) by simp
  then have "new_path = path_clean ?j" using assms(6) by (simp add: path_abs_def)
  then have np: "norm_parts new_path = norm_parts ?j" by simp
  have "norm_parts ?j = norm_parts (path_dir target) @ (if name = ''/'' then [] else [name])"
  proof (cases "name = ''/''")
    case slash: True
    have "path_parts ''/'' = [[], []]" by simp
    then show ?thesis using path_join2(2) [OF dne, of name] slash by simp
  next
    case False
    then have "CHR ''/'' \<notin> set name" using assms(5) by (intro base_part) (auto simp: bad_local_name_def)
    then have "part name" "name \<noteq> ''..''" using assms(5) by (auto simp: part_def bad_local_name_def)
    then show ?thesis using join_part [OF dne] False by simp
  qed
  then show ?thesis using n(2,3) np d(1) by (simp add: renamed_in_place_def)
next
  case False
  then show ?thesis using path_rel_under(3) [OF assms(7,8)] by (simp add: renamed_in_place_def)
qed

lemma local_operation_inside:
  assumes "local_base rt dir s = Some base" "rt_open rt base s"
    and "path_clean target = target \<or> target = []" "path_rel base target = Some rel" "\<not> escapes rel"
    and "norm_parts rel = [] \<Longrightarrow> fa_action req \<noteq> ''delete'' \<and> fa_action req \<noteq> ''rename''"
  shows "snd (local_operation rt base target rel req s) = s
    \<or> action_inside rt dir req s (snd (local_operation rt base target rel req s))"
proof -
  have local: "is_local rel" by (rule path_rel_under(3) [OF assms(4,5)])
  consider "fa_action req = ''delete''" | "fa_action req = ''rename''" | "fa_action req = ''mkdir''"
    | "fa_action req \<noteq> ''delete''" "fa_action req \<noteq> ''rename''" "fa_action req \<noteq> ''mkdir''"
    by argo
  then show ?thesis
  proof cases
    case 1
    then have "norm_parts rel \<noteq> []" using assms(6) by auto
    then show ?thesis
      using 1 local assms(1,2) by (simp add: local_operation_def action_inside_def) blast
  next
    case 2
    then have ne: "norm_parts rel \<noteq> []" using assms(6) by auto
    show ?thesis
    proof (cases "snd (local_operation rt base target rel req s) = s")
      case False
      then obtain new_path new_rel where ok: "\<not> bad_local_name (fa_new_name req)"
        "path_abs (rt_cwd rt) (path_join [path_dir target, fa_new_name req]) = Some new_path"
        "path_rel base new_path = Some new_rel" "\<not> escapes new_rel"
        "local_operation rt base target rel req s = act_reply (rt_rename rt base rel new_rel s)"
        using 2 by (auto simp: local_operation_def split: if_splits option.splits)
      have "renamed_in_place base rel (fa_new_name req) new_rel"
        by (rule rename_in_place [OF assms(3-5) ne ok(1-4)])
      then show ?thesis
        using 2 ne local assms(1,2) ok(5) by (simp add: action_inside_def) blast
    qed simp
  next
    case 3
    then show ?thesis
      using local assms(1,2) by (simp add: local_operation_def action_inside_def) blast
  next
    case 4
    then show ?thesis by (simp add: local_operation_def)
  qed
qed


subsection \<open>Symbolic links\<close>

text \<open>
  When the local directory is reached through a symbolic link, no directory can be created
  in it: the new path does not exist, so it is compared unresolved with the resolved directory
  and refused as a traversal.
\<close>

theorem mkdir_fails_behind_symlink:
  assumes "is_abs dir" "eval_symlinks rt (path_clean dir) s = Some base"
    and "fa_action req = ''mkdir''" "part (fa_path req)" "fa_path req \<noteq> ''..''"
    and "\<not> under (norm_parts base) (norm_parts dir @ [fa_path req])"
    and "eval_symlinks rt (path_clean (path_join [dir, fa_path req])) s = None"
  shows "local_action rt dir req s = (LocalStatus 401, s)"
proof -
  have ne: "dir \<noteq> []" using assms(1) by (auto simp: is_abs_Cons)
  let ?j = "path_join [dir, fa_path req]"
  have j: "is_abs ?j" "norm_parts ?j = norm_parts dir @ [fa_path req]"
    using path_join2(1) [OF ne] join_part [OF ne assms(4,5)] assms(1) by simp_all
  have "\<not> contained base (path_clean ?j)"
    using j(2) assms(6) by (simp add: contained_iff)
  then have "path_rel base (path_clean ?j) = None \<or> (\<exists>r. path_rel base (path_clean ?j) = Some r \<and> escapes r)"
    by (auto simp: contained_def split: option.splits)
  then show ?thesis
    using assms(1,2,7) j(1)
    by (auto simp: local_action_def path_abs_def eval_or_empty_def eval_or_same_def)
qed

text \<open>A file system of paths, with links that stand for other paths.\<close>

record tiny_fs =
  ty_paths :: "string list"
  ty_links :: "(string \<times> string) list"

definition beneath :: "string \<Rightarrow> string \<Rightarrow> bool" where
  "beneath d p \<longleftrightarrow> p = d \<or> has_prefix p (d @ ''/'')"

definition tiny_walk :: "string \<Rightarrow> tiny_fs \<Rightarrow> string option" where
  "tiny_walk p s =
     (let q = (case find (\<lambda>(l, t). beneath l p) (ty_links s) of
          None \<Rightarrow> p
        | Some (l, t) \<Rightarrow> t @ drop (length l) p)
      in if q \<in> set (ty_paths s) then Some q else None)"

definition tiny_ops :: "tiny_fs root_ops" where
  "tiny_ops = \<lparr>rt_cwd = Some ''/'', rt_walk = tiny_walk, rt_open = (\<lambda>b s. b \<in> set (ty_paths s)),
     rt_read_dir = (\<lambda>_ _ _. None), rt_open_file = (\<lambda>_ _ _. None),
     rt_stat = (\<lambda>b r s. tiny_walk (path_join [b, r]) s \<noteq> None),
     rt_remove_all = (\<lambda>b r s. (True, s\<lparr>ty_paths := filter (\<lambda>p. \<not> beneath (path_join [b, r]) p) (ty_paths s)\<rparr>)),
     rt_rename = (\<lambda>_ _ _ s. (False, s)),
     rt_mkdir_all = (\<lambda>b r s. (True, s\<lparr>ty_paths := path_join [b, r] # ty_paths s\<rparr>))\<rparr>"

definition plain_action :: "string \<Rightarrow> string \<Rightarrow> file_action_request" where
  "plain_action action p = \<lparr>fa_action = action, fa_path = p, fa_new_name = [], fa_config = zero_request\<rparr>"

theorem mkdir_fails_behind_symlink_witness:
  "let s = \<lparr>ty_paths = [''/mnt/disk''], ty_links = [(''/data'', ''/mnt/disk'')]\<rparr> in
    local_action tiny_ops ''/data'' (plain_action ''mkdir'' ''new'') s = (LocalStatus 401, s)"
proof -
  let ?s = "\<lparr>ty_paths = [''/mnt/disk''], ty_links = [(''/data'', ''/mnt/disk'')]\<rparr>"
  and ?r = "plain_action ''mkdir'' ''new''"
  have t: "is_abs ''/data''" "eval_symlinks tiny_ops (path_clean ''/data'') ?s = Some ''/mnt/disk''"
    "fa_action ?r = ''mkdir''" "part (fa_path ?r)" "fa_path ?r \<noteq> ''..''"
    "\<not> under (norm_parts ''/mnt/disk'') (norm_parts ''/data'' @ [fa_path ?r])"
    "eval_symlinks tiny_ops (path_clean (path_join [''/data'', fa_path ?r])) ?s = None"
    by code_simp+
  show ?thesis unfolding Let_def by (rule mkdir_fails_behind_symlink [OF t])
qed

text \<open>
  Deleting a symbolic link inside the local directory deletes what it points to: the path is
  resolved before it is removed, so the link stays and the other directory is gone.
\<close>

theorem delete_follows_links:
  "local_action tiny_ops ''/data'' (plain_action ''delete'' ''latest'')
     \<lparr>ty_paths = [''/data'', ''/data/2024'', ''/data/2024/film.mkv'', ''/data/2025''],
      ty_links = [(''/data/latest'', ''/data/2024'')]\<rparr>
   = (LocalOk, \<lparr>ty_paths = [''/data'', ''/data/2025''], ty_links = [(''/data/latest'', ''/data/2024'')]\<rparr>)"
  by code_simp

end
