(* ===== verification/Host_Security.thy ===== *)
theory Host_Security
  imports Go_Net Local_Files Remote_Path
begin

text \<open>
  What stands between a request and a remote host: \<open>internal/sftpclient/security.go\<close> (private
  keys, host keys, dial targets, the messages shown for errors) and \<open>tunable\<close>, \<open>Connect\<close> and
  \<open>Close\<close> of \<open>internal/sftpclient/client.go\<close>.

  Parameters are the parser of private keys, the \<open>known_hosts\<close> library and the SSH handshake of
  \<open>golang.org/x/crypto\<close>, the SFTP session of \<open>pkg/sftp\<close>, and the network. Errors are the
  sentinels of the package, which survive wrapping with \<open>%w\<close>, or a text.
\<close>

datatype conn_error =
    HostKeyRequired | HostKeyUnknown | HostKeyMismatch | PrivateKeyError | NoAuthMethods
  | DialTargetDenied | OtherError string

subsection \<open>Private keys\<close>

record key_store =
  ks_dir :: string
  ks_cwd :: "string option"
  ks_read :: "string \<Rightarrow> string \<Rightarrow> string option"

definition key_name :: "key_store \<Rightarrow> string \<Rightarrow> string option" where
  "key_name ks key_path =
     (if is_abs key_path then
        (case path_abs (ks_cwd ks) (ks_dir ks) of None \<Rightarrow> None | Some d \<Rightarrow> path_rel d key_path)
      else Some key_path)"

definition load_private_key :: "key_store \<Rightarrow> string \<Rightarrow> conn_error + string" where
  "load_private_key ks key_path =
     (if ks_dir ks = [] then Inl PrivateKeyError
      else
        (case key_name ks key_path of
           None \<Rightarrow> Inl PrivateKeyError
         | Some name \<Rightarrow>
             if \<not> is_local name then Inl PrivateKeyError
             else (case ks_read ks (ks_dir ks) name of
                 None \<Rightarrow> Inl PrivateKeyError
               | Some data \<Rightarrow> Inr data)))"

subsection \<open>Host keys\<close>

text \<open>The verdict of the library on a host key: the listed key, another key than the listed one, or no entry.\<close>

datatype key_verdict = KeyListed | KeyDiffers | KeyUnlisted | KeyError string

record known_hosts_lib =
  kl_load :: "string \<Rightarrow> bool"
  kl_check :: "string \<Rightarrow> string \<Rightarrow> string \<Rightarrow> string \<Rightarrow> key_verdict"
  kl_line :: "string \<Rightarrow> string \<Rightarrow> string"

text \<open>What a call meets: whether the opens and the close succeed, and a short write.\<close>

record tofu_env =
  te_open :: bool
  te_append :: bool
  te_short_write :: "nat option"
  te_close :: bool

definition tofu_host_key ::
  "known_hosts_lib \<Rightarrow> tofu_env \<Rightarrow> bool \<Rightarrow> string \<Rightarrow> string \<Rightarrow> string \<Rightarrow> string option \<Rightarrow> conn_error option \<times> string option" where
  "tofu_host_key L e tofu hostname remote key kh =
     (if \<not> te_open e then (Some (OtherError ''failed to open known hosts''), kh)
      else
        let content = (case kh of None \<Rightarrow> [] | Some c \<Rightarrow> c) in
        if \<not> kl_load L content then (Some (OtherError ''failed to load known hosts''), Some content)
        else
          (case kl_check L content hostname remote key of
             KeyListed \<Rightarrow> (None, Some content)
           | KeyDiffers \<Rightarrow> (Some HostKeyMismatch, Some content)
           | KeyError err \<Rightarrow> (Some (OtherError err), Some content)
           | KeyUnlisted \<Rightarrow>
               if \<not> tofu then (Some HostKeyUnknown, Some content)
               else if \<not> te_append e then (Some (OtherError ''failed to pin host key''), Some content)
               else
                 let line = kl_line L hostname key @ [CHR 0x0A] in
                 (case te_short_write e of
                    Some n \<Rightarrow> (Some (OtherError ''failed to pin host key''), Some (content @ take n line))
                  | None \<Rightarrow>
                      (if te_close e then None else Some (OtherError ''failed to pin host key''),
                       Some (content @ line)))))"

subsection \<open>Dialing\<close>

definition allow_link_local :: "string \<Rightarrow> bool" where
  "allow_link_local var \<longleftrightarrow> to_lower var = ''true''"

definition check_dial_target :: "bool \<Rightarrow> string \<Rightarrow> conn_error option" where
  "check_dial_target allow address =
     (case split_host_port address of
        None \<Rightarrow> Some (OtherError ''missing port in address'')
      | Some host \<Rightarrow>
          (case parse_ip host of
             None \<Rightarrow> Some DialTargetDenied
           | Some ip \<Rightarrow>
               if ip_unspecified ip \<or> ip_multicast ip then Some DialTargetDenied
               else if (ip_link_local_unicast ip \<or> ip_link_local_multicast ip) \<and> \<not> allow
               then Some DialTargetDenied
               else None))"

text \<open>
  The dialer tries the addresses of a host in turn, each after \<open>Control\<close> has accepted it; the
  error is the first one. \<open>dial_one\<close> is the network's answer for an address.
\<close>

fun dial_serial ::
  "bool \<Rightarrow> (string \<Rightarrow> conn_error option) \<Rightarrow> string list \<Rightarrow> conn_error option \<Rightarrow> conn_error + string" where
  "dial_serial allow dial_one [] first =
     Inl (case first of None \<Rightarrow> OtherError ''missing address'' | Some e \<Rightarrow> e)"
| "dial_serial allow dial_one (a # as) first =
     (case (case check_dial_target allow a of Some e \<Rightarrow> Some e | None \<Rightarrow> dial_one a) of
        None \<Rightarrow> Inr a
      | Some e \<Rightarrow> dial_serial allow dial_one as (case first of None \<Rightarrow> Some e | Some f \<Rightarrow> Some f))"

subsection \<open>Connecting\<close>

datatype auth_method = AuthKey string | AuthPassword string

datatype host_key_policy = FixedKnownHosts string | AnyHostKey | TrustOnFirst string bool

text \<open>
  The surroundings of \<open>Connect\<close>: the key parser, the settings made at startup, the \<open>known_hosts\<close>
  file of a fixed path, the resolver, the network, the host key and the address the server
  presents, the rest of the handshake, and the start of the SFTP session.
\<close>

record connect_env =
  ce_keys :: key_store
  ce_parse_key :: "string \<Rightarrow> bool"
  ce_known_hosts_file :: string
  ce_trust_on_first :: bool
  ce_lib :: known_hosts_lib
  ce_fixed_file :: "string \<Rightarrow> string option"
  ce_tofu :: tofu_env
  ce_link_local_var :: string
  ce_resolve :: "string \<Rightarrow> conn_error + string list"
  ce_reach :: "string \<Rightarrow> conn_error option"
  ce_server_key :: "string \<Rightarrow> string"
  ce_handshake :: "string \<Rightarrow> string \<Rightarrow> auth_method list \<Rightarrow> conn_error option"
  ce_max_packet :: "string option"
  ce_max_requests :: "string option"
  ce_start_sftp :: "int \<Rightarrow> int \<Rightarrow> bool"

definition auth_methods :: "connect_env \<Rightarrow> sftp_client \<Rightarrow> conn_error + auth_method list" where
  "auth_methods e c =
     (let with_password = (\<lambda>ms.
        let ms' = (if sc_password c \<noteq> [] then ms @ [AuthPassword (sc_password c)] else ms)
        in if ms' = [] then Inl NoAuthMethods else Inr ms')
      in if sc_key_path c = [] then with_password []
         else (case load_private_key (ce_keys e) (sc_key_path c) of
             Inl err \<Rightarrow> Inl err
           | Inr key \<Rightarrow> if \<not> ce_parse_key e key then Inl PrivateKeyError else with_password [AuthKey key]))"

definition host_policy :: "connect_env \<Rightarrow> sftp_client \<Rightarrow> conn_error + host_key_policy" where
  "host_policy e c =
     (if sc_known_hosts_path c \<noteq> [] then
        (case ce_fixed_file e (sc_known_hosts_path c) of
           None \<Rightarrow> Inl (OtherError ''failed to load known hosts'')
         | Some content \<Rightarrow>
             if kl_load (ce_lib e) content then Inr (FixedKnownHosts content)
             else Inl (OtherError ''failed to load known hosts''))
      else if sc_skip_host_key_verification c then Inr AnyHostKey
      else if ce_known_hosts_file e \<noteq> [] then Inr (TrustOnFirst (ce_known_hosts_file e) (ce_trust_on_first e))
      else Inl HostKeyRequired)"

text \<open>The callback of a policy; \<open>kh\<close> is the known hosts file of the configuration.\<close>

definition check_host_key ::
  "connect_env \<Rightarrow> host_key_policy \<Rightarrow> string \<Rightarrow> string \<Rightarrow> string \<Rightarrow> string option \<Rightarrow> conn_error option \<times> string option" where
  "check_host_key e policy hostname remote key kh =
     (case policy of
        AnyHostKey \<Rightarrow> (None, kh)
      | FixedKnownHosts content \<Rightarrow>
          ((case kl_check (ce_lib e) content hostname remote key of
              KeyListed \<Rightarrow> None
            | KeyDiffers \<Rightarrow> Some (OtherError ''knownhosts: key mismatch'')
            | KeyUnlisted \<Rightarrow> Some (OtherError ''knownhosts: key is unknown'')
            | KeyError err \<Rightarrow> Some (OtherError err)), kh)
      | TrustOnFirst path tofu \<Rightarrow> tofu_host_key (ce_lib e) (ce_tofu e) tofu hostname remote key kh)"

definition default_max_packet :: int where "default_max_packet = 32768"
definition max_packet_ceiling :: int where "max_packet_ceiling = 128 * 1024"
definition default_max_requests :: int where "default_max_requests = 128"

definition tunable :: "string option \<Rightarrow> int \<Rightarrow> int \<Rightarrow> int \<Rightarrow> int" where
  "tunable raw fallback lo hi =
     (case raw of
        None \<Rightarrow> fallback
      | Some r \<Rightarrow>
          (case atoi r of
             Inl _ \<Rightarrow> fallback
           | Inr v \<Rightarrow> if v < lo \<or> v > hi then fallback else v))"

definition transport_limits :: "connect_env \<Rightarrow> int \<times> int" where
  "transport_limits e =
     (tunable (ce_max_packet e) default_max_packet 1024 max_packet_ceiling,
      tunable (ce_max_requests e) default_max_requests 1 1024)"

text \<open>\<open>dialSSH\<close>: the guarded dial, then the handshake, which asks for the host key first.\<close>

definition dial_ssh ::
  "connect_env \<Rightarrow> host_key_policy \<Rightarrow> auth_method list \<Rightarrow> string \<Rightarrow> string option \<Rightarrow> (conn_error + string) \<times> string option" where
  "dial_ssh e policy auth addr kh =
     (case ce_resolve e addr of
        Inl err \<Rightarrow> (Inl err, kh)
      | Inr addrs \<Rightarrow>
          (case dial_serial (allow_link_local (ce_link_local_var e)) (ce_reach e) addrs None of
             Inl err \<Rightarrow> (Inl err, kh)
           | Inr remote \<Rightarrow>
               (case check_host_key e policy addr remote (ce_server_key e remote) kh of
                  (Some err, kh') \<Rightarrow> (Inl err, kh')
                | (None, kh') \<Rightarrow>
                    (case ce_handshake e remote (ce_server_key e remote) auth of
                       Some err \<Rightarrow> (Inl err, kh')
                     | None \<Rightarrow> (Inr remote, kh')))))"

text \<open>The two connections a client holds, and the order in which \<open>Close\<close> closes them.\<close>

record connections =
  cn_ssh :: bool
  cn_sftp :: bool

definition connect ::
  "connect_env \<Rightarrow> sftp_client \<Rightarrow> connections \<Rightarrow> string option \<Rightarrow> conn_error option \<times> connections \<times> string option" where
  "connect e c cn kh =
     (case auth_methods e c of
        Inl err \<Rightarrow> (Some err, cn, kh)
      | Inr auth \<Rightarrow>
          (case host_policy e c of
             Inl err \<Rightarrow> (Some err, cn, kh)
           | Inr policy \<Rightarrow>
               (case dial_ssh e policy auth (join_host_port (sc_host c) (sc_port c)) kh of
                  (Inl err, kh') \<Rightarrow> (Some err, cn, kh')
                | (Inr _, kh') \<Rightarrow>
                    (case transport_limits e of
                       (max_packet, max_requests) \<Rightarrow>
                         if ce_start_sftp e max_packet max_requests
                         then (None, cn\<lparr>cn_ssh := True, cn_sftp := True\<rparr>, kh')
                         else (Some (OtherError ''failed to create sftp client''), cn\<lparr>cn_ssh := True\<rparr>, kh')))))"

datatype closed = ClosedTransport | ClosedSession

definition close_client :: "connections \<Rightarrow> closed list" where
  "close_client cn =
     (if cn_ssh cn then [ClosedTransport] else []) @ (if cn_sftp cn then [ClosedSession] else [])"

definition public_connect_error :: "conn_error \<Rightarrow> string" where
  "public_connect_error err =
     (case err of
        HostKeyMismatch \<Rightarrow> ''Host key verification failed: the server key does not match the pinned key''
      | HostKeyUnknown \<Rightarrow> ''Host key verification failed: the server key is not trusted''
      | HostKeyRequired \<Rightarrow> ''Host key verification required''
      | PrivateKeyError \<Rightarrow> ''Private key could not be loaded from the keys directory''
      | NoAuthMethods \<Rightarrow> ''No authentication methods available''
      | DialTargetDenied \<Rightarrow> ''Connection target is not allowed''
      | OtherError text \<Rightarrow>
          if contains_str text ''unable to authenticate'' then ''Authentication failed'' else ''Connection failed'')"

subsection \<open>Keys are only read inside the keys directory\<close>

lemma clean_parts_bottom:
  "out \<noteq> [] \<Longrightarrow> last out = ''..'' \<Longrightarrow> ''..'' \<in> set (clean_parts False out cs)"
proof (induction cs arbitrary: out)
  case (Cons c cs)
  have tl: "tl out \<noteq> [] \<and> last (tl out) = ''..''" if "hd out \<noteq> ''..''"
    using Cons.prems that by (cases out) (auto split: if_splits)
  have push: "x # out \<noteq> []" "last (x # out) = ''..''" for x
    using Cons.prems by simp_all
  show ?case
    using Cons.IH [of out] Cons.IH [of "tl out"] Cons.IH [OF push] Cons.prems tl by simp
next
  case Nil
  then show ?case using last_in_set [of out] by simp
qed

text \<open>A path that starts with a step up still has one when it is cleaned.\<close>

lemma escapes_norm:
  assumes "escapes p"
  shows "''..'' \<in> set (norm_parts p)"
proof -
  obtain ws where ws: "path_parts p = ''..'' # ws" and rel: "\<not> is_abs p"
  proof (cases "p = ''..''")
    case True
    then show thesis using that [of "[]"] by (simp add: is_abs_def has_prefix_def)
  next
    case False
    then obtain r where "p = ''..'' @ CHR ''/'' # r" using assms by (auto simp: escapes_def has_prefix_iff)
    then show thesis
      using that [of "path_parts r"] by (simp add: is_abs_def has_prefix_def)
  qed
  have "norm_parts p = clean_parts False [''..''] ws" unfolding norm_parts_def ws using rel by simp
  then show ?thesis using clean_parts_bottom [of "[''..'']" ws] by simp
qed

text \<open>
  C31. A private key is only ever read from inside the configured directory: whatever path the
  request names, the file that is read has a local name below it; an absolute path is accepted
  only when it continues the absolute path of that directory; and every refusal is the same error.
\<close>

theorem private_key_confined:
  "(case load_private_key ks key_path of
      Inl err \<Rightarrow> err = PrivateKeyError
    | Inr data \<Rightarrow>
        (\<exists>name. is_local name \<and> ks_dir ks \<noteq> [] \<and> ks_read ks (ks_dir ks) name = Some data
          \<and> (name = key_path \<or> (\<exists>d. path_abs (ks_cwd ks) (ks_dir ks) = Some d \<and> is_abs key_path
                \<and> norm_parts key_path = norm_parts d @ norm_parts name))))"
proof (cases "ks_dir ks = [] \<or> key_name ks key_path = None")
  case True
  then show ?thesis by (auto simp: load_private_key_def)
next
  case False
  then obtain name where dir: "ks_dir ks \<noteq> []" and name: "key_name ks key_path = Some name" by auto
  show ?thesis
  proof (cases "is_local name")
    case True
    have up: "\<not> escapes name" using True escapes_norm [of name] by (auto simp: is_local_parts)
    show ?thesis
    proof (cases "is_abs key_path")
      case abs: True
      then obtain d where d: "path_abs (ks_cwd ks) (ks_dir ks) = Some d" "path_rel d key_path = Some name"
        using name by (auto simp: key_name_def split: option.splits)
      have "norm_parts key_path = norm_parts d @ norm_parts name"
        by (rule path_rel_under(2) [OF d(2) up])
      then show ?thesis using True name dir d abs by (auto simp: load_private_key_def split: option.splits)
    next
      case False
      then have "name = key_path" using name by (simp add: key_name_def)
      then show ?thesis using True name dir by (auto simp: load_private_key_def split: option.splits)
    qed
  qed (use dir name in \<open>simp add: load_private_key_def\<close>)
qed

subsection \<open>Trust on first use\<close>

text \<open>
  What the library documents, for a file whose last line is complete: after the line of an
  unlisted host is appended, that host is listed with exactly that key, and the verdicts on
  hosts that were listed before do not change.
\<close>

definition full_lines :: "string \<Rightarrow> bool" where
  "full_lines c \<longleftrightarrow> c = [] \<or> last c = CHR 0x0A"

definition listed :: "known_hosts_lib \<Rightarrow> string \<Rightarrow> string \<Rightarrow> string \<Rightarrow> bool" where
  "listed L c h k \<longleftrightarrow> kl_load L c \<and>
     (\<forall>r k'. kl_check L c h r k' = (if k' = k then KeyListed else KeyDiffers))"

definition kh_laws :: "known_hosts_lib \<Rightarrow> bool" where
  "kh_laws L \<longleftrightarrow>
     (\<forall>c h r k. full_lines c \<longrightarrow> kl_load L c \<longrightarrow> kl_check L c h r k = KeyUnlisted \<longrightarrow>
        listed L (c @ kl_line L h k @ [CHR 0x0A]) h k
        \<and> (\<forall>h' k'. listed L c h' k' \<longrightarrow> listed L (c @ kl_line L h k @ [CHR 0x0A]) h' k'))"

text \<open>A connection attempt to a host from some address with some key, in its surroundings.\<close>

type_synonym attempt = "tofu_env \<times> bool \<times> string \<times> string \<times> string"

fun host_key_calls :: "known_hosts_lib \<Rightarrow> attempt list \<Rightarrow> string option \<Rightarrow> string option" where
  "host_key_calls L [] kh = kh"
| "host_key_calls L ((e, tofu, h, r, k) # as) kh = host_key_calls L as (snd (tofu_host_key L e tofu h r k kh))"

definition no_short_write :: "attempt \<Rightarrow> bool" where
  "no_short_write a \<longleftrightarrow> te_short_write (fst a) = None"

definition file_content :: "string option \<Rightarrow> string" where
  "file_content kh = (case kh of None \<Rightarrow> [] | Some c \<Rightarrow> c)"

lemma tofu_content:
  "file_content (snd (tofu_host_key L e tofu h r k kh)) =
     (if te_open e \<and> kl_load L (file_content kh) \<and> kl_check L (file_content kh) h r k = KeyUnlisted \<and> tofu \<and> te_append e
      then file_content kh @ (case te_short_write e of Some n \<Rightarrow> take n (kl_line L h k @ [CHR 0x0A])
                                | None \<Rightarrow> kl_line L h k @ [CHR 0x0A])
      else file_content kh)"
  by (auto simp: tofu_host_key_def file_content_def Let_def split: key_verdict.splits option.splits)

lemma tofu_verdict:
  assumes "te_open e" "kl_load L (file_content kh)"
  shows "kl_check L (file_content kh) h r k = KeyListed \<Longrightarrow> fst (tofu_host_key L e tofu h r k kh) = None"
    and "kl_check L (file_content kh) h r k = KeyDiffers \<Longrightarrow> fst (tofu_host_key L e tofu h r k kh) = Some HostKeyMismatch"
  using assms by (simp_all add: tofu_host_key_def Let_def file_content_def)

lemma tofu_keeps:
  assumes "kh_laws L" "full_lines (file_content kh)" "listed L (file_content kh) h k" "te_short_write e = None"
  shows "full_lines (file_content (snd (tofu_host_key L e tofu h' r' k' kh)))
    \<and> listed L (file_content (snd (tofu_host_key L e tofu h' r' k' kh))) h k"
proof (cases "te_open e \<and> kl_load L (file_content kh) \<and> kl_check L (file_content kh) h' r' k' = KeyUnlisted \<and> tofu \<and> te_append e")
  case True
  then have "listed L (file_content kh @ kl_line L h' k' @ [CHR 0x0A]) h k"
    using assms(1-3) unfolding kh_laws_def by blast
  with True assms(4) show ?thesis by (simp add: tofu_content full_lines_def)
next
  case False
  then have "file_content (snd (tofu_host_key L e tofu h' r' k' kh)) = file_content kh"
    unfolding tofu_content by (rule if_not_P)
  then show ?thesis using assms(2,3) by simp
qed

lemma calls_keep:
  assumes "kh_laws L" "list_all no_short_write as" "full_lines (file_content kh)" "listed L (file_content kh) h k"
  shows "full_lines (file_content (host_key_calls L as kh)) \<and> listed L (file_content (host_key_calls L as kh)) h k"
  using assms(2-)
proof (induction as arbitrary: kh)
  case (Cons a as)
  obtain e tofu h' r' k' where a: "a = (e, tofu, h', r', k')" by (cases a)
  then have "te_short_write e = None" using Cons.prems by (simp add: no_short_write_def)
  from tofu_keeps [OF assms(1) Cons.prems(2,3) this, of tofu h' r' k'] show ?case
    using Cons.IH Cons.prems(1) by (simp add: a)
qed simp


text \<open>A small library: a line is the host, a blank and the key.\<close>

definition file_lines :: "string \<Rightarrow> string list" where
  "file_lines c = filter (\<lambda>l. l \<noteq> []) (split_on (CHR 0x0A) c)"

definition plain_host :: "string \<Rightarrow> bool" where
  "plain_host h \<longleftrightarrow> h \<noteq> [] \<and> CHR '' '' \<notin> set h \<and> CHR 0x0A \<notin> set h"

definition host_entries :: "string \<Rightarrow> (string \<times> string) list" where
  "host_entries c = map (\<lambda>l. (takeWhile (\<lambda>x. x \<noteq> CHR '' '') l, drop 1 (dropWhile (\<lambda>x. x \<noteq> CHR '' '') l))) (file_lines c)"

definition plain_lib :: known_hosts_lib where
  "plain_lib = \<lparr>kl_load = (\<lambda>_. True),
     kl_check = (\<lambda>c h r k.
       if \<not> plain_host h then KeyError ''bad host''
       else (case map_of (host_entries c) h of
           Some k0 \<Rightarrow> if k = k0 then KeyListed else KeyDiffers
         | None \<Rightarrow> if CHR 0x0A \<in> set k then KeyError ''bad key'' else KeyUnlisted)),
     kl_line = (\<lambda>h k. h @ '' '' @ k)\<rparr>"

lemma file_lines_append:
  assumes "full_lines c" "CHR 0x0A \<notin> set l" "l \<noteq> []"
  shows "file_lines (c @ l @ [CHR 0x0A]) = file_lines c @ [l]"
proof (cases "c = []")
  case True
  then show ?thesis using assms by (simp add: file_lines_def split_on_append_sep split_on_clean)
next
  case False
  then obtain d where c: "c = d @ [CHR 0x0A]"
    using assms(1) by (cases c rule: rev_cases) (auto simp: full_lines_def)
  then show ?thesis using assms by (simp add: file_lines_def split_on_append_sep split_on_clean)
qed

lemma host_entries_append:
  assumes "full_lines c" "plain_host h" "CHR 0x0A \<notin> set k"
  shows "host_entries (c @ (h @ '' '' @ k) @ [CHR 0x0A]) = host_entries c @ [(h, k)]"
proof -
  have "takeWhile (\<lambda>x. x \<noteq> CHR '' '') (h @ '' '' @ k) = h" "dropWhile (\<lambda>x. x \<noteq> CHR '' '') (h @ '' '' @ k) = '' '' @ k"
    using assms(2) by (auto simp: plain_host_def takeWhile_append dropWhile_append)
  moreover have "file_lines (c @ (h @ '' '' @ k) @ [CHR 0x0A]) = file_lines c @ [h @ '' '' @ k]"
    using assms by (intro file_lines_append) (auto simp: plain_host_def)
  ultimately show ?thesis by (simp add: host_entries_def)
qed

lemma plain_listed: "listed plain_lib c h k \<longleftrightarrow> plain_host h \<and> map_of (host_entries c) h = Some k"
proof
  assume l: "listed plain_lib c h k"
  then have "kl_check plain_lib c h [] k = KeyListed" by (simp add: listed_def)
  then show "plain_host h \<and> map_of (host_entries c) h = Some k"
    by (auto simp: plain_lib_def split: if_splits option.splits)
qed (simp add: listed_def plain_lib_def)

lemma plain_lib_laws: "kh_laws plain_lib"
proof (unfold kh_laws_def, intro allI impI)
  fix c h r k
  assume c: "full_lines c" "kl_check plain_lib c h r k = KeyUnlisted"
  then have h: "plain_host h" "map_of (host_entries c) h = None" "CHR 0x0A \<notin> set k"
    by (auto simp: plain_lib_def split: if_splits option.splits)
  have "host_entries (c @ kl_line plain_lib h k @ [CHR 0x0A]) = host_entries c @ [(h, k)]"
    using host_entries_append [OF c(1) h(1,3)] by (simp add: plain_lib_def)
  then show "listed plain_lib (c @ kl_line plain_lib h k @ [CHR 0x0A]) h k
    \<and> (\<forall>h' k'. listed plain_lib c h' k' \<longrightarrow> listed plain_lib (c @ kl_line plain_lib h k @ [CHR 0x0A]) h' k')"
    using h(1,2) by (simp add: plain_listed map_add_def)
qed

definition good_tofu :: tofu_env where
  "good_tofu = \<lparr>te_open = True, te_append = True, te_short_write = None, te_close = True\<rparr>"


text \<open>
  A known hosts file whose last line was edited by hand and is not terminated is damaged by
  the next pin: the new entry is appended to that line, so neither the entry that stood there nor
  the new one is a line of the file any more.
\<close>

theorem pin_joins_unterminated_line:
  assumes "te_open e" "te_append e" "te_short_write e = None" "te_close e"
    and "kl_load L (before @ CHR 0x0A # entry)" "kl_check L (before @ CHR 0x0A # entry) h r k = KeyUnlisted"
    and "CHR 0x0A \<notin> set entry" "entry \<noteq> []" "CHR 0x0A \<notin> set (kl_line L h k)" "kl_line L h k \<noteq> []"
    and "tofu_host_key L e True h r k (Some (before @ CHR 0x0A # entry)) = (res, kh')"
  shows "res = None \<and> file_lines (file_content kh') = file_lines before @ [entry @ kl_line L h k]"
proof -
  have run: "tofu_host_key L e True h r k (Some (before @ CHR 0x0A # entry)) =
    (None, Some ((before @ [CHR 0x0A]) @ (entry @ kl_line L h k) @ [CHR 0x0A]))"
    using assms(1-6) by (simp add: tofu_host_key_def)
  have "file_lines ((before @ [CHR 0x0A]) @ (entry @ kl_line L h k) @ [CHR 0x0A]) = file_lines (before @ [CHR 0x0A]) @ [entry @ kl_line L h k]"
    using assms(7-9) by (intro file_lines_append) (auto simp: full_lines_def)
  moreover have "file_lines (before @ [CHR 0x0A]) = file_lines before"
    by (simp add: file_lines_def split_on_append_sep)
  ultimately show ?thesis using run assms(11) by (simp add: file_content_def)
qed

theorem pin_joins_unterminated_line_witness:
  "tofu_host_key plain_lib good_tofu True ''web:22'' ''10.0.0.6:22'' ''KEY-C'' (Some ''db:22 KEY-B\<newline>nas:22 KEY-A'')
     = (None, Some ''db:22 KEY-B\<newline>nas:22 KEY-Aweb:22 KEY-C\<newline>'')
   \<and> file_lines ''db:22 KEY-B\<newline>nas:22 KEY-Aweb:22 KEY-C\<newline>'' = [''db:22 KEY-B'', ''nas:22 KEY-Aweb:22 KEY-C'']"
proof -
  let ?b = "''db:22 KEY-B''" and ?n = "''nas:22 KEY-A''"
  have c: "?b @ CHR 0x0A # ?n = ''db:22 KEY-B\<newline>nas:22 KEY-A''" by simp
  have run: "tofu_host_key plain_lib good_tofu True ''web:22'' ''10.0.0.6:22'' ''KEY-C'' (Some (?b @ CHR 0x0A # ?n))
     = (None, Some ''db:22 KEY-B\<newline>nas:22 KEY-Aweb:22 KEY-C\<newline>'')"
    by code_simp
  have t: "te_open good_tofu" "te_append good_tofu" "te_short_write good_tofu = None" "te_close good_tofu"
    "kl_load plain_lib (?b @ CHR 0x0A # ?n)"
    "kl_check plain_lib (?b @ CHR 0x0A # ?n) ''web:22'' ''10.0.0.6:22'' ''KEY-C'' = KeyUnlisted"
    "CHR 0x0A \<notin> set ?n" "?n \<noteq> []" "CHR 0x0A \<notin> set (kl_line plain_lib ''web:22'' ''KEY-C'')"
    "kl_line plain_lib ''web:22'' ''KEY-C'' \<noteq> []"
    by code_simp+
  have l: "file_lines ?b @ [?n @ kl_line plain_lib ''web:22'' ''KEY-C''] = [''db:22 KEY-B'', ''nas:22 KEY-Aweb:22 KEY-C'']"
    by code_simp
  from pin_joins_unterminated_line [OF t run] run l c show ?thesis by (simp add: file_content_def)
qed

subsection \<open>Which addresses are dialed\<close>

definition target_allowed :: "bool \<Rightarrow> string \<Rightarrow> bool" where
  "target_allowed allow address \<longleftrightarrow>
     (\<exists>host ip. split_host_port address = Some host \<and> parse_ip host = Some ip
        \<and> \<not> ip_unspecified ip \<and> \<not> ip_multicast ip
        \<and> (allow \<or> \<not> ip_link_local_unicast ip \<and> \<not> ip_link_local_multicast ip))"

lemma check_dial_iff: "check_dial_target allow a = None \<longleftrightarrow> target_allowed allow a"
  by (auto simp: check_dial_target_def target_allowed_def split: option.splits)

lemma dial_serial_allowed: "dial_serial allow f as first = Inr a \<Longrightarrow> a \<in> set as \<and> target_allowed allow a \<and> f a = None"
proof (induction as arbitrary: first)
  case (Cons b as)
  show ?case
  proof (cases "check_dial_target allow b")
    case None
    then have "target_allowed allow b" by (simp add: check_dial_iff)
    then show ?thesis using Cons None by (cases "f b") auto
  next
    case (Some e)
    then show ?thesis using Cons by auto
  qed
qed simp

text \<open>
  C25. A successful connection ends at an address the resolver gave that is neither unspecified nor
  multicast, nor link-local unless allowed; it offered at least one way to authenticate; and the
  host key was accepted, unless the request skips the verification and no file is configured for
  the client. Both parts of the connection are open.
\<close>

theorem connect_is_verified:
  assumes "connect e c cn kh = (None, cn', kh')"
  shows "\<exists>auth policy remote addrs.
    auth_methods e c = Inr auth \<and> auth \<noteq> [] \<and> host_policy e c = Inr policy
    \<and> ce_resolve e (join_host_port (sc_host c) (sc_port c)) = Inr addrs \<and> remote \<in> set addrs
    \<and> target_allowed (allow_link_local (ce_link_local_var e)) remote
    \<and> check_host_key e policy (join_host_port (sc_host c) (sc_port c)) remote (ce_server_key e remote) kh = (None, kh')
    \<and> (policy \<noteq> AnyHostKey \<or> sc_skip_host_key_verification c \<and> sc_known_hosts_path c = [])
    \<and> cn_ssh cn' \<and> cn_sftp cn'"
proof -
  let ?addr = "join_host_port (sc_host c) (sc_port c)"
  obtain auth where auth: "auth_methods e c = Inr auth"
    using assms by (auto simp: connect_def split: sum.splits)
  obtain policy where policy: "host_policy e c = Inr policy"
    using assms auth by (auto simp: connect_def split: sum.splits)
  obtain remote where dial: "dial_ssh e policy auth ?addr kh = (Inr remote, kh')" and open_cn: "cn_ssh cn'" "cn_sftp cn'"
    using assms auth policy by (auto simp: connect_def split: sum.splits prod.splits if_splits)
  obtain addrs where addrs: "ce_resolve e ?addr = Inr addrs"
    using dial by (auto simp: dial_ssh_def split: sum.splits)
  obtain remote' where serial: "dial_serial (allow_link_local (ce_link_local_var e)) (ce_reach e) addrs None = Inr remote'"
    using dial addrs by (auto simp: dial_ssh_def split: sum.splits)
  have key: "check_host_key e policy ?addr remote (ce_server_key e remote) kh = (None, kh')" and "remote' = remote"
    using dial addrs serial by (auto simp: dial_ssh_def split: prod.splits option.splits)
  have "auth \<noteq> []"
    using auth by (auto simp: auth_methods_def Let_def split: if_splits sum.splits)
  moreover have "policy \<noteq> AnyHostKey \<or> sc_skip_host_key_verification c \<and> sc_known_hosts_path c = []"
    using policy by (auto simp: host_policy_def split: if_splits option.splits)
  ultimately show ?thesis
    using auth policy addrs key dial_serial_allowed [OF serial] open_cn \<open>remote' = remote\<close> by auto
qed

definition demo_connect :: connect_env where
  "demo_connect = \<lparr>ce_keys = \<lparr>ks_dir = ''/config/keys'', ks_cwd = Some ''/'', ks_read = (\<lambda>_ _. None)\<rparr>,
     ce_parse_key = (\<lambda>_. True), ce_known_hosts_file = ''/config/known_hosts'', ce_trust_on_first = True,
     ce_lib = plain_lib, ce_fixed_file = (\<lambda>_. None), ce_tofu = good_tofu, ce_link_local_var = [],
     ce_resolve = (\<lambda>a. if a = ''nas:22'' then Inr [''169.254.1.1:22'', ''10.0.0.5:22''] else Inl (OtherError ''no such host'')),
     ce_reach = (\<lambda>_. None), ce_server_key = (\<lambda>_. ''KEY-A''), ce_handshake = (\<lambda>_ _ _. None),
     ce_max_packet = None, ce_max_requests = None, ce_start_sftp = (\<lambda>_ _. True)\<rparr>"

definition nas_client :: "sftp_client" where
  "nas_client = new_sftp_client (zero_request\<lparr>ur_host := ''nas'', ur_port := 22, ur_password := ''pw''\<rparr>)"

theorem connect_is_verified_witness:
  "connect demo_connect nas_client \<lparr>cn_ssh = False, cn_sftp = False\<rparr> None
     = (None, \<lparr>cn_ssh = True, cn_sftp = True\<rparr>, Some ''nas:22 KEY-A\<newline>'')
   \<and> \<not> target_allowed False ''169.254.1.1:22'' \<and> target_allowed False ''10.0.0.5:22''"
proof -
  have run: "connect demo_connect nas_client \<lparr>cn_ssh = False, cn_sftp = False\<rparr> None
     = (None, \<lparr>cn_ssh = True, cn_sftp = True\<rparr>, Some ''nas:22 KEY-A\<newline>'')"
    "ce_resolve demo_connect (join_host_port (sc_host nas_client) (sc_port nas_client)) = Inr [''169.254.1.1:22'', ''10.0.0.5:22'']"
    "allow_link_local (ce_link_local_var demo_connect) = False"
    by code_simp+
  have "check_dial_target False ''169.254.1.1:22'' = Some DialTargetDenied" by code_simp
  then have "\<not> target_allowed False ''169.254.1.1:22''" by (simp flip: check_dial_iff)
  moreover have "target_allowed False ''10.0.0.5:22''"
    using connect_is_verified [OF run(1)] run(2,3) \<open>\<not> target_allowed False ''169.254.1.1:22''\<close> by auto
  ultimately show ?thesis using run(1) by simp
qed

text \<open>
  The opt-in for link-local addresses does not reach IPv6: such an address is dialed with its
  zone, and an address with a zone is refused before the opt-in is looked at.
\<close>

theorem link_local_zone_denied:
  "check_dial_target allow ''[fe80::1%eth0]:22'' = Some DialTargetDenied
   \<and> check_dial_target True ''[fe80::1]:22'' = None \<and> check_dial_target False ''[fe80::1]:22'' = Some DialTargetDenied
   \<and> check_dial_target allow ''[::ffff:0.0.0.0]:22'' = Some DialTargetDenied
   \<and> check_dial_target False ''[::ffff:169.254.169.254]:80'' = Some DialTargetDenied"
proof -
  have c: "split_host_port ''[fe80::1%eth0]:22'' = Some ''fe80::1%eth0''" "parse_ip ''fe80::1%eth0'' = None"
    "split_host_port ''[::ffff:0.0.0.0]:22'' = Some ''::ffff:0.0.0.0''"
    "parse_ip ''::ffff:0.0.0.0'' = Some (v4_prefix @ [0, 0, 0, 0])" "ip_unspecified (v4_prefix @ [0, 0, 0, 0])"
    "check_dial_target True ''[fe80::1]:22'' = None" "check_dial_target False ''[fe80::1]:22'' = Some DialTargetDenied"
    "check_dial_target False ''[::ffff:169.254.169.254]:80'' = Some DialTargetDenied"
    by code_simp+
  then show ?thesis by (simp add: check_dial_target_def)
qed

subsection \<open>Transport limits and error messages\<close>

lemma tunable_range: "lo \<le> fallback \<Longrightarrow> fallback \<le> hi \<Longrightarrow> lo \<le> tunable raw fallback lo hi \<and> tunable raw fallback lo hi \<le> hi"
  by (auto simp: tunable_def split: option.splits sum.splits)

text \<open>
  Whatever the environment says, the SFTP session gets a packet size between 1 KiB and
  128 KiB and between 1 and 1024 requests per file, and a valid setting is used as it is.
\<close>

theorem transport_limits_bounded:
  "(case transport_limits e of (max_packet, max_requests) \<Rightarrow>
      1024 \<le> max_packet \<and> max_packet \<le> 131072 \<and> 1 \<le> max_requests \<and> max_requests \<le> 1024)
   \<and> transport_limits (e\<lparr>ce_max_packet := Some ''131072'', ce_max_requests := Some ''1''\<rparr>) = (131072, 1)"
proof -
  have "tunable (Some ''131072'') default_max_packet 1024 max_packet_ceiling = 131072"
    "tunable (Some ''1'') default_max_requests 1 1024 = 1"
    by (simp_all add: tunable_def atoi_def parse_uint_def digit_val_def max_uint64_def
        default_max_packet_def max_packet_ceiling_def)
  then show ?thesis
    using tunable_range [of 1024 default_max_packet max_packet_ceiling "ce_max_packet e"]
      tunable_range [of 1 default_max_requests 1024 "ce_max_requests e"]
    by (simp add: transport_limits_def default_max_packet_def max_packet_ceiling_def default_max_requests_def)
qed

text \<open>
  What a client is told about a failed connection is one of eight fixed messages: the text of an
  error only decides between the last two.
\<close>

lemma public_errors_fixed:
  "public_connect_error err \<in> public_connect_error ` {HostKeyRequired, HostKeyUnknown, HostKeyMismatch,
     PrivateKeyError, NoAuthMethods, DialTargetDenied, OtherError ''unable to authenticate'', OtherError []}"
proof -
  have e: "contains_str ''unable to authenticate'' ''unable to authenticate''" "\<not> contains_str [] ''unable to authenticate''"
    by code_simp+
  show ?thesis
  proof (cases err)
    case (OtherError t)
    with e show ?thesis by (simp add: public_connect_error_def)
  qed simp_all
qed

end
