(* ===== verification/Http_Api.thy ===== *)
theory Http_Api
  imports Sessions Queue_Ops Remote_Path Local_Files Host_Security
begin

text \<open>
  The HTTP interface: the wrapper around every route (\<open>internal/api/middleware.go\<close>), the routing
  of \<open>SetupApp\<close> and the handlers that are not modelled elsewhere (\<open>internal/api/server.go\<close>). One
  request is one function from the state of the application to a reply and a new state; it is
  composed of the functions of the other theories.

  A request carries what the handlers read: the parsed media type (None when
  \<open>mime.ParseMediaType\<close> fails), the host of the parsed \<open>Origin\<close>, the session cookie, and what its
  body decodes to as each of the types a handler may ask for, with the length of the JSON value.
\<close>

record request =
  rq_method :: string
  rq_path :: string
  rq_query_path :: string
  rq_cookie :: "string option"
  rq_media :: "string option"
  rq_sec_fetch_site :: string
  rq_origin :: string
  rq_origin_host :: "string option"
  rq_host :: string
  rq_remote_addr :: string
  rq_forwarded_for :: "string list"
  rq_length :: nat
  rq_password :: "string option"
  rq_upload :: "upload_request option"
  rq_action :: "file_action_request option"
  rq_control :: "(string \<times> string) option"

record ('s, 'r) app =
  ap_auth :: auth_state
  ap_queue :: queue_manager
  ap_files :: 's
  ap_remote :: 'r
  ap_known_hosts :: "string option"

record ('s, 'r) api_env =
  ae_config :: config
  ae_crypto :: crypto
  ae_save :: save_env
  ae_clock :: "nat \<Rightarrow> instant"
  ae_now1 :: instant
  ae_now2 :: instant
  ae_login :: login_env
  ae_stat :: "string \<Rightarrow> bool"
  ae_order :: "string list"
  ae_root :: "'s root_ops"
  ae_dirs :: "'r dir_ops"
  ae_connect :: connect_env

datatype api_reply =
    ApiStatus nat
  | ApiRedirect
  | ApiStatic
  | ApiPage string
  | ApiLogin login_reply
  | ApiAuthRequired bool
  | ApiLogs
  | ApiLocal local_reply
  | ApiRemote remote_reply
  | ApiConnectError string
  | ApiMessage string
  | ApiInvalidFiles "string list"
  | ApiRetriesRange
  | ApiTasks "task list"
  | ApiStats "host_stats list"

subsection \<open>Middleware\<close>

definition is_safe_method :: "string \<Rightarrow> bool" where
  "is_safe_method m \<longleftrightarrow> m = ''GET'' \<or> m = ''HEAD'' \<or> m = ''OPTIONS''"

definition max_json_body :: nat where "max_json_body = 2 ^ 20"
definition max_upload_body :: nat where "max_upload_body = 16 * 2 ^ 20"

text \<open>\<open>http.CrossOriginProtection\<close> without exemptions.\<close>

definition cross_origin :: "request \<Rightarrow> bool" where
  "cross_origin rq \<longleftrightarrow>
     \<not> is_safe_method (rq_method rq) \<and>
     (if rq_sec_fetch_site rq = [] then
        rq_origin rq \<noteq> [] \<and> rq_origin_host rq \<noteq> Some (rq_host rq)
      else rq_sec_fetch_site rq \<noteq> ''same-origin'' \<and> rq_sec_fetch_site rq \<noteq> ''none'')"

text \<open>The outcome of \<open>requireJSONBody\<close>: a refusal, or the limit on the body it passes on.\<close>

datatype json_gate = WrongMediaType | PassBody "nat option"

definition require_json_body :: "request \<Rightarrow> json_gate" where
  "require_json_body rq =
     (if is_safe_method (rq_method rq) \<or> \<not> has_prefix (rq_path rq) ''/api/'' then PassBody None
      else
        let limit = (if rq_path rq = ''/api/upload'' then max_upload_body else max_json_body) in
        if rq_path rq = ''/api/logout'' then PassBody (Some limit)
        else if rq_media rq \<noteq> Some ''application/json'' then WrongMediaType
        else PassBody (Some limit))"

text \<open>Decoding the body as one type: an error when it is not of that type or longer than the limit.\<close>

definition decode_body :: "nat option \<Rightarrow> request \<Rightarrow> (request \<Rightarrow> 'a option) \<Rightarrow> 'a option" where
  "decode_body limit rq as_type =
     (case limit of
        None \<Rightarrow> as_type rq
      | Some n \<Rightarrow> if rq_length rq > n then None else as_type rq)"

subsection \<open>Handlers of the queue\<close>

definition control_status :: "control_result \<Rightarrow> nat" where
  "control_status r =
     (case r of (success, err) \<Rightarrow>
        (case err of
           None \<Rightarrow> 200
         | Some msg \<Rightarrow> if \<not> success \<and> contains_str msg ''not found'' then 404 else 400))"

definition handle_queue ::
  "('s, 'r) api_env \<Rightarrow> nat option \<Rightarrow> request \<Rightarrow> ('s, 'r) app \<Rightarrow> api_reply \<times> ('s, 'r) app" where
  "handle_queue ae limit rq ap =
     (if rq_method rq = ''GET'' then (ApiTasks (get_tasks (ae_stat ae) (ap_queue ap)), ap)
      else if rq_method rq = ''POST'' then
        (case decode_body limit rq rq_control of
           None \<Rightarrow> (ApiStatus 400, ap)
         | Some (i, action) \<Rightarrow>
             (case control_task (ae_crypto ae) (ae_save ae) (ae_stat ae) i action (ap_queue ap) of
                (res, q) \<Rightarrow> (ApiStatus (control_status res), ap\<lparr>ap_queue := q\<rparr>)))
      else (ApiStatus 405, ap))"

definition handle_stats ::
  "('s, 'r) api_env \<Rightarrow> request \<Rightarrow> ('s, 'r) app \<Rightarrow> api_reply \<times> ('s, 'r) app" where
  "handle_stats ae rq ap =
     (if rq_method rq \<noteq> ''GET'' then (ApiStatus 405, ap)
      else (ApiStats (get_host_stats (ae_clock ae) (ae_order ae) (ap_queue ap)), ap))"

definition throttle_queue :: "upload_request \<Rightarrow> queue_manager \<Rightarrow> queue_manager" where
  "throttle_queue req q =
     update_host_limiter (ur_host req) (ur_rate_limit_kbps req) (ur_min_limit_kbps req) (ur_max_latency_ms req)
       (ur_concurrent_files req) q"

definition handle_throttle ::
  "nat option \<Rightarrow> request \<Rightarrow> ('s, 'r) app \<Rightarrow> api_reply \<times> ('s, 'r) app" where
  "handle_throttle limit rq ap =
     (case decode_body limit rq rq_upload of
        None \<Rightarrow> (ApiStatus 400, ap)
      | Some req \<Rightarrow> (ApiMessage ''Throttling updated'', ap\<lparr>ap_queue := throttle_queue req (ap_queue ap)\<rparr>))"

definition handle_upload ::
  "('s, 'r) api_env \<Rightarrow> nat option \<Rightarrow> request \<Rightarrow> ('s, 'r) app \<Rightarrow> api_reply \<times> ('s, 'r) app" where
  "handle_upload ae limit rq ap =
     (case decode_body limit rq rq_upload of
        None \<Rightarrow> (ApiStatus 400, ap)
      | Some req \<Rightarrow>
          if ur_max_retries req < 0 \<or> ur_max_retries req > max_retries_limit then (ApiRetriesRange, ap)
          else
            (case path_abs (rt_cwd (ae_root ae)) (cf_local_dir (ae_config ae)) of
               None \<Rightarrow> (ApiStatus 500, ap)
             | Some base \<Rightarrow>
                 if \<not> rt_open (ae_root ae) base (ap_files ap) then (ApiStatus 500, ap)
                 else
                   (case check_files (ae_root ae) base (ur_files req) (ap_files ap) of
                      (invalid, valid) \<Rightarrow>
                        if invalid \<noteq> [] then (ApiInvalidFiles invalid, ap)
                        else
                          (ApiMessage ''Tasks added to queue'',
                           if valid \<noteq> []
                           then ap\<lparr>ap_queue := add_tasks (ae_crypto ae) (ae_save ae) (ae_clock ae) valid req
                                    (throttle_queue req (ap_queue ap))\<rparr>
                           else ap))))"

subsection \<open>Handlers that connect\<close>

text \<open>Connecting for one request; the connection is closed when the handler returns.\<close>

definition with_client ::
  "('s, 'r) api_env \<Rightarrow> upload_request \<Rightarrow> (sftp_client \<Rightarrow> ('s, 'r) app \<Rightarrow> api_reply \<times> ('s, 'r) app)
     \<Rightarrow> ('s, 'r) app \<Rightarrow> api_reply \<times> ('s, 'r) app" where
  "with_client ae req f ap =
     (let c = new_sftp_client req in
      case connect (ae_connect ae) c \<lparr>cn_ssh = False, cn_sftp = False\<rparr> (ap_known_hosts ap) of
        (res, _, kh) \<Rightarrow>
          let ap' = ap\<lparr>ap_known_hosts := kh\<rparr> in
          (case res of
             Some err \<Rightarrow> (ApiConnectError (public_connect_error err), ap')
           | None \<Rightarrow> f (c\<lparr>sc_connected := True\<rparr>) ap'))"

definition handle_test_connection ::
  "('s, 'r) api_env \<Rightarrow> nat option \<Rightarrow> request \<Rightarrow> ('s, 'r) app \<Rightarrow> api_reply \<times> ('s, 'r) app" where
  "handle_test_connection ae limit rq ap =
     (case decode_body limit rq rq_upload of
        None \<Rightarrow> (ApiStatus 400, ap)
      | Some req \<Rightarrow> with_client ae req (\<lambda>c ap'. (ApiMessage ''Connection successful'', ap')) ap)"

definition serve_remote_files ::
  "('s, 'r) api_env \<Rightarrow> nat option \<Rightarrow> request \<Rightarrow> ('s, 'r) app \<Rightarrow> api_reply \<times> ('s, 'r) app" where
  "serve_remote_files ae limit rq ap =
     (case decode_body limit rq rq_upload of
        None \<Rightarrow> (ApiStatus 400, ap)
      | Some req \<Rightarrow>
          with_client ae req
            (\<lambda>c ap'. case handle_remote_files (ae_dirs ae) c req (rq_query_path rq) (ap_remote ap') of
                (reply, r) \<Rightarrow> (ApiRemote reply, ap'\<lparr>ap_remote := r\<rparr>)) ap)"

definition serve_remote_action ::
  "('s, 'r) api_env \<Rightarrow> nat option \<Rightarrow> request \<Rightarrow> ('s, 'r) app \<Rightarrow> api_reply \<times> ('s, 'r) app" where
  "serve_remote_action ae limit rq ap =
     (case decode_body limit rq rq_action of
        None \<Rightarrow> (ApiStatus 400, ap)
      | Some req \<Rightarrow>
          with_client ae (fa_config req)
            (\<lambda>c ap'. case handle_remote_action (ae_dirs ae) c req (ap_remote ap') of
                (reply, r) \<Rightarrow> (ApiRemote reply, ap'\<lparr>ap_remote := r\<rparr>)) ap)"

definition serve_local_action ::
  "('s, 'r) api_env \<Rightarrow> nat option \<Rightarrow> request \<Rightarrow> ('s, 'r) app \<Rightarrow> api_reply \<times> ('s, 'r) app" where
  "serve_local_action ae limit rq ap =
     (case decode_body limit rq rq_action of
        None \<Rightarrow> (ApiStatus 400, ap)
      | Some req \<Rightarrow>
          (case local_action (ae_root ae) (cf_local_dir (ae_config ae)) req (ap_files ap) of
             (reply, s) \<Rightarrow> (ApiLocal reply, ap\<lparr>ap_files := s\<rparr>)))"

subsection \<open>Routing\<close>

definition update_sessions :: "(session_table \<Rightarrow> 'a \<times> session_table) \<Rightarrow> ('s, 'r) app \<Rightarrow> 'a \<times> ('s, 'r) app" where
  "update_sessions f ap =
     (case f (au_sessions (ap_auth ap)) of
        (x, m) \<Rightarrow> (x, ap\<lparr>ap_auth := (ap_auth ap)\<lparr>au_sessions := m\<rparr>\<rparr>))"

text \<open>\<open>withAuth\<close>: the handler runs on the session table the check leaves behind.\<close>

definition guarded ::
  "('s, 'r) api_env \<Rightarrow> request \<Rightarrow> (('s, 'r) app \<Rightarrow> api_reply \<times> ('s, 'r) app) \<Rightarrow> ('s, 'r) app
     \<Rightarrow> api_reply \<times> ('s, 'r) app" where
  "guarded ae rq next_handler ap =
     (case update_sessions (with_auth (cf_auth_password (ae_config ae)) (ae_now1 ae) (ae_now2 ae) (rq_cookie rq)) ap of
        (ok, ap') \<Rightarrow> if ok then next_handler ap' else (ApiStatus 401, ap'))"

definition serve_login ::
  "('s, 'r) api_env \<Rightarrow> nat option \<Rightarrow> request \<Rightarrow> ('s, 'r) app \<Rightarrow> api_reply \<times> ('s, 'r) app" where
  "serve_login ae limit rq ap =
     (case login (cf_auth_password (ae_config ae)) (ae_login ae)
             (client_ip (rq_remote_addr rq) (rq_forwarded_for rq) (cf_trust_proxy (ae_config ae)))
             (decode_body limit rq rq_password) (ap_auth ap) of
        (reply, au) \<Rightarrow> (ApiLogin reply, ap\<lparr>ap_auth := au\<rparr>))"

definition route ::
  "('s, 'r) api_env \<Rightarrow> nat option \<Rightarrow> request \<Rightarrow> ('s, 'r) app \<Rightarrow> api_reply \<times> ('s, 'r) app" where
  "route ae limit rq ap =
     (let p = rq_path rq; cfg = ae_config ae in
      if has_prefix p ''/static/'' then (ApiStatic, ap)
      else if p = ''/static'' then (ApiRedirect, ap)
      else if p = ''/api/login'' then serve_login ae limit rq ap
      else if p = ''/api/auth/status'' then (ApiAuthRequired (cf_auth_password cfg \<noteq> []), ap)
      else if p = ''/api/logout'' then
        (case update_sessions (logout (rq_method rq) (rq_cookie rq)) ap of (st, ap') \<Rightarrow> (ApiStatus st, ap'))
      else if p = ''/api/logs'' then guarded ae rq (\<lambda>ap. (ApiLogs, ap)) ap
      else if p = ''/api/health'' then (ApiStatus 200, ap)
      else if p = ''/api/files'' then
        guarded ae rq (\<lambda>ap. (ApiLocal (list_local (ae_root ae) (cf_local_dir cfg) (rq_query_path rq) (ap_files ap)), ap)) ap
      else if p = ''/api/files/action'' then guarded ae rq (serve_local_action ae limit rq) ap
      else if p = ''/api/files/download'' then
        guarded ae rq (\<lambda>ap. (ApiLocal (download_local (ae_root ae) (cf_local_dir cfg) (rq_method rq) (rq_query_path rq) (ap_files ap)), ap)) ap
      else if p = ''/api/test-connection'' then guarded ae rq (handle_test_connection ae limit rq) ap
      else if p = ''/api/remote/files'' then guarded ae rq (serve_remote_files ae limit rq) ap
      else if p = ''/api/remote/files/action'' then guarded ae rq (serve_remote_action ae limit rq) ap
      else if p = ''/api/upload'' then guarded ae rq (handle_upload ae limit rq) ap
      else if p = ''/api/throttle/update'' then guarded ae rq (handle_throttle limit rq) ap
      else if p = ''/api/queue'' then guarded ae rq (handle_queue ae limit rq) ap
      else if p = ''/api/stats'' then guarded ae rq (handle_stats ae rq) ap
      else if p = ''/'' then
        (case update_sessions (index_page (cf_auth_password cfg) (ae_now1 ae) (ae_now2 ae) (rq_cookie rq)) ap of
           (page, ap') \<Rightarrow> (ApiPage page, ap'))
      else (ApiStatus 404, ap))"

text \<open>The path \<open>ServeMux\<close> redirects to when it differs from the one requested.\<close>

definition mux_path :: "string \<Rightarrow> string" where
  "mux_path p =
     (if p = [] then ''/''
      else let q = (if is_abs p then p else CHR ''/'' # p); np = path_clean q in
        if last p = CHR ''/'' \<and> np \<noteq> ''/'' then np @ ''/'' else np)"

definition serve :: "('s, 'r) api_env \<Rightarrow> request \<Rightarrow> ('s, 'r) app \<Rightarrow> api_reply \<times> ('s, 'r) app" where
  "serve ae rq ap =
     (if mux_path (rq_path rq) \<noteq> rq_path rq \<and> rq_method rq \<noteq> ''CONNECT'' then (ApiRedirect, ap)
      else if cross_origin rq then (ApiStatus 403, ap)
      else
        (case require_json_body rq of
           WrongMediaType \<Rightarrow> (ApiStatus 415, ap)
         | PassBody limit \<Rightarrow> route ae limit rq ap))"

subsection \<open>Without a session nothing happens\<close>

definition has_session :: "('s, 'r) api_env \<Rightarrow> request \<Rightarrow> ('s, 'r) app \<Rightarrow> bool" where
  "has_session ae rq ap \<longleftrightarrow>
     (case rq_cookie rq of None \<Rightarrow> False | Some tok \<Rightarrow> session_live (ae_now1 ae) tok (au_sessions (ap_auth ap)))"

text \<open>The parts of the state that are not about logging in.\<close>

definition same_data :: "('s, 'r) app \<Rightarrow> ('s, 'r) app \<Rightarrow> bool" where
  "same_data ap ap' \<longleftrightarrow> ap_queue ap' = ap_queue ap \<and> ap_files ap' = ap_files ap
     \<and> ap_remote ap' = ap_remote ap \<and> ap_known_hosts ap' = ap_known_hosts ap"

fun public_reply :: "api_reply \<Rightarrow> bool" where
  "public_reply (ApiStatus n) = True"
| "public_reply ApiRedirect = True"
| "public_reply ApiStatic = True"
| "public_reply (ApiPage p) = (p = ''static/login.html'')"
| "public_reply (ApiLogin r) = True"
| "public_reply (ApiAuthRequired b) = True"
| "public_reply r = False"

lemma same_data_refl [simp]: "same_data ap ap"
  by (simp add: same_data_def)

lemma update_sessions_data [simp]: "same_data ap (snd (update_sessions f ap))"
  by (simp add: update_sessions_def same_data_def split: prod.splits)

lemma fst_update_sessions: "fst (update_sessions f ap) = fst (f (au_sessions (ap_auth ap)))"
  by (simp add: update_sessions_def split: prod.splits)

lemma with_auth_refused:
  assumes "pw \<noteq> []" "case cookie of None \<Rightarrow> True | Some tok \<Rightarrow> \<not> session_live now1 tok m"
  shows "\<not> fst (with_auth pw now1 now2 cookie m)"
  using assms by (auto simp: with_auth_def valid_session_def session_live_def split: option.splits)

lemma guarded_refused:
  assumes "cf_auth_password (ae_config ae) \<noteq> []" "\<not> has_session ae rq ap"
  shows "fst (guarded ae rq f ap) = ApiStatus 401" "same_data ap (snd (guarded ae rq f ap))"
proof -
  let ?u = "update_sessions (with_auth (cf_auth_password (ae_config ae)) (ae_now1 ae) (ae_now2 ae) (rq_cookie rq)) ap"
  have "\<not> fst ?u"
    using assms unfolding fst_update_sessions
    by (intro with_auth_refused) (auto simp: has_session_def split: option.splits)
  then have "guarded ae rq f ap = (ApiStatus 401, snd ?u)"
    by (simp add: guarded_def case_prod_beta)
  then show "fst (guarded ae rq f ap) = ApiStatus 401" "same_data ap (snd (guarded ae rq f ap))"
    by simp_all
qed

lemma index_refused:
  assumes "pw \<noteq> []" "case cookie of None \<Rightarrow> True | Some tok \<Rightarrow> \<not> session_live now1 tok m"
  shows "fst (index_page pw now1 now2 cookie m) = ''static/login.html''"
  using with_auth_refused [OF assms, of now2] by (simp add: index_page_def case_prod_beta)

lemma route_refused:
  assumes "cf_auth_password (ae_config ae) \<noteq> []" "\<not> has_session ae rq ap"
  shows "public_reply (fst (route ae limit rq ap)) \<and> same_data ap (snd (route ae limit rq ap))"
proof -
  have login: "public_reply (fst (serve_login ae limit rq ap)) \<and> same_data ap (snd (serve_login ae limit rq ap))"
    by (simp add: serve_login_def same_data_def case_prod_beta)
  have g: "public_reply (fst (guarded ae rq f ap)) \<and> same_data ap (snd (guarded ae rq f ap))" for f
    using guarded_refused [OF assms, of f] by simp
  have page: "fst (update_sessions (index_page (cf_auth_password (ae_config ae)) (ae_now1 ae) (ae_now2 ae) (rq_cookie rq)) ap)
      = ''static/login.html''"
    unfolding fst_update_sessions using assms
    by (intro index_refused) (auto simp: has_session_def split: option.splits)
  show ?thesis
    unfolding route_def Let_def using login g page by (simp add: case_prod_beta)
qed

text \<open>
  C13. With a password set, a request without a live session changes nothing but the login and
  session tables: not the queue, the local files, any remote host or the known hosts; and it is
  answered by a status, a static file, the login page or the reply of the login itself.
\<close>

theorem no_session_no_effect:
  assumes "cf_auth_password (ae_config ae) \<noteq> []" "\<not> has_session ae rq ap"
  shows "public_reply (fst (serve ae rq ap)) \<and> same_data ap (snd (serve ae rq ap))"
  using route_refused [OF assms] by (simp add: serve_def split: json_gate.split)


text \<open>A small installation.\<close>

definition demo_api :: "(tiny_fs, string list) api_env" where
  "demo_api =
     \<lparr>ae_config = \<lparr>cf_local_dir = ''/data'', cf_config_dir = ''/config'', cf_web_port = ''8080'',
        cf_auth_password = ''right'', cf_trust_proxy = False\<rparr>,
      ae_crypto = demo_crypto, ae_save = demo_env, ae_clock = (\<lambda>_. 0), ae_now1 = 100, ae_now2 = 100,
      ae_login = demo_login 100, ae_stat = (\<lambda>_. False), ae_order = [], ae_root = tiny_ops, ae_dirs = demo_ops,
      ae_connect = demo_connect\<rparr>"

definition demo_app :: "(tiny_fs, string list) app" where
  "demo_app =
     \<lparr>ap_auth = initial_auth\<lparr>au_sessions := [(''tok'', 1000)]\<rparr>, ap_queue = demo_queue,
      ap_files = \<lparr>ty_paths = [''/data'', ''/data/a''], ty_links = []\<rparr>, ap_remote = [], ap_known_hosts = None\<rparr>"

definition demo_request :: request where
  "demo_request =
     \<lparr>rq_method = ''POST'', rq_path = ''/api/queue'', rq_query_path = [], rq_cookie = Some ''tok'',
      rq_media = Some ''application/json'', rq_sec_fetch_site = ''same-origin'', rq_origin = [], rq_origin_host = None,
      rq_host = ''nas:8080'', rq_remote_addr = ''10.0.0.2:4711'', rq_forwarded_for = [], rq_length = 30,
      rq_password = None, rq_upload = None, rq_action = None, rq_control = Some (''7'', ''remove'')\<rparr>"

theorem no_session_no_effect_witness:
  "let rq = demo_request\<lparr>rq_cookie := Some ''expired''\<rparr> in
    public_reply (fst (serve demo_api rq demo_app)) \<and> same_data demo_app (snd (serve demo_api rq demo_app))"
proof -
  have "cf_auth_password (ae_config demo_api) \<noteq> []"
    "\<not> has_session demo_api (demo_request\<lparr>rq_cookie := Some ''expired''\<rparr>) demo_app"
    by (simp_all add: demo_api_def demo_request_def demo_app_def has_session_def session_live_def initial_auth_def)
  then show ?thesis unfolding Let_def by (rule no_session_no_effect)
qed


text \<open>
  The methods that count as safe are not: the handlers that only decode a body do not look at
  the method, so a GET with a body passes every check of the wrapper, from any site, with any
  media type and any length, and changes the state.
\<close>

theorem get_request_changes_state:
  assumes "is_safe_method (rq_method rq)" "rq_path rq = ''/api/throttle/update''" "rq_upload rq = Some req"
    and "cf_auth_password (ae_config ae) = []"
  shows "serve ae rq ap = (ApiMessage ''Throttling updated'', ap\<lparr>ap_queue := throttle_queue req (ap_queue ap)\<rparr>)"
proof -
  have m: "mux_path ''/api/throttle/update'' = ''/api/throttle/update''" by code_simp
  have "\<not> cross_origin rq" "require_json_body rq = PassBody None"
    using assms(1) by (simp_all add: cross_origin_def require_json_body_def)
  moreover have "update_sessions (with_auth [] now1 now2 cookie) ap = (True, ap)" for now1 now2 cookie
    by (simp add: update_sessions_def with_auth_def)
  moreover have "route ae None rq ap = guarded ae rq (handle_throttle None rq) ap"
    using assms(2) by (simp add: route_def has_prefix_def)
  ultimately show ?thesis
    using m assms(2-4) by (simp add: serve_def guarded_def handle_throttle_def decode_body_def)
qed

theorem get_request_changes_state_witness:
  "let rq = demo_request\<lparr>rq_method := ''GET'', rq_path := ''/api/throttle/update'', rq_media := Some ''text/plain'',
        rq_sec_fetch_site := ''cross-site'', rq_length := 2 ^ 40, rq_upload := Some (zero_request\<lparr>ur_concurrent_files := 50\<rparr>)\<rparr>;
       ae = demo_api\<lparr>ae_config := (ae_config demo_api)\<lparr>cf_auth_password := []\<rparr>\<rparr>
   in q_max_concurrent (ap_queue (snd (serve ae rq demo_app))) = 50"
proof -
  let ?req = "zero_request\<lparr>ur_concurrent_files := 50\<rparr>"
  let ?rq = "demo_request\<lparr>rq_method := ''GET'', rq_path := ''/api/throttle/update'', rq_media := Some ''text/plain'',
        rq_sec_fetch_site := ''cross-site'', rq_length := 2 ^ 40, rq_upload := Some ?req\<rparr>"
  let ?ae = "demo_api\<lparr>ae_config := (ae_config demo_api)\<lparr>cf_auth_password := []\<rparr>\<rparr>"
  have t: "is_safe_method (rq_method ?rq)" "rq_path ?rq = ''/api/throttle/update''" "rq_upload ?rq = Some ?req"
    "cf_auth_password (ae_config ?ae) = []"
    by (simp_all add: is_safe_method_def)
  have "q_max_concurrent (throttle_queue ?req (ap_queue demo_app)) = 50"
    by (simp add: throttle_queue_def update_host_limiter_def update_throttle_def update_concurrency_def demo_app_def
        demo_queue_def empty_manager_def zero_request_def Let_def)
  with get_request_changes_state [OF t, of demo_app] show ?thesis by (simp add: Let_def)
qed

subsection \<open>Adding uploads\<close>


definition demo_upload :: request where
  "demo_upload = demo_request\<lparr>rq_path := ''/api/upload'', rq_upload := Some (zero_request\<lparr>ur_files := [''a'']\<rparr>)\<rparr>"


subsection \<open>Status codes of the queue\<close>

text \<open>
  Whether a failed action of the queue is answered by 404 is decided by searching its message
  for \<open>not found\<close>, and the message may quote the request or a file name: an unknown task is a 404,
  but so is retrying an existing task whose missing file is called so, and an unknown action.
\<close>

theorem status_404_by_substring:
  "control_status (fst (control_task c env stat ''9'' ''pause'' demo_queue)) = 404
   \<and> (let q = demo_queue\<lparr>q_heap := (\<lambda>a. (demo_task ''7'' TaskFailed [])\<lparr>tk_file_name := ''not found.txt''\<rparr>)\<rparr> in
      control_status (fst (control_task c env (\<lambda>_. False) ''7'' ''retry'' q)) = 404)
   \<and> control_status (fst (control_task c env stat ''7'' ''not found'' demo_queue)) = 404
   \<and> control_status (fst (control_task c env stat ''7'' ''retry'' demo_queue)) = 400"
proof -
  have s: "contains_str ''task not found'' ''not found''"
    "contains_str (''local file no longer exists: '' @ ''not found.txt'') ''not found''"
    "contains_str (''unknown action: '' @ ''not found'') ''not found''"
    "\<not> contains_str ''task is not in a retryable state'' ''not found''"
    by code_simp+
  show ?thesis
    using s
    by (simp add: control_task_def control_found_def control_status_def demo_queue_def demo_task_def zero_task_def
        empty_manager_def Let_def)
qed

end
