(* ===== verification/Logger.thy ===== *)
theory Logger
  imports Models
begin

text \<open>
  \<open>internal/logger/logger.go\<close> and the stream of \<open>/api/logs\<close> (\<open>internal/api/server.go\<close>): a log
  entry is encoded as JSON and offered to the channel of every connected page. A channel holds
  ten entries; an entry that does not fit is dropped for that page.

  The encoder is the part of \<open>encoding/json\<close> that writes strings, over UTF-8 bytes. The encoding of
  the \<open>extra\<close> value, which the program never sets, is an argument.
\<close>

subsection \<open>Encoding\<close>

definition byte :: "char \<Rightarrow> nat" where
  "byte c = of_char c"

definition continuation :: "char \<Rightarrow> bool" where
  "continuation c \<longleftrightarrow> 0x80 \<le> byte c \<and> byte c \<le> 0xBF"

text \<open>The length of the UTF-8 sequence at the start of a string of bytes from 128 on; 0 when invalid.\<close>

definition rune_size :: "string \<Rightarrow> nat" where
  "rune_size s =
     (case s of
        c # d # rest \<Rightarrow>
          let a = byte c; b = byte d in
          if 0xC2 \<le> a \<and> a \<le> 0xDF then (if continuation d then 2 else 0)
          else if 0xE0 \<le> a \<and> a \<le> 0xEF then
            (case rest of
               e # _ \<Rightarrow>
                 if (if a = 0xE0 then 0xA0 \<le> b \<and> b \<le> 0xBF
                     else if a = 0xED then 0x80 \<le> b \<and> b \<le> 0x9F else continuation d) \<and> continuation e
                 then 3 else 0
             | [] \<Rightarrow> 0)
          else if 0xF0 \<le> a \<and> a \<le> 0xF4 then
            (case rest of
               e # f # _ \<Rightarrow>
                 if (if a = 0xF0 then 0x90 \<le> b \<and> b \<le> 0xBF
                     else if a = 0xF4 then 0x80 \<le> b \<and> b \<le> 0x8F else continuation d)
                   \<and> continuation e \<and> continuation f
                 then 4 else 0
             | _ \<Rightarrow> 0)
          else 0
      | _ \<Rightarrow> 0)"

definition hex_char :: "nat \<Rightarrow> char" where
  "hex_char n = (if n < 10 then char_of (48 + n) else char_of (87 + n))"

definition escape_ascii :: "char \<Rightarrow> string" where
  "escape_ascii c =
     (if c = CHR 0x22 \<or> c = CHR 0x5C then [CHR 0x5C, c]
      else if c = CHR 0x08 then [CHR 0x5C, CHR ''b'']
      else if c = CHR 0x0C then [CHR 0x5C, CHR ''f'']
      else if c = CHR 0x0A then [CHR 0x5C, CHR ''n'']
      else if c = CHR 0x0D then [CHR 0x5C, CHR ''r'']
      else if c = CHR 0x09 then [CHR 0x5C, CHR ''t'']
      else if byte c < 32 \<or> c = CHR ''<'' \<or> c = CHR ''>'' \<or> c = CHR ''&''
      then [CHR 0x5C, CHR ''u'', CHR ''0'', CHR ''0'', hex_char (byte c div 16), hex_char (byte c mod 16)]
      else [c])"

definition replacement :: string where
  "replacement = CHR 0x5C # ''ufffd''"

function json_body :: "string \<Rightarrow> string" where
  "json_body [] = []"
| "json_body (c # cs) =
     (if byte c < 128 then escape_ascii c @ json_body cs
      else
        let n = rune_size (c # cs) in
        if n = 0 then replacement @ json_body cs
        else if take 2 (c # cs) = [CHR 0xE2, CHR 0x80] \<and> (cs ! 1 = CHR 0xA8 \<or> cs ! 1 = CHR 0xA9)
        then CHR 0x5C # ''u202'' @ [hex_char (byte (cs ! 1) mod 16)] @ json_body (drop n (c # cs))
        else take n (c # cs) @ json_body (drop n (c # cs)))"
  by pat_completeness auto
termination
  by (relation "measure length") (auto simp: Let_def)

declare json_body.simps(2) [simp del]

definition json_string :: "string \<Rightarrow> string" where
  "json_string s = CHR 0x22 # json_body s @ [CHR 0x22]"

record log_message =
  lm_level :: string
  lm_time :: string
  lm_msg :: string
  lm_extra :: "string option option"

text \<open>
  \<open>lm_extra\<close> is None for a nil value, which \<open>omitempty\<close> leaves out, and \<open>Some None\<close> for a value
  that cannot be encoded.
\<close>

definition key :: "string \<Rightarrow> string" where
  "key k = CHR 0x22 # k @ [CHR 0x22, CHR '':'']"

definition marshal :: "log_message \<Rightarrow> string option" where
  "marshal m =
     (let head = CHR ''{'' # key ''level'' @ json_string (lm_level m) @ '','' @ key ''time'' @ json_string (lm_time m)
        @ '','' @ key ''msg'' @ json_string (lm_msg m)
      in case lm_extra m of
           None \<Rightarrow> Some (head @ ''}'')
         | Some None \<Rightarrow> None
         | Some (Some x) \<Rightarrow> Some (head @ '','' @ key ''extra'' @ x @ ''}''))"

text \<open>The text that \<open>LogWithLevel\<close> broadcasts.\<close>

definition log_text :: "string \<Rightarrow> string \<Rightarrow> string \<Rightarrow> string option option \<Rightarrow> string option" where
  "log_text now level msg extra =
     (let entry = \<lparr>lm_level = level, lm_time = now, lm_msg = msg, lm_extra = extra\<rparr> in
      case marshal entry of
        Some b \<Rightarrow> Some b
      | None \<Rightarrow> marshal (entry\<lparr>lm_msg := ''[marshal error] '' @ msg, lm_extra := None\<rparr>))"

subsection \<open>Subscribers\<close>

text \<open>
  A channel is a number; \<open>lg_clients\<close> are the registered ones. A page's handler streams, then
  removes its channel from the table, then closes it outside the lock. \<open>lg_got\<close> are the entries
  a handler has written to its page, \<open>lg_since\<close> those broadcast since it subscribed.
\<close>

datatype chan_phase = Absent | Streaming | Leaving | Gone

record log_state =
  lg_clients :: "nat list"
  lg_buffer :: "nat \<Rightarrow> string list"
  lg_closed :: "nat \<Rightarrow> bool"
  lg_phase :: "nat \<Rightarrow> chan_phase"
  lg_next :: nat
  lg_got :: "nat \<Rightarrow> string list"
  lg_since :: "nat \<Rightarrow> string list"

definition chan_capacity :: nat where "chan_capacity = 10"

definition offer :: "string \<Rightarrow> string list \<Rightarrow> string list" where
  "offer msg buf = (if length buf < chan_capacity then buf @ [msg] else buf)"

text \<open>None is the panic of a send on a closed channel.\<close>

definition broadcast_log :: "string \<Rightarrow> log_state \<Rightarrow> log_state option" where
  "broadcast_log msg s =
     (if list_ex (lg_closed s) (lg_clients s) then None
      else Some (s\<lparr>lg_buffer := (\<lambda>c. if c \<in> set (lg_clients s) then offer msg (lg_buffer s c) else lg_buffer s c),
                  lg_since := (\<lambda>c. if c \<in> set (lg_clients s) then lg_since s c @ [msg] else lg_since s c)\<rparr>))"

definition subscribe :: "log_state \<Rightarrow> nat \<times> log_state" where
  "subscribe s =
     (let c = lg_next s in
      (c, s\<lparr>lg_clients := c # lg_clients s, lg_buffer := (lg_buffer s)(c := []), lg_closed := (lg_closed s)(c := False),
           lg_phase := (lg_phase s)(c := Streaming), lg_next := Suc c, lg_got := (lg_got s)(c := []),
           lg_since := (lg_since s)(c := [])\<rparr>))"

definition unregister :: "nat \<Rightarrow> log_state \<Rightarrow> log_state" where
  "unregister c s = s\<lparr>lg_clients := filter (\<lambda>d. d \<noteq> c) (lg_clients s), lg_phase := (lg_phase s)(c := Leaving)\<rparr>"

text \<open>None is the panic of closing a closed channel.\<close>

definition close_chan :: "nat \<Rightarrow> log_state \<Rightarrow> log_state option" where
  "close_chan c s =
     (if lg_closed s c then None
      else Some (s\<lparr>lg_closed := (lg_closed s)(c := True), lg_phase := (lg_phase s)(c := Gone)\<rparr>))"

definition receive :: "nat \<Rightarrow> log_state \<Rightarrow> log_state" where
  "receive c s =
     (case lg_buffer s c of
        [] \<Rightarrow> s
      | m # ms \<Rightarrow> s\<lparr>lg_buffer := (lg_buffer s)(c := ms), lg_got := (lg_got s)(c := lg_got s c @ [m])\<rparr>)"

text \<open>What the handler writes for one entry.\<close>

definition sse_event :: "string \<Rightarrow> string" where
  "sse_event msg = ''data: '' @ msg @ [CHR 0x0A, CHR 0x0A]"

datatype log_event = Broadcast string | Subscribe | Unregister nat | Close_Chan nat | Receive nat

text \<open>The successor of a step; None is a panic.\<close>

fun log_effect :: "log_event \<Rightarrow> log_state \<Rightarrow> log_state option" where
  "log_effect (Broadcast msg) s = broadcast_log msg s"
| "log_effect Subscribe s = Some (snd (subscribe s))"
| "log_effect (Unregister c) s = Some (unregister c s)"
| "log_effect (Close_Chan c) s = close_chan c s"
| "log_effect (Receive c) s = Some (receive c s)"

fun log_enabled :: "log_event \<Rightarrow> log_state \<Rightarrow> bool" where
  "log_enabled (Broadcast msg) s = True"
| "log_enabled Subscribe s = True"
| "log_enabled (Unregister c) s = (lg_phase s c = Streaming)"
| "log_enabled (Close_Chan c) s = (lg_phase s c = Leaving)"
| "log_enabled (Receive c) s = (lg_phase s c = Streaming \<and> lg_buffer s c \<noteq> [])"

inductive log_step :: "log_state \<Rightarrow> log_event \<Rightarrow> log_state \<Rightarrow> bool" where
  log_stepI: "log_enabled e s \<Longrightarrow> log_effect e s = Some t \<Longrightarrow> log_step s e t"

inductive_simps log_step_iff: "log_step s e t"

definition no_logs :: log_state where
  "no_logs = \<lparr>lg_clients = [], lg_buffer = (\<lambda>_. []), lg_closed = (\<lambda>_. False), lg_phase = (\<lambda>_. Absent), lg_next = 0,
     lg_got = (\<lambda>_. []), lg_since = (\<lambda>_. [])\<rparr>"

subsection \<open>Channels\<close>

definition log_inv :: "log_state \<Rightarrow> bool" where
  "log_inv s \<longleftrightarrow>
     (\<forall>c. (c \<in> set (lg_clients s)) = (lg_phase s c = Streaming)
        \<and> lg_closed s c = (lg_phase s c = Gone)
        \<and> length (lg_buffer s c) \<le> chan_capacity
        \<and> subseq (lg_got s c @ lg_buffer s c) (lg_since s c)
        \<and> (lg_next s \<le> c \<longrightarrow> lg_phase s c = Absent))"

lemma log_inv_start: "log_inv no_logs"
  by (simp add: log_inv_def no_logs_def)

lemma log_inv_step:
  assumes "log_inv s" "log_step s e t"
  shows "log_inv t"
proof -
  have en: "log_enabled e s" and eff: "log_effect e s = Some t" using assms(2) by (auto simp: log_step_iff)
  note inv = assms(1) [unfolded log_inv_def, rule_format]
  show ?thesis
  proof (cases e)
    case (Broadcast msg)
    then have t: "t = s\<lparr>lg_buffer := (\<lambda>c. if c \<in> set (lg_clients s) then offer msg (lg_buffer s c) else lg_buffer s c),
        lg_since := (\<lambda>c. if c \<in> set (lg_clients s) then lg_since s c @ [msg] else lg_since s c)\<rparr>"
      using eff by (simp add: broadcast_log_def split: if_splits)
    have "subseq (lg_got s c @ offer msg (lg_buffer s c)) (lg_since s c @ [msg])" for c
    proof -
      have "subseq ((lg_got s c @ lg_buffer s c) @ [msg]) (lg_since s c @ [msg])"
        "subseq (lg_got s c @ lg_buffer s c) (lg_since s c @ [msg])"
        using inv [of c] list_emb_append_mono [OF _ subseq_order.refl [of "[msg]"]]
        by (blast, blast intro: subseq_order.trans list_emb_append2)
      then show ?thesis by (simp add: offer_def)
    qed
    then show ?thesis using inv by (simp add: t log_inv_def offer_def)
  next
    case Subscribe
    then have t: "t = snd (subscribe s)" using eff by simp
    have "lg_phase s (lg_next s) = Absent" using inv by blast
    then show ?thesis using inv unfolding t subscribe_def Let_def by (auto simp: log_inv_def)
  next
    case (Unregister c)
    then have "t = unregister c s" using eff by simp
    then show ?thesis using inv en Unregister by (auto simp: log_inv_def unregister_def)
  next
    case (Close_Chan c)
    then have "t = s\<lparr>lg_closed := (lg_closed s)(c := True), lg_phase := (lg_phase s)(c := Gone)\<rparr>"
      using eff by (simp add: close_chan_def split: if_splits)
    then show ?thesis using inv en Close_Chan by (auto simp: log_inv_def)
  next
    case (Receive c)
    then obtain m ms where b: "lg_buffer s c = m # ms" "t = receive c s" using en eff by (auto simp: neq_Nil_conv)
    then show ?thesis using inv [of c] inv en Receive by (auto simp: log_inv_def receive_def)
  qed
qed

interpretation log_safe: invariant_of "\<lambda>s. s = no_logs" log_step log_inv
  by unfold_locales (auto intro: log_inv_start log_inv_step)

text \<open>
  C36. Log streaming is safe and never waits: in every reachable state of any number of pages
  connecting, reading and leaving, no step can panic by using a closed channel, a broadcast is
  always possible, no channel holds more than ten entries, and what a page has received and will
  receive is a subsequence of what was logged since it connected, in that order.
\<close>

theorem log_stream_safe:
  assumes "reach (\<lambda>s. s = no_logs) log_step s"
  shows "(log_enabled e s \<and> log_effect e s = None) = False
    \<and> (\<exists>t. log_step s (Broadcast msg) t)
    \<and> length (lg_buffer s c) \<le> 10 \<and> subseq (lg_got s c @ lg_buffer s c) (lg_since s c)"
proof -
  have inv: "log_inv s" by (rule log_safe.holds_reach [OF assms])
  then have b: "broadcast_log m s \<noteq> None" for m
    by (auto simp: log_inv_def broadcast_log_def list_ex_iff)
  have "\<not> (log_enabled e s \<and> log_effect e s = None)"
    using inv b by (cases e) (auto simp: log_inv_def close_chan_def)
  moreover have "\<exists>t. log_step s (Broadcast msg) t"
    using b [of msg] by (auto simp: log_step_iff)
  ultimately show ?thesis using inv by (simp add: log_inv_def chan_capacity_def)
qed

theorem log_stream_safe_witness:
  "\<exists>s. reach (\<lambda>s. s = no_logs) log_step s \<and> lg_phase s 0 = Streaming \<and> lg_buffer s 0 = [''hi'']
    \<and> length (lg_buffer s 0) \<le> 10 \<and> (\<exists>t. log_step s (Broadcast ''ho'') t)"
proof -
  let ?s = "snd (subscribe no_logs)"
  let ?t = "?s\<lparr>lg_buffer := (\<lambda>c. if c \<in> set (lg_clients ?s) then offer ''hi'' (lg_buffer ?s c) else lg_buffer ?s c),
       lg_since := (\<lambda>c. if c \<in> set (lg_clients ?s) then lg_since ?s c @ [''hi''] else lg_since ?s c)\<rparr>"
  have "reach (\<lambda>s. s = no_logs) log_step ?s"
    by (rule reach_step [OF reach_start [of _ no_logs], where e = Subscribe]) (simp_all add: log_step_iff)
  moreover have "list_ex (lg_closed ?s) (lg_clients ?s) = False"
    by (simp add: subscribe_def no_logs_def)
  then have "log_step ?s (Broadcast ''hi'') ?t"
    by (simp only: log_step_iff log_enabled.simps log_effect.simps broadcast_log_def if_False simp_thms)
  ultimately have r: "reach (\<lambda>s. s = no_logs) log_step ?t" by (rule reach_step)
  have p: "lg_phase ?t 0 = Streaming" "lg_buffer ?t 0 = [''hi'']"
    by (simp_all add: subscribe_def no_logs_def offer_def chan_capacity_def)
  from log_stream_safe [OF r, of "Receive 0" "''ho''" 0] r p show ?thesis by blast
qed

subsection \<open>What an entry looks like\<close>

text \<open>Reading a JSON string: what follows the closing quote.\<close>

fun scan_string :: "string \<Rightarrow> string option" where
  "scan_string [] = None"
| "scan_string (c # cs) =
     (if c = CHR 0x22 then Some cs
      else if c = CHR 0x5C then (case cs of [] \<Rightarrow> None | _ # ds \<Rightarrow> scan_string ds)
      else scan_string cs)"

definition plain_chars :: "string \<Rightarrow> bool" where
  "plain_chars s \<longleftrightarrow> (\<forall>c\<in>set s. c \<noteq> CHR 0x22 \<and> c \<noteq> CHR 0x5C)"

lemma scan_plain: "plain_chars s \<Longrightarrow> scan_string (s @ r) = scan_string r"
  by (induction s) (auto simp: plain_chars_def)

lemma scan_escape: "plain_chars s \<Longrightarrow> scan_string (CHR 0x5C # c # s @ r) = scan_string r"
  by (simp add: scan_plain)

lemma hex_char_range: "n < 16 \<Longrightarrow> 48 \<le> byte (hex_char n) \<and> byte (hex_char n) \<le> 102 \<and> byte (hex_char n) \<noteq> 92"
  by (simp add: hex_char_def byte_def)

lemma byte_inj: "byte c = byte d \<longleftrightarrow> c = d"
  by (simp add: byte_def)

lemma byte_less: "byte c < 256"
  using nat_of_char_less_256 [of c] by (simp add: byte_def)

lemma plain_hex: "n < 16 \<Longrightarrow> hex_char n \<noteq> CHR 0x22 \<and> hex_char n \<noteq> CHR 0x5C"
  using hex_char_range [of n] by (auto simp: byte_def)

lemma scan_escape_ascii: "scan_string (escape_ascii c @ r) = scan_string r"
proof -
  have h: "byte c div 16 < 16" "byte c mod 16 < 16" using byte_less [of c] by simp_all
  have p: "plain_chars [CHR ''0'', CHR ''0'', hex_char (byte c div 16), hex_char (byte c mod 16)]"
    using plain_hex [OF h(1)] plain_hex [OF h(2)] by (auto simp: plain_chars_def)
  show ?thesis
    using scan_escape [OF p, of "CHR ''u''" r] by (auto simp: escape_ascii_def)
qed

lemma escape_ascii_printable: "list_all (\<lambda>x. 32 \<le> byte x) (escape_ascii c)"
proof -
  have h: "byte c div 16 < 16" "byte c mod 16 < 16" using byte_less [of c] by simp_all
  then have hex: "32 \<le> byte (hex_char (byte c div 16))" "32 \<le> byte (hex_char (byte c mod 16))"
    using hex_char_range [OF h(1)] hex_char_range [OF h(2)] by linarith+
  have lit: "list_all (\<lambda>x. 32 \<le> byte x) [CHR 0x22, CHR 0x5C, CHR ''b'', CHR ''f'', CHR ''n'', CHR ''r'', CHR ''t'', CHR ''u'', CHR ''0'', CHR ''<'', CHR ''>'', CHR ''&'']"
    by (simp add: byte_def)
  show ?thesis
    unfolding escape_ascii_def using hex lit
    by (simp add: not_less split: if_split)
qed

text \<open>The bytes of a valid sequence are all above the ASCII range.\<close>

lemma rune_two: "0xC2 \<le> byte c \<Longrightarrow> byte c \<le> 0xDF \<Longrightarrow> rune_size (c # d # rest) = (if continuation d then 2 else 0)"
  unfolding rune_size_def list.case Let_def by (simp only: simp_thms if_True)

definition three_ok :: "char \<Rightarrow> char \<Rightarrow> bool" where
  "three_ok c d \<longleftrightarrow> (if byte c = 0xE0 then 0xA0 \<le> byte d \<and> byte d \<le> 0xBF
     else if byte c = 0xED then 0x80 \<le> byte d \<and> byte d \<le> 0x9F else continuation d)"

definition four_ok :: "char \<Rightarrow> char \<Rightarrow> bool" where
  "four_ok c d \<longleftrightarrow> (if byte c = 0xF0 then 0x90 \<le> byte d \<and> byte d \<le> 0xBF
     else if byte c = 0xF4 then 0x80 \<le> byte d \<and> byte d \<le> 0x8F else continuation d)"

lemma rune_three: "0xE0 \<le> byte c \<Longrightarrow> byte c \<le> 0xEF \<Longrightarrow>
    rune_size (c # d # rest) = (case rest of [] \<Rightarrow> 0 | e # _ \<Rightarrow> if three_ok c d \<and> continuation e then 3 else 0)"
  unfolding rune_size_def list.case Let_def three_ok_def
  by (subst if_not_P, linarith) (simp only: simp_thms if_True)

lemma rune_four: "0xF0 \<le> byte c \<Longrightarrow> byte c \<le> 0xF4 \<Longrightarrow>
    rune_size (c # d # rest) = (case rest of e # f # _ \<Rightarrow> if four_ok c d \<and> continuation e \<and> continuation f then 4 else 0 | _ \<Rightarrow> 0)"
  unfolding rune_size_def list.case Let_def four_ok_def
  by (subst if_not_P, linarith, subst if_not_P, linarith) (simp only: simp_thms if_True)

lemma rune_none:
  assumes "\<not> (0xC2 \<le> byte c \<and> byte c \<le> 0xDF)" "\<not> (0xE0 \<le> byte c \<and> byte c \<le> 0xEF)" "\<not> (0xF0 \<le> byte c \<and> byte c \<le> 0xF4)"
  shows "rune_size (c # cs) = 0"
  using assms unfolding rune_size_def Let_def by (simp only: list.case if_False split: list.split) simp

lemma ok_high: "three_ok c d \<Longrightarrow> 128 \<le> byte d" "four_ok c d \<Longrightarrow> 128 \<le> byte d" "continuation d \<Longrightarrow> 128 \<le> byte d"
  by (auto simp: three_ok_def four_ok_def continuation_def split: if_splits)

lemma rune_cases:
  assumes "rune_size (c # cs) > 0"
  shows "(\<exists>d r. cs = d # r \<and> rune_size (c # cs) = 2 \<and> 128 \<le> byte c \<and> 128 \<le> byte d)
    \<or> (\<exists>d e r. cs = d # e # r \<and> rune_size (c # cs) = 3 \<and> 128 \<le> byte c \<and> 128 \<le> byte d \<and> 128 \<le> byte e)
    \<or> (\<exists>d e f r. cs = d # e # f # r \<and> rune_size (c # cs) = 4
         \<and> 128 \<le> byte c \<and> 128 \<le> byte d \<and> 128 \<le> byte e \<and> 128 \<le> byte f)"
proof -
  obtain d rest where cs: "cs = d # rest" using assms by (cases cs) (auto simp: rune_size_def)
  consider (two) "0xC2 \<le> byte c \<and> byte c \<le> 0xDF"
    | (three) "0xE0 \<le> byte c \<and> byte c \<le> 0xEF"
    | (four) "0xF0 \<le> byte c \<and> byte c \<le> 0xF4"
    | (none) "\<not> (0xC2 \<le> byte c \<and> byte c \<le> 0xDF)" "\<not> (0xE0 \<le> byte c \<and> byte c \<le> 0xEF)"
        "\<not> (0xF0 \<le> byte c \<and> byte c \<le> 0xF4)"
    by argo
  then show ?thesis
  proof cases
    case two
    then show ?thesis using assms rune_two [of c d rest] ok_high(3) [of d] by (auto simp: cs split: if_splits)
  next
    case three
    then have high: "128 \<le> byte c" by linarith
    from three assms high ok_high(1) [of c d] ok_high(3) rune_three [of c d rest] show ?thesis
      by (cases rest) (auto simp: cs split: if_splits)
  next
    case four
    then have high: "128 \<le> byte c" by linarith
    from four assms high ok_high(2) [of c d] ok_high(3) rune_four [of c d rest] show ?thesis
      by (cases rest; cases "tl rest") (auto simp: cs split: if_splits)
  next
    case none
    then show ?thesis using assms rune_none [OF none] by simp
  qed
qed

lemma rune_bytes:
  assumes "rune_size (c # cs) = n" "n > 0" "x \<in> set (take n (c # cs))"
  shows "128 \<le> byte x"
proof -
  have "rune_size (c # cs) > 0" using assms by simp
  from rune_cases [OF this] show ?thesis using assms(1,3) by auto
qed

lemma plain_rune: "(\<And>x. x \<in> set s \<Longrightarrow> 128 \<le> byte x) \<Longrightarrow> plain_chars s"
  by (force simp: plain_chars_def byte_def)

lemma scan_body: "scan_string (json_body s @ r) = scan_string r"
proof (induction s rule: json_body.induct)
  case (2 c cs)
  define n where "n = rune_size (c # cs)"
  show ?case
  proof (cases "byte c < 128")
    case True
    then show ?thesis using 2(1) by (simp add: json_body.simps(2) scan_escape_ascii)
  next
    case False
    consider (bad) "n = 0"
      | (line) "n \<noteq> 0" "take 2 (c # cs) = [CHR 0xE2, CHR 0x80] \<and> (cs ! 1 = CHR 0xA8 \<or> cs ! 1 = CHR 0xA9)"
      | (rune) "n \<noteq> 0" "\<not> (take 2 (c # cs) = [CHR 0xE2, CHR 0x80] \<and> (cs ! 1 = CHR 0xA8 \<or> cs ! 1 = CHR 0xA9))"
      by blast
    then show ?thesis
    proof cases
      case bad
      then show ?thesis
        using 2(2) [OF False n_def] False by (simp add: json_body.simps(2) n_def [symmetric] Let_def replacement_def)
    next
      case line
      let ?h = "hex_char (byte (cs ! 1) mod 16)"
      have p: "plain_chars (''202'' @ [?h])" using plain_hex [of "byte (cs ! 1) mod 16"] by (auto simp: plain_chars_def)
      have "json_body (c # cs) = CHR 0x5C # ''u202'' @ [?h] @ json_body (drop n (c # cs))"
        unfolding json_body.simps(2) Let_def n_def [symmetric] using False line by (simp only: if_False if_True simp_thms)
      then show ?thesis
        using 2(3) [OF False n_def line] scan_escape [OF p, of "CHR ''u''" "json_body (drop n (c # cs)) @ r"] by simp
    next
      case rune
      have body: "json_body (c # cs) = take n (c # cs) @ json_body (drop n (c # cs))"
        using False rune by (simp only: json_body.simps(2) n_def [symmetric] Let_def if_False if_not_P)
      have "plain_chars (take n (c # cs))"
        using rune_bytes [OF n_def [symmetric]] rune(1) by (intro plain_rune) simp
      then show ?thesis using 2(4) [OF False n_def rune] unfolding body by (simp add: scan_plain)
    qed
  qed
qed simp

lemma body_printable: "x \<in> set (json_body s) \<Longrightarrow> 32 \<le> byte x"
proof (induction s rule: json_body.induct)
  case (2 c cs)
  define n where "n = rune_size (c # cs)"
  have h: "32 \<le> byte (hex_char (byte (cs ! 1) mod 16))" using hex_char_range [of "byte (cs ! 1) mod 16"] by simp
  have r: "32 \<le> byte y" if "n > 0" "y \<in> set (take n (c # cs))" for y
    using rune_bytes [OF n_def [symmetric] that] by simp
  have lit: "32 \<le> byte y" if "y \<in> set (replacement @ CHR 0x5C # ''u202'')" for y
    using that by (auto simp: replacement_def byte_def)
  show ?case
    using 2(5) 2(1) 2(2,3,4) [OF _ n_def] escape_ascii_printable [of c, unfolded list_all_iff] h r lit
    unfolding json_body.simps(2) n_def [symmetric] Let_def
    by (auto split: if_splits simp del: take_Suc_Cons)
qed simp

lemma event_lines: "CHR 0x0A \<notin> set line \<Longrightarrow> split_on (CHR 0x0A) (line @ [CHR 0x0A, CHR 0x0A]) = [line, [], []]"
  using split_on_append_sep [of "CHR 0x0A" line "[CHR 0x0A]"] by (simp add: split_on_clean)

text \<open>
  No message can break out of its log entry: whatever bytes it holds, the entry is written
  without control characters, so it is one data line of the event stream, and reading the
  message's string ends at the quote the encoder wrote, in front of the closing brace.
\<close>

theorem log_entry_not_injectable:
  "\<exists>entry prefix. log_text now level msg None = Some entry
    \<and> list_all (\<lambda>c. 32 \<le> byte c) entry
    \<and> split_on (CHR 0x0A) (sse_event entry) = [''data: '' @ entry, [], []]
    \<and> entry = prefix @ json_string msg @ ''}''
    \<and> scan_string (json_body msg @ CHR 0x22 # ''}'') = Some ''}''"
proof -
  define prefix where "prefix = CHR ''{'' # key ''level'' @ json_string level @ '','' @ key ''time'' @ json_string now
    @ '','' @ key ''msg''"
  have "log_text now level msg None = Some (prefix @ json_string msg @ ''}'')"
    by (simp add: log_text_def marshal_def prefix_def)
  moreover have p: "list_all (\<lambda>c. 32 \<le> byte c) (prefix @ json_string msg @ ''}'')"
    using body_printable by (auto simp: prefix_def json_string_def key_def byte_def list_all_iff)
  moreover have "split_on (CHR 0x0A) (sse_event (prefix @ json_string msg @ ''}'')) = [''data: '' @ prefix @ json_string msg @ ''}'', [], []]"
  proof -
    define line where "line = ''data: '' @ prefix @ json_string msg @ ''}''"
    have "list_all (\<lambda>c. 32 \<le> byte c) line" using p by (simp add: line_def byte_def)
    moreover have "\<not> 32 \<le> byte (CHR 0x0A)" by (simp add: byte_def)
    ultimately have "CHR 0x0A \<notin> set line" unfolding list_all_iff by blast
    then have lines: "split_on (CHR 0x0A) (line @ [CHR 0x0A, CHR 0x0A]) = [line, [], []]" by (rule event_lines)
    have "sse_event (prefix @ json_string msg @ ''}'') = line @ [CHR 0x0A, CHR 0x0A]"
      by (simp add: sse_event_def line_def)
    then show ?thesis using lines unfolding line_def by (simp only:)
  qed
  moreover have "scan_string (json_body msg @ CHR 0x22 # ''}'') = Some ''}''"
    by (simp add: scan_body)
  ultimately show ?thesis by blast
qed

end
