(* ===== verification/Startup.thy ===== *)
theory Startup
  imports Go_Path Go_Net Secrets Models
begin

text \<open>
  \<open>cmd/uplarr/main.go\<close>: reading the environment, the Web UI password, the life of the HTTP server
  and the order in which \<open>Run\<close> starts and stops the parts. The environment is a function from
  names to values; \<open>os.Getenv\<close> gives the empty string for a variable that is not set.
\<close>

type_synonym environment = "string \<Rightarrow> string option"

definition get_env :: "environment \<Rightarrow> string \<Rightarrow> string \<Rightarrow> string" where
  "get_env env name fallback = (case env name of None \<Rightarrow> fallback | Some v \<Rightarrow> v)"

definition get_env_int :: "environment \<Rightarrow> string \<Rightarrow> int \<Rightarrow> int" where
  "get_env_int env name fallback =
     (case env name of
        None \<Rightarrow> fallback
      | Some v \<Rightarrow> (case atoi v of Inl _ \<Rightarrow> fallback | Inr i \<Rightarrow> i))"

definition os_getenv :: "environment \<Rightarrow> string \<Rightarrow> string" where
  "os_getenv env name = (case env name of None \<Rightarrow> [] | Some v \<Rightarrow> v)"

subsection \<open>The password\<close>

text \<open>
  What the configuration directory allows, what reading \<open>.auth_password\<close> gives, and the random
  bytes. The result is paired with the content of the file afterwards.
\<close>

record config_dir =
  cd_mkdir_ok :: bool
  cd_root_ok :: bool
  cd_file :: read_result
  cd_random :: "string option"
  cd_write_ok :: bool

definition generate_password :: "config_dir \<Rightarrow> (string + string) \<times> read_result" where
  "generate_password d =
     (case cd_random d of
        None \<Rightarrow> (Inl ''generate password'', cd_file d)
      | Some b \<Rightarrow>
          let pw = raw_url_encode b in
          if cd_write_ok d then (Inr pw, ReadOk (pw @ [CHR 0x0A]))
          else (Inl ''store generated password'', cd_file d))"

definition resolve_auth_password :: "environment \<Rightarrow> config_dir \<Rightarrow> (string + string) \<times> read_result" where
  "resolve_auth_password env d =
     (let pw = get_env env ''AUTH_PASSWORD'' [] in
      if pw \<noteq> [] then (Inr pw, cd_file d)
      else if os_getenv env ''ALLOW_NO_AUTH'' = ''true'' then (Inr [], cd_file d)
      else if \<not> cd_mkdir_ok d then (Inl ''create config directory'', cd_file d)
      else if \<not> cd_root_ok d then (Inl ''open config directory'', cd_file d)
      else
        (case cd_file d of
           ReadOk data \<Rightarrow>
             if trim_space data \<noteq> [] then (Inr (trim_space data), cd_file d) else generate_password d
         | ReadNotExist \<Rightarrow> generate_password d
         | ReadError \<Rightarrow> (Inl ''read .auth_password'', cd_file d)))"

subsection \<open>The server\<close>

datatype serve_result = ServeNil | ServeClosed | ServeFailed string

definition serve_error :: "string \<Rightarrow> serve_result \<Rightarrow> string option" where
  "serve_error text r = (case r of ServeFailed e \<Rightarrow> Some (text @ e) | _ \<Rightarrow> None)"

text \<open>
  \<open>ended\<close> is the result when the server ends before a signal arrives; otherwise \<open>shutdown\<close> is the
  error of \<open>Shutdown\<close> and \<open>late\<close> what the server returns afterwards.
\<close>

definition run_http_server :: "serve_result option \<Rightarrow> string option \<Rightarrow> serve_result \<Rightarrow> string option" where
  "run_http_server ended shutdown late =
     (case ended of
        Some r \<Rightarrow> serve_error ''serve HTTP: '' r
      | None \<Rightarrow>
          (case shutdown of
             Some e \<Rightarrow> Some (''shut down HTTP server: '' @ e)
           | None \<Rightarrow> serve_error ''serve HTTP during shutdown: '' late))"

subsection \<open>Run\<close>

record startup_env =
  st_env :: environment
  st_dir :: "string \<Rightarrow> config_dir"
  st_setup :: "config \<Rightarrow> string option"
  st_ended :: "serve_result option"
  st_shutdown :: "string option"
  st_late :: serve_result

datatype run_event =
    UseKnownHosts string bool
  | UseKeysDir string
  | StartQueue string string
  | SetupRoutes config
  | Listen string
  | StopQueue

definition start_config :: "environment \<Rightarrow> config" where
  "start_config env =
     \<lparr>cf_local_dir = get_env env ''LOCAL_DIR'' ''./test_data'',
      cf_config_dir = get_env env ''CONFIG_DIR'' ''./config'',
      cf_web_port = get_env env ''WEB_PORT'' ''8080'',
      cf_auth_password = [],
      cf_trust_proxy = (os_getenv env ''TRUST_PROXY'' = ''true'')\<rparr>"

definition run_server :: "startup_env \<Rightarrow> string option \<times> run_event list" where
  "run_server e =
     (let env = st_env e; cfg0 = start_config env in
      case fst (resolve_auth_password env (st_dir e (cf_config_dir cfg0))) of
        Inl err \<Rightarrow> (Some (''auth setup failed: '' @ err), [])
      | Inr pw \<Rightarrow>
          let cfg = cfg0\<lparr>cf_auth_password := pw\<rparr>;
              bind = get_env env ''BIND_ADDR'' ''127.0.0.1'';
              events =
                [UseKnownHosts (get_env env ''SSH_KNOWN_HOSTS'' (path_join [cf_config_dir cfg, ''known_hosts'']))
                   (get_env env ''SSH_TOFU'' ''true'' = ''true''),
                 UseKeysDir (get_env env ''SSH_KEYS_DIR'' (path_join [cf_config_dir cfg, ''keys''])),
                 StartQueue (cf_local_dir cfg) (cf_config_dir cfg),
                 SetupRoutes cfg]
          in case st_setup e cfg of
               Some err \<Rightarrow> (Some (''setup failed: '' @ err), events @ [StopQueue])
             | None \<Rightarrow>
                 (run_http_server (st_ended e) (st_shutdown e) (st_late e),
                  events @ [Listen (join_host_port bind (cf_web_port cfg)), StopQueue]))"

definition exit_code :: "startup_env \<Rightarrow> nat" where
  "exit_code e = (case fst (run_server e) of None \<Rightarrow> 0 | Some _ \<Rightarrow> 1)"

subsection \<open>The password survives, and is never empty by accident\<close>

lemma raw_url_nonempty: "b \<noteq> [] \<Longrightarrow> raw_url_encode b \<noteq> []"
  by (cases b; cases "tl b"; cases "tl (tl b)") (auto simp: raw_url_encode_def)

lemma trim_stored:
  assumes "graphic s" "s \<noteq> []"
  shows "trim_space (s @ [CHR 0x0A]) = s"
proof -
  have "hd (s @ [CHR 0x0A]) = hd s" using assms(2) by simp
  then have "graphic [hd (s @ [CHR 0x0A])]" using assms by (auto simp: graphic_def)
  then have left: "trim_left space_codes (s @ [CHR 0x0A]) = s @ [CHR 0x0A]"
    by (intro trim_left_graphic) (auto dest: space_code_ends)
  have "find (\<lambda>w. w \<noteq> [] \<and> has_prefix (CHR 0x0A # rev s) w) (map rev space_codes) = Some [CHR 0x0A]"
    by (simp add: space_codes_def has_prefix_def)
  then have "trim_left (map rev space_codes) (CHR 0x0A # rev s) = trim_left (map rev space_codes) (rev s)"
    by (subst trim_left.simps) simp
  also have "\<dots> = rev s"
  proof (rule trim_left_graphic [OF _ rev_codes])
    show "graphic [hd (rev s)] \<or> rev s = []" using assms by (simp add: hd_rev graphic_def)
  qed
  finally show ?thesis by (simp add: trim_space_def left)
qed

text \<open>
  C40. Starting without a password never opens the Web UI by accident: when the password comes out
  empty, none was given and \<open>ALLOW_NO_AUTH\<close> is exactly \<open>true\<close>; otherwise the start fails or the
  password is not empty. A password that was generated is the one every later start finds, as
  long as the file is kept.
\<close>

theorem password_required_and_stable:
  assumes "cd_random d = Some b" "b \<noteq> []" "resolve_auth_password env d = (Inr pw, file)"
  shows "(pw = []) = (get_env env ''AUTH_PASSWORD'' [] = [] \<and> os_getenv env ''ALLOW_NO_AUTH'' = ''true'')
    \<and> (file = cd_file d \<or> resolve_auth_password env (d'\<lparr>cd_mkdir_ok := True, cd_root_ok := True, cd_file := file\<rparr>) = (Inr pw, file))"
proof -
  have ne: "raw_url_encode b \<noteq> []" by (rule raw_url_nonempty [OF assms(2)])
  have trim: "trim_space (raw_url_encode b @ [CHR 0x0A]) = raw_url_encode b"
    using ne by (intro trim_stored) (auto simp: raw_url_encode_def graphic_url)
  show ?thesis
    using assms(1,3) ne trim
    by (auto simp: resolve_auth_password_def generate_password_def Let_def split: if_splits read_result.splits)
qed

theorem password_required_and_stable_witness:
  "let env = (\<lambda>_. None);
       d = \<lparr>cd_mkdir_ok = True, cd_root_ok = True, cd_file = ReadNotExist, cd_random = Some ''0123456789abcdefgh'', cd_write_ok = True\<rparr>
   in resolve_auth_password env d = (Inr ''MDEyMzQ1Njc4OWFiY2RlZmdo'', ReadOk (''MDEyMzQ1Njc4OWFiY2RlZmdo'' @ [CHR 0x0A]))
     \<and> resolve_auth_password env (d\<lparr>cd_file := ReadOk (''MDEyMzQ1Njc4OWFiY2RlZmdo'' @ [CHR 0x0A])\<rparr>)
         = (Inr ''MDEyMzQ1Njc4OWFiY2RlZmdo'', ReadOk (''MDEyMzQ1Njc4OWFiY2RlZmdo'' @ [CHR 0x0A]))"
proof -
  let ?d = "\<lparr>cd_mkdir_ok = True, cd_root_ok = True, cd_file = ReadNotExist, cd_random = Some ''0123456789abcdefgh'', cd_write_ok = True\<rparr>"
  have run: "resolve_auth_password (\<lambda>_. None) ?d
      = (Inr ''MDEyMzQ1Njc4OWFiY2RlZmdo'', ReadOk (''MDEyMzQ1Njc4OWFiY2RlZmdo'' @ [CHR 0x0A]))"
    by code_simp
  have "cd_random ?d = Some ''0123456789abcdefgh''" "''0123456789abcdefgh'' \<noteq> []" by simp_all
  from password_required_and_stable [OF this run, of ?d] run show ?thesis by (simp add: Let_def)
qed

subsection \<open>The order of starting and stopping\<close>

text \<open>
  The queue is stopped exactly when it was started, as the last thing; the routes are only set
  up after the keys directory and the host key policy are in place, with the password that was
  resolved; by default the server listens on the loopback address; and the exit code tells
  whether \<open>Run\<close> failed.
\<close>

theorem run_stops_what_it_started:
  "(case run_server e of (err, events) \<Rightarrow>
      (events = [] \<or> (\<exists>kh tofu keys cfg pw rest.
         events = [UseKnownHosts kh tofu, UseKeysDir keys, StartQueue (cf_local_dir cfg) (cf_config_dir cfg), SetupRoutes cfg]
           @ rest @ [StopQueue]
         \<and> rest \<in> {[], [Listen (join_host_port (get_env (st_env e) ''BIND_ADDR'' ''127.0.0.1'') (cf_web_port cfg))]}
         \<and> fst (resolve_auth_password (st_env e) (st_dir e (cf_config_dir cfg))) = Inr pw
         \<and> cfg = (start_config (st_env e))\<lparr>cf_auth_password := pw\<rparr>))
      \<and> exit_code e = (if err = None then 0 else 1))"
  by (auto simp: run_server_def exit_code_def Let_def split: sum.splits option.splits)

end
