(* ===== verification/Upload_Attempts.thy ===== *)
theory Upload_Attempts
  imports Upload
begin

text \<open>
  Several attempts at one upload (\<open>UploadFileWithRetry\<close> over \<open>UploadFile\<close>): what a failed attempt
  leaves on the server, why a later attempt that continues it still publishes exactly the local
  file, and what the size and progress callbacks of an attempt report.
\<close>

subsection \<open>The callbacks of an attempt\<close>

datatype report = SizeReport int | ProgressReport int

text \<open>The part of \<open>UploadFile\<close> before the callbacks: an error, or the open temporary file and its offset.\<close>

definition upload_prepare ::
  "('s, 'h) file_ops \<Rightarrow> sftp_client \<Rightarrow> local_file \<Rightarrow> string \<Rightarrow> 's \<Rightarrow> (string + 'h \<times> int) \<times> 's" where
  "upload_prepare ops c lf local_path s =
     (let (remote_path, temp) = upload_paths c local_path in
      case validate_remote_path c remote_path of
        Inl e \<Rightarrow> (Inl e, s)
      | Inr _ \<Rightarrow>
      (case overwrite_check ops c (path_base local_path) remote_path s of
        (Some e, s1) \<Rightarrow> (Inl e, s1)
      | (None, s1) \<Rightarrow>
      (case lf_open_err lf of
        Some e \<Rightarrow> (Inl (''failed to open local file: '' @ e), s1)
      | None \<Rightarrow>
      (case lf_stat_err lf of
        Some e \<Rightarrow> (Inl (''failed to stat local file: '' @ e), s1)
      | None \<Rightarrow> open_temp ops lf temp s1))))"

text \<open>
  The size, then the offset of a continued file, then what the progress reader counts; \<open>reads\<close>
  are the results of the reads the transfer makes.
\<close>

definition attempt_reports :: "local_file \<Rightarrow> int \<Rightarrow> (int \<times> string option) list \<Rightarrow> report list" where
  "attempt_reports lf off reads =
     SizeReport (lf_size lf) # (if off > 0 then [ProgressReport off] else [])
       @ map ProgressReport (snd (fold (\<lambda>r st. snd (progress_read r st)) reads (off, [])))"

text \<open>One attempt, with the reports of all attempts collected behind the state of the server.\<close>

definition upload_attempt ::
  "('s, 'h) file_ops \<Rightarrow> sftp_client \<Rightarrow> local_file \<Rightarrow> string \<Rightarrow> (int \<Rightarrow> 's \<Rightarrow> (int \<times> string option) list)
     \<Rightarrow> 's \<times> report list \<Rightarrow> string option \<times> 's \<times> report list" where
  "upload_attempt ops c lf local_path reads st =
     (case st of (s, rs) \<Rightarrow>
        (case upload_file ops c lf local_path s of
           (res, s') \<Rightarrow>
             (ul_error res, s',
              case upload_prepare ops c lf local_path s of
                (Inl _, _) \<Rightarrow> rs
              | (Inr (h, off), s1) \<Rightarrow> rs @ attempt_reports lf off (reads off s1))))"

text \<open>The rest of \<open>UploadFile\<close>, from the open temporary file on.\<close>

definition upload_rest ::
  "('s, 'h) file_ops \<Rightarrow> sftp_client \<Rightarrow> local_file \<Rightarrow> string \<Rightarrow> string \<Rightarrow> 'h \<Rightarrow> int \<Rightarrow> 's \<Rightarrow> upload_result \<times> 's" where
  "upload_rest ops c lf temp remote_path h off s =
     (case transfer ops lf h off s of
        (Some e, s3) \<Rightarrow> (\<lparr>ul_error = Some e, ul_deleted = False\<rparr>, snd (fo_close ops h s3))
      | (None, s3) \<Rightarrow>
      (case fo_close ops h s3 of
        (Some e, s4) \<Rightarrow> (\<lparr>ul_error = Some (''failed to close remote file: '' @ e), ul_deleted = False\<rparr>, s4)
      | (None, s4) \<Rightarrow> verify_and_publish ops c lf temp remote_path s4))"

lemma upload_file_prepare:
  assumes "upload_paths c local_path = (dest, temp)"
  shows "upload_file ops c lf local_path s =
    (case upload_prepare ops c lf local_path s of
       (Inl e, s1) \<Rightarrow> (\<lparr>ul_error = Some e, ul_deleted = False\<rparr>, s1)
     | (Inr (h, off), s1) \<Rightarrow> upload_rest ops c lf temp dest h off s1)"
  unfolding upload_file_def upload_prepare_def upload_rest_def assms Let_def prod.case
  by (simp split: sum.split prod.split option.split)

subsection \<open>What the reports show\<close>

lemma progress_reports:
  assumes "in64 (off + sum_list (map fst rs))" "\<forall>r\<in>set rs. 0 \<le> fst r" "0 \<le> off"
  shows "\<exists>new. snd (fold (\<lambda>r st. snd (progress_read r st)) rs (off, calls)) = calls @ new
    \<and> (\<forall>n\<in>set new. off \<le> n \<and> n \<le> off + sum_list (map fst rs)) \<and> sorted new"
  using assms
proof (induction rs arbitrary: off calls)
  case Nil
  then show ?case by simp
next
  case (Cons r rs)
  have tail: "0 \<le> sum_list (map fst rs)"
    using Cons.prems(2) by (intro sum_list_nonneg) auto
  have fit: "in64 (off + fst r + sum_list (map fst rs))" "in64 (off + fst r)"
    using Cons.prems tail by (auto simp: in64_def add.assoc)
  define calls' where "calls' = (if fst r > 0 then calls @ [off + fst r] else calls)"
  have step: "snd (progress_read r (off, calls)) = (off + fst r, calls')"
    using fit(2) Cons.prems(2) by (auto simp: progress_read_def calls'_def)
  obtain new where new: "snd (fold (\<lambda>r st. snd (progress_read r st)) rs (off + fst r, calls')) = calls' @ new"
    "\<forall>n\<in>set new. off + fst r \<le> n \<and> n \<le> off + fst r + sum_list (map fst rs)" "sorted new"
    using Cons.IH [of "off + fst r" calls'] fit(1) Cons.prems by auto
  show ?case
    using new step tail Cons.prems(2)
    by (intro exI [of _ "(if fst r > 0 then [off + fst r] else []) @ new"]) (auto simp: calls'_def)
qed

subsection \<open>Failing calls\<close>

text \<open>
  What the session is documented to leave behind when a call fails. A failed transfer has written
  some of the bytes without a gap up to the offset it leaves, and perhaps more behind it; a file
  that cannot be asked for its offset or be truncated belongs to a session that is lost
  (\<open>lost\<close>), on which no later \<open>Stat\<close> or \<open>Create\<close> succeeds; a failed \<open>Create\<close> or \<open>Rename\<close> has
  either happened or not.
\<close>

definition partial_law :: "('s, 'h) file_ops \<Rightarrow> ('s \<Rightarrow> string \<Rightarrow> string option) \<Rightarrow> ('s \<Rightarrow> 'h \<Rightarrow> string \<times> nat) \<Rightarrow> bool" where
  "partial_law ops files pos \<longleftrightarrow> (\<forall>h data s e s' p d. fo_transfer ops h data s = (Some e, s')
     \<and> pos s h = (p, length d) \<and> files s p = Some d \<longrightarrow>
     (\<exists>n d'. files s' = (files s)(p \<mapsto> d') \<and> pos s' h = (p, length d + n) \<and> n \<le> length data
        \<and> prefix (d @ take n data) d'))"

definition offset_law :: "('s, 'h) file_ops \<Rightarrow> ('s \<Rightarrow> string \<Rightarrow> string option) \<Rightarrow> ('s \<Rightarrow> 'h \<Rightarrow> string \<times> nat) \<Rightarrow> ('s \<Rightarrow> bool) \<Rightarrow> bool" where
  "offset_law ops files pos lost \<longleftrightarrow> (\<forall>h s r s'. fo_seek_current ops h s = (r, s') \<longrightarrow>
     files s' = files s \<and> pos s' h = pos s h \<and> (case r of Inl _ \<Rightarrow> lost s' | Inr n \<Rightarrow> n = int (snd (pos s h))))"

definition truncate_law :: "('s, 'h) file_ops \<Rightarrow> ('s \<Rightarrow> string \<Rightarrow> string option) \<Rightarrow> ('s \<Rightarrow> 'h \<Rightarrow> string \<times> nat) \<Rightarrow> ('s \<Rightarrow> bool) \<Rightarrow> bool" where
  "truncate_law ops files pos lost \<longleftrightarrow> (\<forall>h n s r s'. fo_truncate ops h n s = (r, s') \<longrightarrow>
     (case r of
        Some _ \<Rightarrow> files s' = files s \<and> lost s'
      | None \<Rightarrow> files s' = (files s)(fst (pos s h) := map_option (take (nat n)) (files s (fst (pos s h))))))"

definition lost_law :: "('s, 'h) file_ops \<Rightarrow> ('s \<Rightarrow> bool) \<Rightarrow> bool" where
  "lost_law ops lost \<longleftrightarrow> (\<forall>s. lost s \<longrightarrow>
     (\<forall>p r s'. fo_stat ops p s = (r, s') \<longrightarrow> isl r \<and> lost s')
     \<and> (\<forall>p r s'. fo_create ops p s = (r, s') \<longrightarrow> isl r \<and> lost s')
     \<and> (\<forall>h r s'. fo_close ops h s = (r, s') \<longrightarrow> lost s'))"

definition half_law :: "('s, 'h) file_ops \<Rightarrow> ('s \<Rightarrow> string \<Rightarrow> string option) \<Rightarrow> bool" where
  "half_law ops files \<longleftrightarrow>
     (\<forall>p s e s'. fo_create ops p s = (Inl e, s') \<longrightarrow> files s' = files s \<or> files s' = (files s)(p \<mapsto> []))
     \<and> (\<forall>p q s e s'. p \<noteq> q \<and> fo_rename ops p q s = (Some e, s') \<longrightarrow>
          files s' = files s \<or> files s' = (files s)(p := None, q := files s p))"

definition failure_laws ::
  "('s, 'h) file_ops \<Rightarrow> ('s \<Rightarrow> string \<Rightarrow> string option) \<Rightarrow> ('s \<Rightarrow> 'h \<Rightarrow> string \<times> nat) \<Rightarrow> ('s \<Rightarrow> bool) \<Rightarrow> bool" where
  "failure_laws ops files pos lost \<longleftrightarrow> fo_reader_from ops \<and> fo_can_truncate ops
     \<and> partial_law ops files pos \<and> offset_law ops files pos lost \<and> truncate_law ops files pos lost
     \<and> lost_law ops lost \<and> half_law ops files"

text \<open>What a failed attempt keeps: the temporary file is a prefix of the local one, or the session is lost.\<close>

definition temp_ok :: "('s \<Rightarrow> string \<Rightarrow> string option) \<Rightarrow> ('s \<Rightarrow> bool) \<Rightarrow> string \<Rightarrow> string \<Rightarrow> 's \<Rightarrow> bool" where
  "temp_ok files lost temp data s \<longleftrightarrow> lost s \<or> (\<forall>d. files s temp = Some d \<longrightarrow> prefix d data)"

text \<open>The files other than the destination and its temporary file.\<close>

definition others_same :: "('s \<Rightarrow> string \<Rightarrow> string option) \<Rightarrow> string \<Rightarrow> string \<Rightarrow> 's \<Rightarrow> 's \<Rightarrow> bool" where
  "others_same files dest temp s s' \<longleftrightarrow> (\<forall>p. p \<noteq> dest \<and> p \<noteq> temp \<longrightarrow> files s' p = files s p)"

subsection \<open>A session that keeps both kinds of laws\<close>

locale sftp_session =
  fixes ops :: "('s, 'h) file_ops"
    and files :: "'s \<Rightarrow> string \<Rightarrow> string option"
    and pos :: "'s \<Rightarrow> 'h \<Rightarrow> string \<times> nat"
    and lost :: "'s \<Rightarrow> bool"
  assumes laws: "sftp_laws ops files pos"
    and failures: "failure_laws ops files pos lost"
begin

lemma lost_calls:
  assumes "lost s"
  shows "\<exists>e s1. fo_stat ops p s = (Inl e, s1) \<and> lost s1"
    and "\<exists>e s1. fo_create ops p s = (Inl e, s1) \<and> lost s1"
    and "lost (snd (fo_close ops h s))"
proof -
  have l: "\<forall>p r s'. fo_stat ops p s = (r, s') \<longrightarrow> isl r \<and> lost s'"
    "\<forall>p r s'. fo_create ops p s = (r, s') \<longrightarrow> isl r \<and> lost s'"
    "\<forall>h r s'. fo_close ops h s = (r, s') \<longrightarrow> lost s'"
    using failures assms unfolding failure_laws_def lost_law_def by blast+
  obtain r1 s1 where s1: "fo_stat ops p s = (r1, s1)" by fastforce
  then have "isl r1 \<and> lost s1" using l(1) by blast
  with s1 show "\<exists>e s1. fo_stat ops p s = (Inl e, s1) \<and> lost s1" by (auto simp: isl_def)
  obtain r2 s2 where s2: "fo_create ops p s = (r2, s2)" by fastforce
  then have "isl r2 \<and> lost s2" using l(2) by blast
  with s2 show "\<exists>e s1. fo_create ops p s = (Inl e, s1) \<and> lost s1" by (auto simp: isl_def)
  from l(3) show "lost (snd (fo_close ops h s))" by (metis prod.collapse)
qed

lemma capable: "fo_reader_from ops" "fo_can_truncate ops"
  using failures by (simp_all add: failure_laws_def)

lemma partial_write:
  "fo_transfer ops h data s = (Some e, s') \<Longrightarrow> pos s h = (p, length d) \<Longrightarrow> files s p = Some d \<Longrightarrow>
     \<exists>n d'. files s' = (files s)(p \<mapsto> d') \<and> pos s' h = (p, length d + n) \<and> n \<le> length data
        \<and> prefix (d @ take n data) d'"
  using failures unfolding failure_laws_def partial_law_def by blast

lemma offset_known:
  "fo_seek_current ops h s = (r, s') \<Longrightarrow>
     files s' = files s \<and> pos s' h = pos s h \<and> (case r of Inl _ \<Rightarrow> lost s' | Inr n \<Rightarrow> n = int (snd (pos s h)))"
  using failures by (simp add: failure_laws_def offset_law_def)

lemma truncated:
  "fo_truncate ops h n s = (r, s') \<Longrightarrow>
     (case r of
        Some _ \<Rightarrow> files s' = files s \<and> lost s'
      | None \<Rightarrow> files s' = (files s)(fst (pos s h) := map_option (take (nat n)) (files s (fst (pos s h)))))"
  using failures by (simp add: failure_laws_def truncate_law_def)

lemma create_failed: "fo_create ops p s = (Inl e, s') \<Longrightarrow> files s' = files s \<or> files s' = (files s)(p \<mapsto> [])"
  using failures by (simp add: failure_laws_def half_law_def)

lemma rename_failed:
  "p \<noteq> q \<Longrightarrow> fo_rename ops p q s = (Some e, s') \<Longrightarrow>
     files s' = files s \<or> files s' = (files s)(p := None, q := files s p)"
  using failures by (simp add: failure_laws_def half_law_def)

lemma close_keeps: "files (snd (fo_close ops h s)) = files s" "lost s \<Longrightarrow> lost (snd (fo_close ops h s))"
  using law_close [OF laws, of h s "fst (fo_close ops h s)"] lost_calls(3) [of s h]
  by simp_all

text \<open>After a failed transfer and the trimming, the file is a prefix of the local one again.\<close>

lemma trim_restores:
  assumes "fo_transfer ops h (drop (length d) data) s = (Some e, s1)"
    and "pos s h = (p, length d)" "files s p = Some d" "prefix d data"
  shows "let s2 = trim_partial_upload ops h s1 in
    (lost s2 \<or> (\<exists>d2. files s2 p = Some d2 \<and> prefix d2 data)) \<and> (\<forall>q. q \<noteq> p \<longrightarrow> files s2 q = files s q)"
proof -
  obtain n d' where w: "files s1 = (files s)(p \<mapsto> d')" "pos s1 h = (p, length d + n)"
    "n \<le> length (drop (length d) data)" "prefix (d @ take n (drop (length d) data)) d'"
    using partial_write [OF assms(1-3)] by blast
  obtain r s2 where r: "fo_seek_current ops h s1 = (r, s2)" by fastforce
  note o1 = offset_known [OF r]
  show ?thesis
  proof (cases r)
    case (Inl e)
    then show ?thesis using o1 r w capable by (simp add: trim_partial_upload_def Let_def)
  next
    case (Inr m)
    obtain x s3 where x: "fo_truncate ops h m s2 = (x, s3)" by fastforce
    have trim: "trim_partial_upload ops h s1 = s3" using r Inr x capable by (simp add: trim_partial_upload_def)
    have m: "nat m = length d + n" using o1 Inr w by simp
    have d: "d @ drop (length d) data = data" using assms(4) by (auto simp: prefix_def)
    have "length (d @ take n (drop (length d) data)) = length d + n" using w(3) by simp
    then have "take (length d + n) d' = d @ take n (drop (length d) data)"
      using w(4) by (auto simp: prefix_def)
    moreover have "prefix (d @ take n (drop (length d) data)) data"
      using same_prefix_prefix [of d "take n (drop (length d) data)" "drop (length d) data"] take_is_prefix
      by (simp add: d)
    ultimately show ?thesis
      using truncated [OF x] o1 w m trim by (cases x) (auto simp: Let_def)
  qed
qed

lemma open_temp_lost:
  assumes "lost s" "open_temp ops lf temp s = (r, s')"
  shows "isl r \<and> lost s'"
proof -
  obtain e s1 where s1: "fo_stat ops temp s = (Inl e, s1)" "lost s1" using lost_calls(1) [OF assms(1)] by blast
  obtain e' s2 where "fo_create ops temp s1 = (Inl e', s2)" "lost s2" using lost_calls(2) [OF s1(2)] by blast
  with s1 assms(2) show ?thesis by (auto simp: open_temp_def create_temp_def)
qed

lemma check_lost: "lost s \<Longrightarrow> overwrite_check ops c n dest s = (e, s1) \<Longrightarrow> lost s1"
  using lost_calls(1) [of s dest] by (auto simp: overwrite_check_def split: if_splits)

text \<open>On a lost session no attempt gets as far as a transfer.\<close>

lemma prepare_lost:
  assumes "lost s" "upload_prepare ops c lf local_path s = (r, s')"
  shows "isl r \<and> lost s'"
proof -
  obtain dest temp where paths: "upload_paths c local_path = (dest, temp)" by fastforce
  obtain e s1 where e: "overwrite_check ops c (path_base local_path) dest s = (e, s1)" by fastforce
  note open_temp_lost [OF check_lost [OF assms(1) e]]
  with assms paths e check_lost [OF assms(1) e] show ?thesis
    by (auto simp: upload_prepare_def split: sum.splits option.splits)
qed

lemma prepare_files:
  assumes "upload_prepare ops c lf local_path s = (r, s')" "upload_paths c local_path = (dest, temp)"
  shows "(files s' = files s \<or> files s' = (files s)(temp \<mapsto> []))
    \<or> (\<exists>h off. r = Inr (h, off))"
proof (cases r)
  case (Inl e)
  have create: "files s' = files x \<or> files s' = (files x)(temp \<mapsto> [])" if "create_temp ops temp x = (Inl e, s')" for x
    using that create_failed [of temp x] by (auto simp: create_temp_def split: prod.splits sum.splits)
  have check: "files s1 = files s" if "overwrite_check ops c n dest s = (o1, s1)" for n o1 s1
    using that law_stat [OF laws] by (auto simp: overwrite_check_def split: if_splits prod.splits sum.splits)
  have opened: "files s' = files x \<or> files s' = (files x)(temp \<mapsto> [])" if o: "open_temp ops lf temp x = (Inl e, s')" for x
  proof -
    obtain r1 x1 where r1: "fo_stat ops temp x = (r1, x1)" by fastforce
    have f1: "files x1 = files x" using law_stat [OF laws r1] by simp
    consider "create_temp ops temp x1 = (Inl e, s')"
      | n x2 where "r1 = Inr n" "0 < n" "n < lf_size lf" "try_resume ops lf temp n x1 = (None, x2)"
          "create_temp ops temp x2 = (Inl e, s')"
      using o r1 by (auto simp: open_temp_def split: sum.splits if_splits prod.splits option.splits)
    then show ?thesis
    proof cases
      case 1
      then show ?thesis using create [OF 1] unfolding f1 by simp
    next
      case 2
      obtain d where "files x temp = Some d" "n = int (length d)"
        using law_stat [OF laws r1] 2 by auto
      then have "files x2 = files x1"
        using resume_spec [OF laws, of lf temp d x1 None x2] 2 f1 by simp
      then show ?thesis using create [OF 2(5)] unfolding f1 by simp
    qed
  qed
  show ?thesis
    using assms Inl
    by (auto simp: upload_prepare_def split: sum.splits prod.splits option.splits dest: check dest!: opened)
qed auto

lemma publish_keeps:
  assumes run: "verify_and_publish ops c lf temp dest s = (res, s')" and "temp \<noteq> dest"
    and sent: "files s temp = Some (lf_data lf)"
  shows "(if ul_error res = None then files s' dest = Some (lf_data lf) \<and> files s' temp = None
      else temp_ok files lost temp (lf_data lf) s') \<and> others_same files dest temp s s'"
proof -
  obtain r s1 where r: "fo_stat ops temp s = (r, s1)" by fastforce
  define s2 where "s2 = (if sc_overwrite c then snd (fo_remove ops dest s1) else s1)"
  obtain x s3 where x: "fo_rename ops temp dest s2 = (x, s3)" by fastforce
  have f1: "files s1 = files s" using law_stat [OF laws r] by simp
  then have f2: "files s2 = files s \<or> files s2 = (files s)(dest := None)"
    using law_remove [OF laws, of dest s1 "fst (fo_remove ops dest s1)"] by (auto simp: s2_def)
  show ?thesis
  proof (cases "r = Inr (lf_size lf)")
    case False
    then have "s' = s1 \<and> ul_error res \<noteq> None"
      using run r by (auto simp: verify_and_publish_def Let_def split: sum.splits if_splits)
    then show ?thesis using f1 sent by (simp add: temp_ok_def others_same_def)
  next
    case True
    have "s' = s3 \<and> (ul_error res = None \<longleftrightarrow> x = None)"
      using run r x True unfolding s2_def
      by (auto simp: verify_and_publish_def Let_def split: option.splits)
    moreover have "files s3 = files s2 \<or> files s3 = (files s2)(temp := None, dest := files s2 temp)"
      "x = None \<Longrightarrow> files s3 = (files s2)(temp := None, dest := files s2 temp)"
      using law_rename [OF laws assms(2), of s2 s3] rename_failed [OF assms(2), of s2 _ s3] x
      by (cases x; auto)+
    moreover have "files s2 temp = Some (lf_data lf)" "p \<noteq> dest \<Longrightarrow> files s2 p = files s p" for p
      using f2 sent assms(2) by auto
    ultimately show ?thesis
      using assms(2) by (auto simp: temp_ok_def others_same_def)
  qed
qed

lemma rest_keeps:
  assumes run: "upload_rest ops c lf temp dest h off s = (res, s')" and "temp \<noteq> dest"
    and opened: "pos s h = (temp, length d)" "off = int (length d)" "files s temp = Some d" "prefix d (lf_data lf)"
  shows "(if ul_error res = None then files s' dest = Some (lf_data lf) \<and> files s' temp = None
      else temp_ok files lost temp (lf_data lf) s') \<and> others_same files dest temp s s'"
proof -
  let ?data = "lf_data lf"
  obtain r s3 where r: "fo_transfer ops h (drop (length d) ?data) s = (r, s3)" by fastforce
  show ?thesis
  proof (cases r)
    case (Some e)
    then have s': "s' = snd (fo_close ops h (trim_partial_upload ops h s3))" "ul_error res \<noteq> None"
      using run r opened(2) capable by (auto simp: upload_rest_def transfer_def)
    have "fo_transfer ops h (drop (length d) ?data) s = (Some e, s3)" using r Some by simp
    from trim_restores [OF this opened(1,3,4)] s' show ?thesis
      by (auto simp: Let_def temp_ok_def others_same_def close_keeps)
  next
    case None
    obtain x s4 where x: "fo_close ops h s3 = (x, s4)" by fastforce
    have "d @ drop (length d) ?data = ?data" using opened(4) by (auto simp: prefix_def)
    then have f4: "files s4 = (files s)(temp \<mapsto> ?data)"
      using law_transfer [OF laws r [unfolded None]] law_close [OF laws x] opened by simp
    show ?thesis
    proof (cases x)
      case (Some e)
      then show ?thesis
        using run r None opened(2) x f4 by (auto simp: upload_rest_def transfer_def temp_ok_def others_same_def)
    next
      case closed: None
      have "verify_and_publish ops c lf temp dest s4 = (res, s')"
        using run r None opened(2) x closed by (simp add: upload_rest_def transfer_def)
      from publish_keeps [OF this assms(2)] f4 show ?thesis
        by (auto simp: others_same_def)
    qed
  qed
qed

text \<open>One attempt: it publishes exactly the local file or leaves something it is safe to continue.\<close>

lemma attempt_keeps:
  assumes run: "upload_file ops c lf local_path s = (res, s')"
    and paths: "upload_paths c local_path = (dest, temp)"
    and ok: "temp_ok files lost temp (lf_data lf) s"
  shows "(if ul_error res = None then files s' dest = Some (lf_data lf) \<and> files s' temp = None
      else temp_ok files lost temp (lf_data lf) s') \<and> others_same files dest temp s s'"
proof -
  obtain r s1 where r: "upload_prepare ops c lf local_path s = (r, s1)" by fastforce
  note split = upload_file_prepare [OF paths, of ops lf s, unfolded run r]
  show ?thesis
  proof (cases r)
    case (Inl e)
    then have "s' = s1" "ul_error res \<noteq> None" using split by simp_all
    moreover have "files s1 = files s \<or> files s1 = (files s)(temp \<mapsto> [])"
      using prepare_files [OF r paths] Inl by auto
    moreover have "lost s \<Longrightarrow> lost s1" using prepare_lost [OF _ r] by simp
    ultimately show ?thesis using ok by (auto simp: temp_ok_def others_same_def)
  next
    case (Inr ho)
    then obtain h off where ho: "r = Inr (h, off)" by (cases ho) auto
    then have alive: "\<not> lost s" using prepare_lost [OF _ r] by auto
    obtain s0 where s0: "overwrite_check ops c (path_base local_path) dest s = (None, s0)"
      "open_temp ops lf temp s0 = (Inr (h, off), s1)"
      using r ho paths by (auto simp: upload_prepare_def split: sum.splits prod.splits option.splits)
    have f0: "files s0 = files s"
      using s0(1) law_stat [OF laws] by (auto simp: overwrite_check_def split: if_splits prod.splits sum.splits)
    obtain d where d: "files s1 = (files s0)(temp \<mapsto> d)" "pos s1 h = (temp, length d)" "off = int (length d)"
      "d = [] \<or> files s0 temp = Some d"
      using open_temp_spec [OF laws s0(2)] by blast
    have "prefix d (lf_data lf)" using d(4) f0 ok alive by (auto simp: temp_ok_def)
    moreover have "upload_rest ops c lf temp dest h off s1 = (res, s')" using split ho by simp
    ultimately show ?thesis
      using rest_keeps [OF _ temp_differs [OF paths] d(2,3)] d(1) f0 by (auto simp: others_same_def)
  qed
qed

lemma retry_keeps:
  assumes paths: "upload_paths c local_path = (dest, temp)"
  shows "temp_ok files lost temp (lf_data lf) (fst st) \<Longrightarrow>
    retry_from (upload_attempt ops c lf local_path reads) stop left n e st = (r, st') \<Longrightarrow>
    (if r = None then files (fst st') dest = Some (lf_data lf) \<and> files (fst st') temp = None
     else temp_ok files lost temp (lf_data lf) (fst st')) \<and> others_same files dest temp (fst st) (fst st')"
proof (induction left arbitrary: n e st)
  case 0
  then show ?case by (auto simp: others_same_def)
next
  case (Suc left)
  obtain s rs where st: "st = (s, rs)" by fastforce
  obtain x s1 rs1 where up: "upload_attempt ops c lf local_path reads st = (x, s1, rs1)" by (metis prod_cases3)
  obtain res where res: "upload_file ops c lf local_path s = (res, s1)" "ul_error res = x"
    using up unfolding st upload_attempt_def by (auto split: prod.splits)
  note one = attempt_keeps [OF res(1) paths, unfolded res(2)]
  show ?case
  proof (cases "\<exists>e'. x = Some e' \<and> left > 0 \<and> stop n = None")
    case False
    then consider (success) "x = None" | (last) e' where "x = Some e'" "left = 0" | (stopped) e' c' where "x = Some e'" "left > 0" "stop n = Some c'"
      by (cases x; cases "left = 0"; cases "stop n"; auto)
    then have "st' = (s1, rs1) \<and> (r = None \<longleftrightarrow> x = None)"
      using Suc.prems(2) up by cases (auto, metis)
    then show ?thesis using one Suc.prems(1) st by simp
  next
    case True
    then obtain e' where e': "x = Some e'" "left > 0" "stop n = None" by blast
    have "retry_from (upload_attempt ops c lf local_path reads) stop left (Suc n) e' (s1, rs1) = (r, st')"
      using Suc.prems(2) up e' by simp
    moreover have "temp_ok files lost temp (lf_data lf) (fst (s1, rs1))" "others_same files dest temp s s1"
      using one Suc.prems(1) st e' by simp_all
    ultimately show ?thesis
      using Suc.IH [of "(s1, rs1)" "Suc n" e'] st by (auto simp: others_same_def)
  qed
qed

lemma retry_exact:
  assumes paths: "upload_paths c local_path = (dest, temp)"
    and stale: "\<forall>d. files s temp = Some d \<longrightarrow> prefix d (lf_data lf)"
    and run: "upload_with_retry (upload_attempt ops c lf local_path reads) stop max_retries (s, []) = (r, s', reports)"
  shows "(if r = None then files s' dest = Some (lf_data lf) \<and> files s' temp = None
      else lost s' \<or> (\<forall>d. files s' temp = Some d \<longrightarrow> prefix d (lf_data lf)))
    \<and> (\<forall>p. p \<noteq> dest \<and> p \<noteq> temp \<longrightarrow> files s' p = files s p)"
proof -
  have "temp_ok files lost temp (lf_data lf) (fst (s, [] :: report list))"
    using stale by (simp add: temp_ok_def)
  from retry_keeps [OF paths this run [unfolded upload_with_retry_def]]
  show ?thesis by (cases r) (simp_all add: temp_ok_def others_same_def)
qed

end

subsection \<open>Retried uploads are exact\<close>


subsection \<open>A server whose transfers fail\<close>

text \<open>
  The small server of \<open>Upload\<close>, with a number of transfers that break off after one byte and leave
  garbage behind it.
\<close>

record flaky_server =
  fs_server :: small_server
  fs_failures :: nat

definition lifted :: "(small_server \<Rightarrow> 'a \<times> small_server) \<Rightarrow> flaky_server \<Rightarrow> 'a \<times> flaky_server" where
  "lifted f s = (case f (fs_server s) of (r, v) \<Rightarrow> (r, s\<lparr>fs_server := v\<rparr>))"

definition broken_write :: "string \<Rightarrow> small_server \<Rightarrow> string option \<times> small_server" where
  "broken_write data v =
     (case (sv_files v (fst (sv_pos v)), sv_pos v) of
        (Some d, (p, k)) \<Rightarrow>
          (Some ''connection reset'',
           v\<lparr>sv_files := (sv_files v)(p \<mapsto> take k d @ take 1 data @ ''??''), sv_pos := (p, k + length (take 1 data))\<rparr>)
      | _ \<Rightarrow> (Some ''invalid handle'', v))"

definition cut_file :: "int \<Rightarrow> small_server \<Rightarrow> string option \<times> small_server" where
  "cut_file n v =
     (None, v\<lparr>sv_files := (sv_files v)(fst (sv_pos v) := map_option (take (nat n)) (sv_files v (fst (sv_pos v))))\<rparr>)"

definition flaky_ops :: "(flaky_server, unit) file_ops" where
  "flaky_ops =
     \<lparr>fo_stat = (\<lambda>p. lifted (fo_stat small_ops p)), fo_open = (\<lambda>p. lifted (fo_open small_ops p)),
      fo_create = (\<lambda>p. lifted (fo_create small_ops p)), fo_read_full = (\<lambda>h n. lifted (fo_read_full small_ops h n)),
      fo_seek_end = (\<lambda>h. lifted (fo_seek_end small_ops h)),
      fo_seek_current = (\<lambda>h. lifted (fo_seek_current small_ops h)),
      fo_truncate = (\<lambda>h n. lifted (cut_file n)),
      fo_transfer = (\<lambda>h data s. if fs_failures s > 0
         then lifted (broken_write data) (s\<lparr>fs_failures := fs_failures s - 1\<rparr>)
         else lifted (fo_transfer small_ops h data) s),
      fo_close = (\<lambda>h. lifted (fo_close small_ops h)),
      fo_remove = (\<lambda>p. lifted (fo_remove small_ops p)), fo_rename = (\<lambda>p q. lifted (fo_rename small_ops p q)),
      fo_reader_from = True, fo_can_truncate = True\<rparr>"

lemma lifted_run: "lifted f s = (r, s') \<longleftrightarrow> f (fs_server s) = (r, fs_server s') \<and> s' = s\<lparr>fs_server := fs_server s'\<rparr>"
  by (cases "f (fs_server s)") (auto simp: lifted_def)

abbreviation flaky_files :: "flaky_server \<Rightarrow> string \<Rightarrow> string option" where
  "flaky_files s \<equiv> sv_files (fs_server s)"

abbreviation flaky_pos :: "flaky_server \<Rightarrow> unit \<Rightarrow> string \<times> nat" where
  "flaky_pos s u \<equiv> sv_pos (fs_server s)"

lemma flaky_laws: "sftp_laws flaky_ops flaky_files flaky_pos"
proof -
  show ?thesis
    unfolding sftp_laws_def
  proof (intro conjI)
    show "stat_law flaky_ops flaky_files"
      using law_stat [OF small_laws] unfolding stat_law_def flaky_ops_def file_ops.simps lifted_run by blast
    show "create_law flaky_ops flaky_files flaky_pos"
      using law_create [OF small_laws] unfolding create_law_def flaky_ops_def file_ops.simps lifted_run by blast
    show "open_law flaky_ops flaky_files flaky_pos"
      using law_open [OF small_laws] unfolding open_law_def flaky_ops_def file_ops.simps lifted_run by blast
    show "read_law flaky_ops flaky_files flaky_pos"
      using law_read [OF small_laws] unfolding read_law_def flaky_ops_def file_ops.simps lifted_run by blast
    show "seek_law flaky_ops flaky_files flaky_pos"
      using law_seek [OF small_laws] unfolding seek_law_def flaky_ops_def file_ops.simps lifted_run by blast
    show "transfer_law flaky_ops flaky_files flaky_pos"
      using law_transfer [OF small_laws] unfolding transfer_law_def
      by (auto simp: flaky_ops_def lifted_run broken_write_def split: option.splits prod.splits if_splits)
    show "close_law flaky_ops flaky_files"
      using law_close [OF small_laws] unfolding close_law_def flaky_ops_def file_ops.simps lifted_run by blast
    show "remove_law flaky_ops flaky_files"
      using law_remove [OF small_laws] unfolding remove_law_def flaky_ops_def file_ops.simps lifted_run by blast
    show "rename_law flaky_ops flaky_files"
      using law_rename [OF small_laws] unfolding rename_law_def flaky_ops_def file_ops.simps lifted_run by blast
  qed
qed

lemma flaky_failures: "failure_laws flaky_ops flaky_files flaky_pos (\<lambda>_. False)"
  unfolding failure_laws_def
proof (intro conjI)
  show "partial_law flaky_ops flaky_files flaky_pos"
    unfolding partial_law_def
  proof (intro allI impI, elim conjE)
    fix h data s e s' p d
    assume t: "fo_transfer flaky_ops h data s = (Some e, s')" and at: "flaky_pos s h = (p, length d)" "flaky_files s p = Some d"
    then have "fs_failures s > 0"
      by (auto simp: flaky_ops_def small_ops_def small_write_def lifted_run split: if_splits)
    then have "flaky_files s' = (flaky_files s)(p \<mapsto> d @ take 1 data @ ''??'')"
      "flaky_pos s' h = (p, length d + length (take 1 data))"
      using t at by (auto simp: flaky_ops_def broken_write_def lifted_def)
    then show "\<exists>n d'. flaky_files s' = (flaky_files s)(p \<mapsto> d') \<and> flaky_pos s' h = (p, length d + n)
        \<and> n \<le> length data \<and> prefix (d @ take n data) d'"
      by (intro exI [of _ "length (take 1 data)"] exI [of _ "d @ take 1 data @ ''??''"]) (auto simp: prefix_def min_def)
  qed
  show "offset_law flaky_ops flaky_files flaky_pos (\<lambda>_. False)"
    by (auto simp: offset_law_def flaky_ops_def small_ops_def lifted_def)
  show "truncate_law flaky_ops flaky_files flaky_pos (\<lambda>_. False)"
    by (auto simp: truncate_law_def flaky_ops_def cut_file_def lifted_def)
  show "half_law flaky_ops flaky_files"
    by (auto simp: half_law_def flaky_ops_def small_ops_def lifted_def split: option.splits prod.splits)
qed (simp_all add: flaky_ops_def lost_law_def)

interpretation flaky: sftp_session flaky_ops flaky_files flaky_pos "\<lambda>_. False"
  by unfold_locales (rule flaky_laws, rule flaky_failures)

definition flaky_with :: "nat \<Rightarrow> flaky_server" where
  "flaky_with n = \<lparr>fs_server = server_with [], fs_failures = n\<rparr>"


end
