(* ===== verification/Reader_Stack.thy ===== *)
theory Reader_Stack
  imports Upload
begin

text \<open>
  What \<open>UploadFile\<close> hands to \<open>pkg/sftp\<close>: the local file behind the throttle, the context and the
  progress counter (\<open>internal/sftpclient/client.go\<close>). A reader is its \<open>Read\<close>, on a state that holds
  everything the stack touches, and the two methods \<open>pkg/sftp\<close> looks for by type assertion, each
  absent or present. \<open>Read\<close> gives None when it would never return.
\<close>

subsection \<open>The readers\<close>

record 's reader =
  rd_read :: "nat \<Rightarrow> 's \<Rightarrow> ((string \<times> string option) \<times> 's) option"
  rd_stat :: "int option option"
  rd_size :: "int option"

definition throttled_stat :: "'s reader \<Rightarrow> int option" where
  "throttled_stat r = (case rd_stat r of Some res \<Rightarrow> res | None \<Rightarrow> None)"

definition throttled_size :: "'s reader \<Rightarrow> int" where
  "throttled_size r =
     (case rd_size r of
        Some n \<Rightarrow> n
      | None \<Rightarrow> (case rd_stat r of Some (Some n) \<Rightarrow> n | _ \<Rightarrow> 0))"

definition throttled_reader :: "(int \<Rightarrow> 's \<Rightarrow> string option \<times> 's) \<Rightarrow> limiter option \<Rightarrow> 's reader \<Rightarrow> 's reader" where
  "throttled_reader wait_n l r =
     \<lparr>rd_read = (\<lambda>p s.
        case rd_read r p s of
          None \<Rightarrow> None
        | Some ((data, err), s') \<Rightarrow>
            map_option (\<lambda>((_, err'), s''). ((data, err'), s''))
              (throttled_read wait_n l (int (length data), err) s')),
      rd_stat = Some (throttled_stat r), rd_size = Some (throttled_size r)\<rparr>"

definition context_stat :: "'s reader \<Rightarrow> int option" where
  "context_stat r = (case rd_stat r of Some res \<Rightarrow> res | None \<Rightarrow> None)"

definition context_size :: "'s reader \<Rightarrow> int" where
  "context_size r =
     (case rd_size r of
        Some n \<Rightarrow> n
      | None \<Rightarrow> (case rd_stat r of Some (Some n) \<Rightarrow> n | _ \<Rightarrow> 0))"

text \<open>\<open>ctx\<close> reads the error of the context, if it is done, off the state.\<close>

definition context_reader :: "('s \<Rightarrow> string option) \<Rightarrow> 's reader \<Rightarrow> 's reader" where
  "context_reader ctx r =
     \<lparr>rd_read = (\<lambda>p s. case ctx s of Some e \<Rightarrow> Some (([], Some e), s) | None \<Rightarrow> rd_read r p s),
      rd_stat = Some (context_stat r), rd_size = Some (context_size r)\<rparr>"

definition progress_stat :: "'s reader \<Rightarrow> int option" where
  "progress_stat r = (case rd_stat r of Some res \<Rightarrow> res | None \<Rightarrow> None)"

definition progress_size :: "'s reader \<Rightarrow> int" where
  "progress_size r =
     (case rd_size r of
        Some n \<Rightarrow> n
      | None \<Rightarrow> (case rd_stat r of Some (Some n) \<Rightarrow> n | _ \<Rightarrow> 0))"

text \<open>The state gets the count of the progress reader and the calls it has made.\<close>

definition progress_reader :: "'s reader \<Rightarrow> ('s \<times> int \<times> int list) reader" where
  "progress_reader r =
     \<lparr>rd_read = (\<lambda>p (s, st).
        map_option (\<lambda>((data, err), s'). ((data, err), s', snd (progress_read (int (length data), err) st))) (rd_read r p s)),
      rd_stat = Some (progress_stat r), rd_size = Some (progress_size r)\<rparr>"

text \<open>The stack as \<open>UploadFile\<close> builds it, and whether it starts the latency sampler.\<close>

definition upload_reader ::
  "(int \<Rightarrow> 's \<Rightarrow> string option \<times> 's) \<Rightarrow> ('s \<Rightarrow> string option) \<Rightarrow> limiter option \<Rightarrow> 's reader
     \<Rightarrow> ('s \<times> int \<times> int list) reader" where
  "upload_reader wait_n ctx l local_file =
     (let r1 = (if l \<noteq> None then throttled_reader wait_n l local_file else local_file);
          r2 = context_reader ctx r1
      in progress_reader r2)"

definition starts_sampler :: "sftp_client \<Rightarrow> limiter option \<Rightarrow> bool" where
  "starts_sampler c l \<longleftrightarrow> l \<noteq> None \<and> sc_max_latency_ms c > 0"

text \<open>The file itself: \<open>*os.File\<close> has \<open>Stat\<close> and no \<open>Size\<close>. A read may give less than it is asked for, or fail.\<close>

definition file_reader ::
  "int option \<Rightarrow> ('t \<Rightarrow> string \<Rightarrow> nat) \<Rightarrow> ('t \<Rightarrow> string option) \<Rightarrow> (string \<times> 't) reader" where
  "file_reader stat give fail =
     \<lparr>rd_read = (\<lambda>p (rest, t).
        case fail t of
          Some e \<Rightarrow> Some (([], Some e), rest, t)
        | None \<Rightarrow>
            if rest = [] then Some (([], Some ''EOF''), rest, t)
            else let n = min p (give t rest) in Some ((take n rest, None), drop n rest, t)),
      rd_stat = Some stat, rd_size = None\<rparr>"

subsection \<open>Sources of bytes\<close>

text \<open>Successive reads with buffers of the given sizes; the caller goes on after errors or not.\<close>

fun reads :: "'s reader \<Rightarrow> nat list \<Rightarrow> 's \<Rightarrow> ((string \<times> string option) list \<times> 's) option" where
  "reads r [] s = Some ([], s)"
| "reads r (p # ps) s =
     (case rd_read r p s of
        None \<Rightarrow> None
      | Some (x, s') \<Rightarrow> map_option (\<lambda>(xs, s''). (x # xs, s'')) (reads r ps s'))"

text \<open>The contract of a reader: every read returns, and hands out the next bytes, whatever error it gives.\<close>

locale byte_source =
  fixes r :: "'s reader" and pending :: "'s \<Rightarrow> string"
  assumes returns: "rd_read r p s \<noteq> None"
    and hands_out: "rd_read r p s = Some ((data, err), s') \<Longrightarrow> pending s = data @ pending s'"
begin

lemma reads_all: "\<exists>xs s'. reads r ps s = Some (xs, s') \<and> pending s = concat (map fst xs) @ pending s'"
proof (induction ps arbitrary: s)
  case (Cons p ps)
  obtain data err s1 where one: "rd_read r p s = Some ((data, err), s1)"
    using returns [of p s] by auto
  moreover obtain xs s' where "reads r ps s1 = Some (xs, s')" "pending s1 = concat (map fst xs) @ pending s'"
    using Cons.IH [of s1] by (elim exE conjE)
  ultimately show ?case using hands_out [OF one] by simp
qed simp

end

interpretation local_file: byte_source "file_reader stat give fail" fst for stat give fail
  by unfold_locales (auto simp: file_reader_def Let_def split: option.splits if_splits)

subsection \<open>Each reader keeps the contract\<close>

lemma throttle_loop_returns:
  assumes "0 < burst" "\<And>n s. rem (snd (wait_n n s)) = rem s"
  shows "\<exists>err s'. throttle_loop wait_n burst n s = Some (err, s') \<and> rem s' = rem s"
proof (induction "nat n" arbitrary: n s rule: less_induct)
  case less
  show ?case
  proof (cases "0 < n")
    case True
    define w where "w = (if n > burst then burst else n)"
    have w: "nat (n - w) < nat n" using True assms(1) by (auto simp: w_def)
    obtain err s1 where wt: "wait_n w s = (err, s1)" by fastforce
    then have "rem s1 = rem s" using assms(2) [of w s] by simp
    with less.hyps [OF w, of s1] wt True show ?thesis
      by (subst (1) throttle_loop.simps) (auto simp: Let_def simp flip: w_def split: option.split)
  qed (simp add: throttle_loop.simps)
qed

lemma throttled_source:
  assumes "byte_source r pending" "0 < lm_burst l" "\<And>n s. pending (snd (wait_n n s)) = pending s"
  shows "byte_source (throttled_reader wait_n (Some l) r) pending"
proof
  have loop: "\<exists>err s'. throttle_loop wait_n (lm_burst l) n s = Some (err, s') \<and> pending s' = pending s" for n s
    by (rule throttle_loop_returns [where rem = pending]) (simp_all add: assms(2,3))
  have inner: "\<exists>x s'. throttled_read wait_n (Some l) (n, err) s = Some (x, s') \<and> pending s' = pending s" for n err s
    using loop [of n s] by (cases "0 < n") (fastforce simp: throttled_read_def)+
  fix p s data err s'
  show "rd_read (throttled_reader wait_n (Some l) r) p s \<noteq> None"
    using byte_source.returns [OF assms(1), of p s] inner
    by (fastforce simp: throttled_reader_def split: option.split prod.split)
  assume "rd_read (throttled_reader wait_n (Some l) r) p s = Some ((data, err), s')"
  then obtain err1 s1 x where one: "rd_read r p s = Some ((data, err1), s1)"
    and two: "throttled_read wait_n (Some l) (int (length data), err1) s1 = Some (x, s')"
    by (auto simp: throttled_reader_def split: option.splits prod.splits)
  have "pending s' = pending s1" using inner [of "int (length data)" err1 s1] two by auto
  then show "pending s = data @ pending s'"
    using byte_source.hands_out [OF assms(1) one] by simp
qed

lemma context_source: "byte_source r pending \<Longrightarrow> byte_source (context_reader ctx r) pending"
  unfolding byte_source_def context_reader_def by (simp split: option.split)

lemma progress_source: "byte_source r pending \<Longrightarrow> byte_source (progress_reader r) (\<lambda>(s, st). pending s)"
  unfolding byte_source_def progress_reader_def by (auto split: option.splits)

lemma upload_source:
  assumes "byte_source f pending" "\<And>n s. pending (snd (wait_n n s)) = pending s"
    and "case l of None \<Rightarrow> True | Some l' \<Rightarrow> 0 < lm_burst l'"
  shows "byte_source (upload_reader wait_n ctx l f) (\<lambda>(s, st). pending s)"
  unfolding upload_reader_def Let_def
  using assms by (intro progress_source context_source) (auto intro: throttled_source split: option.splits)

text \<open>The throttle an upload makes for itself has a positive burst.\<close>

lemma own_limiter_burst: "case upload_limiter c None of None \<Rightarrow> True | Some l \<Rightarrow> 0 < lm_burst l"
proof -
  have "0 < limiter_burst x" for x by (simp add: limiter_burst_def)
  then show ?thesis by (simp add: upload_limiter_def new_limiter_def float_int_def Let_def)
qed

text \<open>What the progress counter holds after a number of reads.\<close>

lemma progress_counts:
  assumes "reads (progress_reader r) ps (s, total_bytes, calls) = Some (xs, s', total', calls')"
    and "0 \<le> total_bytes" "total_bytes + int (length (concat (map fst xs))) < 2 ^ 63"
  shows "total' = total_bytes + int (length (concat (map fst xs)))
    \<and> (calls' = calls \<and> total' = total_bytes \<or> calls' \<noteq> [] \<and> last calls' = total')"
  using assms
proof (induction ps arbitrary: s total_bytes calls xs)
  case (Cons p ps)
  obtain data err s1 xs' where one: "rd_read r p s = Some ((data, err), s1)"
    and rest: "reads (progress_reader r) ps (s1, snd (progress_read (int (length data), err) (total_bytes, calls))) = Some (xs', s', total', calls')"
    and xs: "xs = (data, err) # xs'"
    using Cons.prems(1) by (auto simp: progress_reader_def split: option.splits)
  have len: "length (concat (map fst xs)) = length data + length (concat (map fst xs'))" by (simp add: xs)
  then have t: "wrap64 (total_bytes + int (length data)) = total_bytes + int (length data)"
    using Cons.prems(2,3) by (intro wrap64_id) (simp add: in64_def)
  show ?case
  proof (cases "data = []")
    case True
    then have "snd (progress_read (int (length data), err) (total_bytes, calls)) = (total_bytes, calls)"
      by (simp add: progress_read_def)
    with rest have r: "reads (progress_reader r) ps (s1, total_bytes, calls) = Some (xs', s', total', calls')"
      by (simp only:)
    have "length (concat (map fst xs)) = length (concat (map fst xs'))" using len True by simp
    moreover have "total_bytes + int (length (concat (map fst xs'))) < 2 ^ 63"
      using Cons.prems(3) len by simp
    ultimately show ?thesis using Cons.IH [OF r Cons.prems(2)] by metis
  next
    case False
    then have "snd (progress_read (int (length data), err) (total_bytes, calls))
        = (total_bytes + int (length data), calls @ [total_bytes + int (length data)])"
      by (simp add: progress_read_def t)
    with Cons.IH [of s1 "total_bytes + int (length data)" "calls @ [total_bytes + int (length data)]" xs'] rest
      Cons.prems(2,3) len False show ?thesis by auto
  qed
qed simp

lemma upload_reader_meta:
  "rd_stat (upload_reader wait_n ctx l f) = Some (case rd_stat f of Some res \<Rightarrow> res | None \<Rightarrow> None)"
  "rd_size (upload_reader wait_n ctx l f) = Some (case rd_size f of Some n \<Rightarrow> n
     | None \<Rightarrow> (case rd_stat f of Some (Some n) \<Rightarrow> n | _ \<Rightarrow> 0))"
  by (simp_all add: upload_reader_def progress_reader_def progress_stat_def progress_size_def context_reader_def
      context_stat_def context_size_def throttled_reader_def throttled_stat_def throttled_size_def)


text \<open>A file of ten bytes, continued at four, whose throttle gives up in the third wait.\<close>

definition slow_wait :: "int \<Rightarrow> string \<times> nat \<Rightarrow> string option \<times> string \<times> nat" where
  "slow_wait n s = (case s of (rest, k) \<Rightarrow> (if k = 2 then Some ''context canceled'' else None, rest, Suc k))"

definition throttled_client :: sftp_client where
  "throttled_client = (demo_client ''/up'')\<lparr>sc_rate_limit_kbps := 100\<rparr>"


end
