(* ===== verification/Process_Task.thy ===== *)
theory Process_Task
  imports Queue_Safety Upload_Attempts Host_Security
begin

text \<open>
  One upload goroutine as a whole: \<open>processTask\<close> of \<open>internal/queue/manager.go\<close> composed of the
  file checks, \<open>Connect\<close> and \<open>UploadFileWithRetry\<close>, the critical sections of
  \<open>Queue_Workers\<close> it passes through, and the progress it shows.
\<close>

subsection \<open>Processing a task\<close>

text \<open>
  The surroundings of a task: the file system, the network, the SFTP session, the content of a
  local file, the reads of a transfer, and the context at each delay of the retry loop.
\<close>

record ('s, 'h) task_env =
  pe_files :: file_env
  pe_connect :: connect_env
  pe_ops :: "('s, 'h) file_ops"
  pe_local :: "string \<Rightarrow> local_file"
  pe_reads :: "int \<Rightarrow> 's \<Rightarrow> (int \<times> string option) list"
  pe_stop :: "nat \<Rightarrow> string option"

text \<open>How far the task came: to an error before the connection stood, to the check of its context, or to the upload.\<close>

datatype outcome = Refused string | TurnedAway | Uploaded "report list" "string option"

fun outcome_error :: "outcome \<Rightarrow> string option" where
  "outcome_error (Refused e) = Some e"
| "outcome_error TurnedAway = Some ''context canceled''"
| "outcome_error (Uploaded reports err) = err"

definition process_task ::
  "('s, 'h) task_env \<Rightarrow> string \<Rightarrow> task \<Rightarrow> bool \<Rightarrow> 's \<Rightarrow> string option \<Rightarrow> outcome \<times> 's \<times> string option" where
  "process_task pe local_dir t cancelled s kh =
     (case candidate_path (pe_files pe) local_dir (tk_file_name t) of
        Inl e \<Rightarrow> (Refused e, s, kh)
      | Inr p \<Rightarrow>
          let c = queue_client (tk_config t) in
          (case connect (pe_connect pe) c \<lparr>cn_ssh = False, cn_sftp = False\<rparr> kh of
             (Some err, _, kh') \<Rightarrow> (Refused (public_connect_error err), s, kh')
           | (None, _, kh') \<Rightarrow>
               if cancelled then (TurnedAway, s, kh')
               else
                 (case upload_with_retry
                     (upload_attempt (pe_ops pe) (c\<lparr>sc_connected := True\<rparr>) (pe_local pe p) p (pe_reads pe))
                     (pe_stop pe) (task_retries (tk_config t)) (s, []) of
                    (err, s', reports) \<Rightarrow> (Uploaded reports err, s', kh'))))"

text \<open>The critical sections the goroutine passes, from its start to the release of its slot.\<close>

fun report_event :: "run_token \<Rightarrow> report \<Rightarrow> event" where
  "report_event tok (SizeReport n) = Run_Size tok n"
| "report_event tok (ProgressReport n) = Run_Progress tok n"

fun outcome_events :: "run_token \<Rightarrow> outcome \<Rightarrow> event list" where
  "outcome_events tok (Refused e) = [Run_Fail tok e]"
| "outcome_events tok TurnedAway = [Run_Connect tok]"
| "outcome_events tok (Uploaded reports err) =
     Run_Connect tok # map (report_event tok) reports @ [Run_Return tok err]"

definition task_events ::
  "run_token \<Rightarrow> string list \<Rightarrow> string list \<Rightarrow> outcome \<Rightarrow> crypto \<Rightarrow> save_env \<Rightarrow> event list" where
  "task_events tok ord1 ord2 out c env =
     [Run_Register tok, Run_Limiter tok ord1 ord2] @ outcome_events tok out
       @ [Run_Finish tok, Run_Save tok c env, Run_Unregister tok, Run_Release tok]"

subsection \<open>A completed task is published\<close>


definition demo_task_env :: "(flaky_server, unit) task_env" where
  "demo_task_env =
     \<lparr>pe_files = demo_files, pe_connect = demo_connect, pe_ops = flaky_ops, pe_local = (\<lambda>_. plain_file ''abcd''),
      pe_reads = (\<lambda>off s. [(4 - off, None)]), pe_stop = (\<lambda>_. None)\<rparr>"

definition demo_upload_task :: task where
  "demo_upload_task = (demo_task ''7'' TaskRunning ''pw'')
     \<lparr>tk_config := zero_request\<lparr>ur_host := ''nas'', ur_port := 22, ur_password := ''pw'', ur_remote_dir := ''/up''\<rparr>\<rparr>"


subsection \<open>A goroutine is a run of the step relation\<close>

fun apply_report :: "report \<Rightarrow> task \<Rightarrow> task" where
  "apply_report (SizeReport n) t = report_size n t"
| "apply_report (ProgressReport n) t = report_progress n t"

lemma enabled_along_append [simp]:
  "enabled_along (es @ fs) s \<longleftrightarrow> enabled_along es s \<and> enabled_along fs (fold effect es s)"
  by (induction es arbitrary: s) auto

lemma run_ref_set_phase [simp]: "run_ref (set_phase tok' ph s) tok = run_ref s tok"
proof (cases "tok' < length (sy_runs s)")
  case True
  then show ?thesis by (simp add: run_ref_def set_phase_def nth_list_update)
qed (simp add: run_ref_def set_phase_def list_update_beyond)

lemma run_ref_on_task [simp]: "run_ref (on_task tok' f s) tok = run_ref s tok" "sy_runs (on_task tok' f s) = sy_runs s"
  "sy_due (on_task tok' f s) = sy_due s" "sy_loop (on_task tok' f s) = sy_loop s"
  by (simp_all add: on_task_def)

lemma in_phase_set_phase [simp]:
  "in_phase s tok ph \<Longrightarrow> in_phase (set_phase tok ph' s) tok ph'' \<longleftrightarrow> ph'' = ph'"
  by (auto simp: in_phase_def set_phase_def)

lemma phase_of [simp]:
  "in_phase s tok ph \<Longrightarrow> rn_phase (sy_runs (set_phase tok ph' s) ! tok) = ph'"
  by (simp add: in_phase_def set_phase_def)

lemma report_effect:
  assumes "in_phase s tok Connected"
  shows "enabled (report_event tok r) s" "effect (report_event tok r) s = on_task tok (apply_report r) s"
  using assms by (cases r; simp add: on_task_def)+

lemma task_on_task [simp]:
  "task_at (sy_q (on_task tok f s)) (run_ref s tok) = f (task_at (sy_q s) (run_ref s tok))"
  "q_running_tasks (sy_q (on_task tok f s)) = q_running_tasks (sy_q s)"
  by (simp_all add: on_task_def)

lemma reports_run:
  "in_phase s tok Connected \<Longrightarrow> s' = fold effect (map (report_event tok) rs) s \<Longrightarrow>
    enabled_along (map (report_event tok) rs) s \<and> sy_runs s' = sy_runs s \<and> sy_due s' = sy_due s
    \<and> sy_loop s' = sy_loop s \<and> q_running_tasks (sy_q s') = q_running_tasks (sy_q s)
    \<and> task_at (sy_q s') (run_ref s tok) = fold apply_report rs (task_at (sy_q s) (run_ref s tok))"
proof (induction rs arbitrary: s)
  case (Cons r rs)
  let ?s1 = "on_task tok (apply_report r) s"
  have p: "in_phase ?s1 tok Connected" using Cons.prems(1) by simp
  have "s' = fold effect (map (report_event tok) rs) ?s1"
    using Cons.prems report_effect(2) [OF Cons.prems(1)] by simp
  from Cons.IH [OF p this] show ?case
    by (simp add: report_effect [OF Cons.prems(1)] del: effect.simps enabled.simps)
qed simp

fun outcome_reports :: "outcome \<Rightarrow> report list" where
  "outcome_reports (Uploaded reports err) = reports"
| "outcome_reports out = []"

text \<open>The check of the context after \<open>Connect\<close> decides between turning away and uploading.\<close>

fun outcome_fits :: "outcome \<Rightarrow> bool \<Rightarrow> bool" where
  "outcome_fits (Refused e) cancelled = True"
| "outcome_fits TurnedAway cancelled = cancelled"
| "outcome_fits (Uploaded reports err) cancelled = (\<not> cancelled)"

lemma process_task_fits: "process_task pe dir t cancelled s kh = (out, s', kh') \<Longrightarrow> outcome_fits out cancelled"
  by (auto simp: process_task_def Let_def split: sum.splits prod.splits option.splits if_splits)

text \<open>What the steps of one run leave to the others.\<close>

definition others_kept :: "run_token \<Rightarrow> system \<Rightarrow> system \<Rightarrow> bool" where
  "others_kept tok s s' \<longleftrightarrow> length (sy_runs s') = length (sy_runs s) \<and> run_ref s' tok = run_ref s tok
     \<and> (\<forall>t. t \<noteq> tok \<longrightarrow> sy_runs s' ! t = sy_runs s ! t) \<and> sy_loop s' = sy_loop s \<and> sy_adds s' = sy_adds s"

lemma others_kept_trans: "others_kept tok s t \<Longrightarrow> others_kept tok t u \<Longrightarrow> others_kept tok s u"
  by (simp add: others_kept_def)

lemma others_kept_steps [simp]:
  "others_kept tok s s"
  "others_kept tok s (set_phase tok ph t) = others_kept tok s t" "others_kept tok s (on_queue f t) = others_kept tok s t"
  "others_kept tok s (owe_trigger n t) = others_kept tok s t" "others_kept tok s (on_task tok' g t) = others_kept tok s t"
  by (auto simp: others_kept_def run_ref_def [symmetric] on_task_def)
    (auto simp: set_phase_def nth_list_update_neq owe_trigger_def run_ref_def)

lemma reports_others: "in_phase s tok Connected \<Longrightarrow> others_kept tok s (fold effect (map (report_event tok) rs) s)"
proof (induction rs arbitrary: s)
  case (Cons r rs)
  have "in_phase (on_task tok (apply_report r) s) tok Connected" using Cons.prems by simp
  from Cons.IH [OF this] show ?case
    using others_kept_trans [of tok s "on_task tok (apply_report r) s"]
    by (simp add: report_effect [OF Cons.prems] del: effect.simps)
qed simp

lemma outcome_run:
  assumes "in_phase s tok Registered" "outcome_fits out (run_cancelled (sy_q s) tok)"
    "s' = fold effect (outcome_events tok out) s"
  shows "enabled_along (outcome_events tok out) s \<and> in_phase s' tok (Returned (outcome_error out))
    \<and> others_kept tok s s' \<and> sy_due s' = sy_due s \<and> q_running_tasks (sy_q s') = q_running_tasks (sy_q s)
    \<and> task_at (sy_q s') (run_ref s tok) = fold apply_report (outcome_reports out) (task_at (sy_q s) (run_ref s tok))"
proof (cases out)
  case (Uploaded reports err)
  let ?s1 = "connected tok s" and ?rs = "map (report_event tok) reports"
  let ?s2 = "fold effect ?rs ?s1"
  have c: "in_phase ?s1 tok Connected" "others_kept tok s ?s1" "sy_due ?s1 = sy_due s" "run_ref ?s1 tok = run_ref s tok"
    "q_running_tasks (sy_q ?s1) = q_running_tasks (sy_q s)" "task_at (sy_q ?s1) a = task_at (sy_q s) a" for a
    using assms(1,2) Uploaded by (simp_all add: connected_def register_closer_def)
  note r = reports_run [OF c(1) refl, of reports] reports_others [OF c(1), of reports]
  have s': "s' = effect (Run_Return tok err) ?s2" using assms(3) Uploaded by simp
  have "in_phase ?s2 tok Connected" using r(1) c(1) by (simp add: in_phase_def)
  then have e: "enabled_along (outcome_events tok out) s" "in_phase s' tok (Returned err)"
    using assms(1) r(1) Uploaded s' by simp_all
  have "others_kept tok s s'" using others_kept_trans [OF c(2) r(2)] s' by simp
  moreover have "task_at (sy_q s') a = task_at (sy_q ?s2) a" for a
    by (simp add: s' unregister_closer_def)
  ultimately show ?thesis
    using e r(1) c(3-6) Uploaded s' by simp
qed (use assms in \<open>auto simp: connected_def\<close>)

lemma finish_run:
  assumes "in_phase s tok (Returned err)"
    "s' = fold effect [Run_Finish tok, Run_Save tok c env, Run_Unregister tok, Run_Release tok] s"
  shows "enabled_along [Run_Finish tok, Run_Save tok c env, Run_Unregister tok, Run_Release tok] s
    \<and> in_phase s' tok Released \<and> others_kept tok s s' \<and> sy_due s' = sy_due s + 2
    \<and> q_running_tasks (sy_q s') = q_running_tasks (sy_q s) - 1
    \<and> task_at (sy_q s') (run_ref s tok) = finish_task err (task_at (sy_q s) (run_ref s tok))"
proof -
  have ph: "rn_phase (sy_runs s ! tok) = Returned err" using assms(1) by (simp add: in_phase_def)
  define s1 where "s1 = set_phase tok Finished (on_task tok (finish_task err) s)"
  have s1: "effect (Run_Finish tok) s = s1" "enabled (Run_Finish tok) s" "in_phase s1 tok Finished"
    using assms(1) by (simp_all add: s1_def ph)
  define s2 where "s2 = owe_trigger 1 (set_phase tok Saved (on_queue (save_state c env) s1))"
  have s2: "effect (Run_Save tok c env) s1 = s2" "in_phase s2 tok Saved" using s1(3) by (simp_all add: s2_def)
  define s3 where "s3 = set_phase tok Unregistered (on_queue (unregister_run (run_id s2 tok)) s2)"
  have s3: "effect (Run_Unregister tok) s2 = s3" "in_phase s3 tok Unregistered" using s2(2) by (simp_all add: s3_def)
  have s4: "s' = owe_trigger 1 (set_phase tok Released (on_queue release_slot s3))"
    unfolding assms(2) by (simp only: fold_simps s1(1) s2(1) s3(1)) simp
  have "in_phase s' tok Released" using s3(2) by (simp add: s4)
  moreover have "others_kept tok s s'" by (simp add: s4 s3_def s2_def s1_def)
  moreover have "sy_due s' = sy_due s + 2" by (simp add: s4 s3_def s2_def s1_def)
  ultimately show ?thesis
    using s1 s2 s3 by (simp add: s4 del: effect.simps) (simp add: s3_def s2_def s1_def save_state_def release_slot_def)
qed

lemma limiter_keeps [simp]:
  "q_cancelled (snd (get_or_create_limiter ord1 ord2 cfg q)) = q_cancelled q"
  "q_cancelled_runs (snd (get_or_create_limiter ord1 ord2 cfg q)) = q_cancelled_runs q"
  by (simp_all add: get_or_create_limiter_def Let_def split: option.splits)

text \<open>
  C10. A goroutine that is left alone runs to its end, and its critical sections are steps of the
  queue: from its start to the release of its slot every event of \<open>processTask\<close> is enabled in
  turn; then the slot is free, two wake-ups are on their way, no other run has moved, and the task
  carries the reported sizes and the result of the upload.
\<close>

theorem task_runs_to_its_end:
  assumes "in_phase s tok Spawned"
    and "process_task pe local_dir (task_at (sy_q s) (run_ref s tok)) (run_cancelled (sy_q s) tok) srv kh = (out, srv', kh')"
    and s': "s' = fold effect (task_events tok ord1 ord2 out c env) s"
  shows "enabled_along (task_events tok ord1 ord2 out c env) s \<and> in_phase s' tok Released
    \<and> q_running_tasks (sy_q s') = q_running_tasks (sy_q s) - 1 \<and> sy_due s' = sy_due s + 2 \<and> others_kept tok s s'
    \<and> task_at (sy_q s') (run_ref s tok) =
        finish_task (outcome_error out) (fold apply_report (outcome_reports out) (task_at (sy_q s) (run_ref s tok)))"
proof -
  define s1 where "s1 = effect (Run_Limiter tok ord1 ord2) (effect (Run_Register tok) s)"
  define s2 where "s2 = fold effect (outcome_events tok out) s1"
  have s1: "in_phase s1 tok Registered" "others_kept tok s s1" "sy_due s1 = sy_due s" "run_ref s1 tok = run_ref s tok"
    "q_running_tasks (sy_q s1) = q_running_tasks (sy_q s)" "run_cancelled (sy_q s1) tok = run_cancelled (sy_q s) tok"
    "task_at (sy_q s1) a = task_at (sy_q s) a" for a
    using assms(1) by (simp_all add: s1_def run_cancelled_def) (simp_all add: register_run_def)
  have fits: "outcome_fits out (run_cancelled (sy_q s1) tok)"
    using process_task_fits [OF assms(2)] s1(6) by simp
  note mid = outcome_run [OF s1(1) fits s2_def]
  have tail: "s' = fold effect [Run_Finish tok, Run_Save tok c env, Run_Unregister tok, Run_Release tok] s2"
    unfolding s' task_events_def s2_def s1_def by (simp only: fold_append fold_simps append.simps o_def)
  have ret: "in_phase s2 tok (Returned (outcome_error out))" "run_ref s2 tok = run_ref s tok"
    using mid s1(4) by (simp_all add: others_kept_def)
  note f = finish_run [OF ret(1) tail, unfolded ret(2)]
  have "enabled_along ([Run_Register tok, Run_Limiter tok ord1 ord2] @ outcome_events tok out) s"
    using mid assms(1) unfolding enabled_along_append by (simp add: s1_def)
  then have "enabled_along (task_events tok ord1 ord2 out c env) s"
    using f unfolding task_events_def append_assoc [symmetric]
    by (subst enabled_along_append) (simp only: fold_append fold_simps append.simps o_def s1_def [symmetric] s2_def [symmetric])
  moreover have "others_kept tok s s'"
    using s1(2) mid f by (blast intro: others_kept_trans)
  ultimately show ?thesis using mid f s1 by simp
qed

definition spawned_system :: system where
  "spawned_system =
     \<lparr>sy_q = demo_queue\<lparr>q_heap := (\<lambda>_. demo_upload_task), q_running_tasks := 1\<rparr>,
      sy_runs = [\<lparr>rn_ref = 0, rn_phase = Spawned\<rparr>], sy_due = 0, sy_adds = [], sy_loop = Waiting\<rparr>"

theorem task_runs_to_its_end_witness:
  "let s' = fold effect (task_events 0 [] [] (Uploaded [SizeReport 4, ProgressReport 4] None) demo_crypto no_disk) spawned_system
   in q_running_tasks (sy_q s') = 0 \<and> tk_status (task_at (sy_q s') 0) = TaskCompleted"
proof -
  let ?run = "process_task demo_task_env ''/data'' demo_upload_task False (flaky_with 0) None"
  let ?out = "Uploaded [SizeReport 4, ProgressReport 4] None"
  have t: "task_at (sy_q spawned_system) (run_ref spawned_system 0) = demo_upload_task"
    "run_cancelled (sy_q spawned_system) 0 = False" "in_phase spawned_system 0 Spawned" "run_ref spawned_system 0 = 0"
    "q_running_tasks (sy_q spawned_system) = 1"
    by (simp_all add: spawned_system_def run_ref_def run_cancelled_def in_phase_def demo_queue_def empty_manager_def)
  have "fst ?run = ?out" by code_simp
  then have "?run = (?out, fst (snd ?run), snd (snd ?run))" by (metis prod.collapse)
  from task_runs_to_its_end [OF t(3), unfolded t(1,2), OF this refl] t(4,5) show ?thesis
    by (simp add: finish_task_def Let_def)
qed

subsection \<open>Progress\<close>

lemma percentage:
  assumes "0 \<le> n" "n \<le> sz" "0 < sz" "sz * 100 < 2 ^ 63"
  shows "0 \<le> go_div (wrap64 (n * 100)) sz" "go_div (wrap64 (n * 100)) sz \<le> 100"
proof -
  have "in64 (n * 100)" using assms by (auto simp: in64_def)
  then have "go_div (wrap64 (n * 100)) sz = n * 100 div sz"
    using assms by (simp add: go_div_nonneg)
  moreover have "n * 100 div sz \<le> sz * 100 div sz"
    using assms by (intro zdiv_mono1) simp_all
  ultimately show "0 \<le> go_div (wrap64 (n * 100)) sz" "go_div (wrap64 (n * 100)) sz \<le> 100"
    using assms by (simp_all add: pos_imp_zdiv_nonneg_iff)
qed

lemma progress_loop:
  assumes "0 \<le> off" "off + sum_list (map fst reads) \<le> sz" "\<forall>r\<in>set reads. 0 \<le> fst r" "sz * 100 < 2 ^ 63"
    and "tk_total_bytes t = sz" "0 \<le> tk_progress t" "tk_progress t \<le> 100" "0 < off \<Longrightarrow> tk_bytes_uploaded t = off"
  shows "let st = fold (\<lambda>r st. snd (progress_read r st)) reads (off, []); n = off + sum_list (map fst reads);
      t' = fold apply_report (map ProgressReport (snd st)) t in
    fst st = n \<and> tk_total_bytes t' = sz \<and> 0 \<le> tk_progress t' \<and> tk_progress t' \<le> 100
    \<and> (0 < n \<longrightarrow> tk_bytes_uploaded t' = n)"
  using assms(2,3)
proof (induction reads rule: rev_induct)
  case Nil
  then show ?case using assms by simp
next
  case (snoc r reads)
  define st where "st = fold (\<lambda>r st. snd (progress_read r st)) reads (off, [])"
  define t' where "t' = fold apply_report (map ProgressReport (snd st)) t"
  have nn: "0 \<le> sum_list (map fst reads)" using snoc.prems(2) by (intro sum_list_nonneg) auto
  have IH: "fst st = off + sum_list (map fst reads)" "tk_total_bytes t' = sz" "0 \<le> tk_progress t'" "tk_progress t' \<le> 100"
    "0 < off + sum_list (map fst reads) \<Longrightarrow> tk_bytes_uploaded t' = off + sum_list (map fst reads)"
    using snoc by (simp_all add: st_def t'_def Let_def)
  let ?n = "off + sum_list (map fst reads) + fst r"
  have n: "0 \<le> ?n" "?n \<le> sz" "in64 ?n"
    using snoc.prems nn assms(1,4) by (simp_all add: in64_def)
  show ?case
  proof (cases "fst r > 0")
    case True
    then have step: "snd (progress_read r st) = (?n, snd st @ [?n])"
      using n(3) IH(1) by (cases st) (simp add: progress_read_def)
    have "0 < sz" using True n nn assms(1) by simp
    with percentage [OF n(1,2) _ assms(4)] step IH show ?thesis
      by (simp add: st_def [symmetric] t'_def [symmetric] report_progress_def Let_def add.assoc)
  next
    case False
    then have "fst r = 0" using snoc.prems(2) by auto
    moreover have "snd (progress_read r st) = st" using \<open>fst r = 0\<close> by (cases st) (simp add: progress_read_def)
    ultimately show ?thesis using IH by (simp add: st_def [symmetric] t'_def [symmetric])
  qed
qed



end
