(* ===== verification/Shutdown.thy ===== *)
theory Shutdown
  imports Process_Task
begin

text \<open>
  \<open>Shutdown\<close> of the queue (\<open>internal/queue/manager.go\<close>): the connections it closes, and that the
  goroutines it waits for come to their end.
\<close>

subsection \<open>Draining after a shutdown\<close>

text \<open>
  \<open>Shutdown\<close> waits for the dispatcher and then for every goroutine. The events that bring a
  goroutine to its next critical section, and the sections it still has before it.
\<close>

fun phase_left :: "run_phase \<Rightarrow> nat" where
  "phase_left Spawned = 7"
| "phase_left Registered = 6"
| "phase_left Connected = 5"
| "phase_left (Returned err) = 4"
| "phase_left Finished = 3"
| "phase_left Saved = 2"
| "phase_left Unregistered = 1"
| "phase_left Released = 0"

definition work_left :: "system \<Rightarrow> nat" where
  "work_left s = sum_list (map (\<lambda>r. phase_left (rn_phase r)) (sy_runs s))"

fun advances :: "event \<Rightarrow> bool" where
  "advances (Run_Register tok) = True"
| "advances (Run_Fail tok err) = True"
| "advances (Run_Connect tok) = True"
| "advances (Run_Return tok err) = True"
| "advances (Run_Finish tok) = True"
| "advances (Run_Save tok c env) = True"
| "advances (Run_Unregister tok) = True"
| "advances (Run_Release tok) = True"
| "advances e = False"

lemma work_set_phase:
  "in_phase s tok ph \<Longrightarrow> work_left (set_phase tok ph' s) + phase_left ph = work_left s + phase_left ph'"
proof -
  assume p: "in_phase s tok ph"
  let ?f = "\<lambda>r. phase_left (rn_phase r)"
  have n: "tok < length (sy_runs s)" "?f (sy_runs s ! tok) = phase_left ph" using p by (simp_all add: in_phase_def)
  have "phase_left ph \<le> sum_list (map ?f (sy_runs s))"
    using n(1) by (subst n(2) [symmetric]) (intro member_le_sum_list, auto)
  then show ?thesis
    using n by (simp add: work_left_def set_phase_def map_update sum_list_update)
qed

lemma work_less:
  "in_phase t tok ph \<Longrightarrow> phase_left ph' < phase_left ph \<Longrightarrow> work_left t = n \<Longrightarrow>
     work_left (set_phase tok ph' t) < n"
  using work_set_phase [of t tok ph ph'] by simp

lemma work_frames [simp]:
  "work_left (on_queue f s) = work_left s" "work_left (owe_trigger n s) = work_left s"
  "work_left (on_task tok g s) = work_left s" "work_left (s\<lparr>sy_due := m\<rparr>) = work_left s"
  "work_left (s\<lparr>sy_loop := l\<rparr>) = work_left s" "work_left (s\<lparr>sy_adds := ns\<rparr>) = work_left s"
  by (simp_all add: work_left_def owe_trigger_def)

lemma advances_work:
  assumes "enabled e s" "advances e"
  shows "work_left (effect e s) < work_left s"
proof (cases e)
  case (Run_Finish tok)
  then show ?thesis using assms by (auto intro!: work_less [of _ tok "Returned (returned_error (rn_phase (sy_runs s ! tok)))"])
next
  case (Run_Register tok)
  then show ?thesis using assms by (auto intro!: work_less [of _ tok Spawned])
next
  case (Run_Fail tok err)
  then show ?thesis using assms by (auto intro!: work_less [of _ tok Registered])
next
  case (Run_Connect tok)
  then show ?thesis using assms by (auto simp: connected_def intro!: work_less [of _ tok Registered])
next
  case (Run_Return tok err)
  then show ?thesis using assms by (auto intro!: work_less [of _ tok Connected])
next
  case (Run_Save tok c env)
  then show ?thesis using assms by (auto intro!: work_less [of _ tok Finished])
next
  case (Run_Unregister tok)
  then show ?thesis using assms by (auto intro!: work_less [of _ tok Saved])
next
  case (Run_Release tok)
  then show ?thesis using assms by (auto intro!: work_less [of _ tok Unregistered])
qed (use assms in simp_all)

lemma stays_exited:
  assumes "sy_loop s = Exited" "enabled e s"
  shows "sy_loop (effect e s) = Exited" "\<not> advances e \<Longrightarrow> sy_runs (effect e s) = sy_runs s"
  using assms by (cases e; simp add: connected_def)+

lemma drain_steps:
  "sy_loop s = Exited \<Longrightarrow> enabled_along es s \<Longrightarrow>
     length (filter advances es) + work_left (fold effect es s) \<le> work_left s \<and> sy_loop (fold effect es s) = Exited"
proof (induction es arbitrary: s)
  case (Cons e es)
  have "work_left (effect e s) + (if advances e then 1 else 0) \<le> work_left s"
    using advances_work [of e s] stays_exited(2) [of s e] Cons.prems by (auto simp: work_left_def)
  with Cons.IH [of "effect e s"] Cons.prems stays_exited(1) [of s e] show ?case
    by (cases "advances e") (simp_all del: effect.simps)
qed simp

lemma progress_possible:
  assumes "r \<in> set (sy_runs s)" "rn_phase r \<noteq> Released"
  shows "\<exists>e. advances e \<and> enabled e s"
proof -
  obtain tok where tok: "tok < length (sy_runs s)" "sy_runs s ! tok = r"
    using assms(1) by (auto simp: in_set_conv_nth)
  let ?c = "undefined :: crypto" and ?v = "undefined :: save_env"
  have "\<exists>e\<in>{Run_Register tok, Run_Connect tok, Run_Return tok None, Run_Finish tok, Run_Save tok ?c ?v,
      Run_Unregister tok, Run_Release tok}. advances e \<and> enabled e s"
    using tok assms(2) by (cases "rn_phase r") (auto simp: in_phase_def)
  then show ?thesis by blast
qed

text \<open>
  C11. \<open>Shutdown\<close> comes to its end: once the dispatcher has left its loop no goroutine is started
  any more, in any interleaving the goroutines together pass at most seven critical sections for
  each that was alive, one of them can always take its next step until all have given their
  slot back, and then no slot is occupied.
\<close>

theorem shutdown_drains:
  assumes "reach qstart qstep s" "sy_loop s = Exited" "enabled_along es s"
  shows "let s' = fold effect es s in
    length (filter advances es) \<le> 7 * length (filter live (sy_runs s))
    \<and> sy_loop s' = Exited
    \<and> ((\<exists>e. advances e \<and> enabled e s') \<or> list_all (\<lambda>r. rn_phase r = Released) (sy_runs s') \<and> q_running_tasks (sy_q s') = 0)"
proof -
  let ?s' = "fold effect es s"
  have bound: "work_left s \<le> 7 * length (filter live (sy_runs s))"
  proof -
    have "phase_left ph \<le> 7" for ph by (cases ph) simp_all
    then have "sum_list (map (\<lambda>r. phase_left (rn_phase r)) rs) \<le> 7 * length (filter live rs)" for rs
      by (induction rs) (auto simp: live_def intro: add_mono)
    then show ?thesis by (simp add: work_left_def)
  qed
  have "slots_inv ?s'" by (rule slots.holds_reach [OF reach_events [OF assms(1,3)]])
  then have "q_running_tasks (sy_q ?s') = 0" if "list_all (\<lambda>r. rn_phase r = Released) (sy_runs ?s')"
    using that by (auto simp: slots_inv_def list_all_iff live_def)
  moreover have "list_all (\<lambda>r. rn_phase r = Released) (sy_runs ?s') \<or> (\<exists>e. advances e \<and> enabled e ?s')"
    using progress_possible [of _ ?s'] by (auto simp: list_all_iff)
  ultimately show ?thesis
    using drain_steps [OF assms(2,3)] bound by (auto simp: Let_def)
qed

theorem shutdown_drains_witness:
  "let s = fold effect [Shut_Down, Loop_Exit] running_system; s' = fold effect (tl (task_events 0 [] [] TurnedAway demo_crypto no_disk)) s
   in list_all (\<lambda>r. rn_phase r = Released) (sy_runs s') \<and> q_running_tasks (sy_q s') = 0"
proof -
  let ?s = "fold effect [Shut_Down, Loop_Exit] running_system" and ?es = "tl (task_events 0 [] [] TurnedAway demo_crypto no_disk)"
  have e: "enabled_along [Shut_Down, Loop_Exit] running_system" "sy_loop ?s = Exited" "enabled_along ?es ?s"
    by code_simp+
  have "work_left (fold effect ?es ?s) = 0" by code_simp
  then have none: "(\<exists>e. advances e \<and> enabled e (fold effect ?es ?s)) = False"
    using advances_work [of _ "fold effect ?es ?s"] by auto
  from shutdown_drains [OF reach_events [OF running_reach e(1)] e(2,3)] show ?thesis
    unfolding Let_def none by (simp only: simp_thms)
qed

subsection \<open>The connections a shutdown closes\<close>

text \<open>The closers \<open>Shutdown\<close> collects after the dispatcher has ended.\<close>

definition shutdown_closers :: "queue_manager \<Rightarrow> run_token list" where
  "shutdown_closers q = map snd (q_active_closers q)"

text \<open>
  The map of closers is keyed by task identifier, so it can hold every connection only when
  task objects do not share one. Identifiers never change.
\<close>

definition distinct_ids :: "queue_manager \<Rightarrow> bool" where
  "distinct_ids q \<longleftrightarrow> (\<forall>a<q_next_ref q. \<forall>b<q_next_ref q. tk_id (task_at q a) = tk_id (task_at q b) \<longrightarrow> a = b)"

definition ids_keep :: "queue_manager \<Rightarrow> queue_manager \<Rightarrow> bool" where
  "ids_keep q q' \<longleftrightarrow> q_next_ref q \<le> q_next_ref q' \<and> (\<forall>a<q_next_ref q. tk_id (task_at q' a) = tk_id (task_at q a))"

lemma ids_keep_distinct: "ids_keep q q' \<Longrightarrow> distinct_ids q' \<Longrightarrow> distinct_ids q"
  by (auto simp: ids_keep_def distinct_ids_def)

lemma ids_keep_same [intro]: "q_heap q' = q_heap q \<Longrightarrow> q_next_ref q' = q_next_ref q \<Longrightarrow> ids_keep q q'"
  by (simp add: ids_keep_def)

lemma ids_keep_on_task [simp]: "tk_id (f (task_at q a)) = tk_id (task_at q a) \<Longrightarrow> ids_keep q (set_task a (f (task_at q a)) q)"
  by (simp add: ids_keep_def)

lemma task_ids [simp]:
  "tk_id (report_size n t) = tk_id t" "tk_id (report_progress n t) = tk_id t" "tk_id (finish_task err t) = tk_id t"
  by (simp_all add: report_size_def report_progress_def finish_task_def Let_def split: option.split)

subsubsection \<open>Which operations touch the closers\<close>

lemma closers_frames [simp]:
  "q_active_closers (trigger q) = q_active_closers q" "q_active_closers (set_task a t q) = q_active_closers q"
  "q_active_closers (save_state c env q) = q_active_closers q" "q_active_closers (cancel_run i q) = q_active_closers q"
  "q_active_closers (register_run tok i q) = q_active_closers q" "q_active_closers (unregister_run i q) = q_active_closers q"
  "q_active_closers (release_slot q) = q_active_closers q" "q_active_closers (update_concurrency n q) = q_active_closers q"
  "q_active_closers (update_throttle h r m l q) = q_active_closers q"
  "q_active_closers (snd (get_or_create_limiter ord1 ord2 cfg q)) = q_active_closers q"
  by (simp_all add: trigger_def set_task_def save_state_def cancel_run_def register_run_def unregister_run_def
      release_slot_def update_concurrency_def update_throttle_def get_or_create_limiter_def Let_def split: option.splits)

lemma control_keeps_ids:
  assumes "refs_ok q"
  shows "ids_keep q (snd (control_task c env stat i action q))"
proof -
  have "control_change stat dir t u \<Longrightarrow> tk_id u = tk_id t" for dir t u
    by (auto simp: control_change_def reset_task_def)
  with control_task_changes [of q stat _ c env i action] assms show ?thesis
    by (auto simp: ids_keep_def refs_ok_def)
qed

lemma dispatch_keeps_ids: "dispatch_loop i clock q = (as, q') \<Longrightarrow> ids_keep q q' \<and> q_active_closers q' = q_active_closers q"
proof (induction i clock q arbitrary: as q' rule: dispatch_loop.induct)
  case (1 i clock q)
  show ?case
  proof (cases "q_running_tasks q < q_max_concurrent q \<and> first_pending q \<noteq> None")
    case False
    with "1.prems" show ?thesis by (auto simp: dispatch_loop.simps [of i] split: if_splits option.splits)
  next
    case True
    then obtain a where a: "first_pending q = Some a" by blast
    obtain bs q1 where r: "dispatch_loop (Suc i) clock (start_task (clock i) a q) = (bs, q1)" by fastforce
    have "q' = q1" using True a r "1.prems" by (simp add: dispatch_loop.simps [of i])
    then show ?thesis
      using "1.IH" [OF conjunct1 [OF True] a r] by (auto simp: ids_keep_def start_task_def)
  qed
qed

lemma add_loop_closers: "q_active_closers (add_loop i clock fs cfg q) = q_active_closers q"
  by (induction i clock fs cfg q rule: add_loop.induct) (simp_all add: alloc_task_def Let_def)

lemma retry_loop_closers: "q_active_closers (fst (retry_loop stat as q found)) = q_active_closers q"
  by (induction stat as q found rule: retry_loop.induct) (simp_all add: Let_def)

lemma control_closers: "q_active_closers (snd (control_task c env stat i action q)) = q_active_closers q"
proof (cases rule: control_task_outcome [where c = c and env = env and stat = stat and i = i and action = action and q = q])
  case (found k)
  then show ?thesis
    by (cases rule: control_found_outcome [where c = c and env = env and stat = stat and k = k and action = action and q = q]) auto
qed (simp_all add: retry_loop_closers)

subsubsection \<open>Every connection has its closer\<close>

definition closers_ok :: "system \<Rightarrow> bool" where
  "closers_ok s \<longleftrightarrow> (\<forall>tok. in_phase s tok Connected \<longrightarrow>
     go_get (q_active_closers (sy_q s)) (run_id s tok) = Some tok)"

definition closers_inv :: "system \<Rightarrow> bool" where
  "closers_inv s \<longleftrightarrow> owner_inv s \<and> (distinct_ids (sy_q s) \<longrightarrow> closers_ok s)"

lemma run_below: "owner_inv s \<Longrightarrow> in_phase s tok ph \<Longrightarrow> run_ref s tok < q_next_ref (sy_q s)"
  by (auto simp: owner_inv_def in_phase_def run_ref_def)

lemma in_phase_elsewhere:
  "in_phase (set_phase tok ph s) tok' ph' \<longleftrightarrow> (if tok' = tok then tok < length (sy_runs s) \<and> ph' = ph else in_phase s tok' ph')"
  by (auto simp: in_phase_def set_phase_def)

lemma phase_updates [simp]:
  "in_phase (s\<lparr>sy_due := n\<rparr>) tok ph = in_phase s tok ph" "in_phase (s\<lparr>sy_loop := l\<rparr>) tok ph = in_phase s tok ph"
  "in_phase (s\<lparr>sy_adds := ns\<rparr>) tok ph = in_phase s tok ph" "run_ref (s\<lparr>sy_due := n\<rparr>) tok = run_ref s tok"
  "run_ref (s\<lparr>sy_loop := l\<rparr>) tok = run_ref s tok" "run_ref (s\<lparr>sy_adds := ns\<rparr>) tok = run_ref s tok"
  "run_ref (owe_trigger n s) tok = run_ref s tok"
  by (simp_all add: in_phase_def run_ref_def)

text \<open>A step that starts no connection and leaves the closers alone.\<close>

lemma closers_same:
  assumes inv: "closers_inv s" and own: "owner_inv s'" and ids: "ids_keep (sy_q s) (sy_q s')"
    and same: "q_active_closers (sy_q s') = q_active_closers (sy_q s)"
    and old: "\<And>tok. in_phase s' tok Connected \<Longrightarrow> in_phase s tok Connected \<and> run_ref s' tok = run_ref s tok"
  shows "closers_inv s'"
proof -
  have "run_id s' tok = run_id s tok" if "in_phase s' tok Connected" for tok
    using old [OF that] run_below [of s tok Connected] inv ids
    by (auto simp: closers_inv_def run_id_def ids_keep_def)
  moreover have "distinct_ids (sy_q s') \<Longrightarrow> closers_ok s"
    using inv ids_keep_distinct [OF ids] by (simp add: closers_inv_def)
  ultimately show ?thesis
    using own same old by (auto simp: closers_inv_def closers_ok_def)
qed

lemma connected_ids_differ:
  assumes "owner_inv s" "distinct_ids (sy_q s)" "in_phase s i ph" "in_phase s j ph'" "owning ph" "owning ph'" "i \<noteq> j"
  shows "run_id s i \<noteq> run_id s j"
proof
  assume "run_id s i = run_id s j"
  then have "run_ref s i = run_ref s j"
    using assms(2) run_below [OF assms(1,3)] run_below [OF assms(1,4)] by (simp add: distinct_ids_def run_id_def)
  then show False
    using owners_differ [OF assms(1), of i j] assms(3-7) by (simp add: in_phase_def)
qed

lemma closers_connect:
  assumes inv: "closers_inv s" and tok: "in_phase s tok Registered"
  shows "closers_inv (connected tok s)"
proof -
  have own: "owner_inv (connected tok s)"
    using owner_step [of s "Run_Connect tok"] inv tok by (simp add: closers_inv_def)
  show ?thesis
  proof (cases "run_cancelled (sy_q s) tok")
    case True
    then have "connected tok s = set_phase tok (Returned (Some ''context canceled'')) s"
      by (simp add: connected_def)
    with own show ?thesis
      by (intro closers_same [OF inv]) (auto simp: in_phase_elsewhere split: if_splits)
  next
    case False
    then have c: "connected tok s = set_phase tok Connected (on_queue (register_closer tok (run_id s tok)) s)"
      by (simp add: connected_def)
    have q: "sy_q (connected tok s) = register_closer tok (run_id s tok) (sy_q s)" by (simp add: c)
    have "closers_ok (connected tok s)" if ids: "distinct_ids (sy_q (connected tok s))"
    proof -
      have d: "distinct_ids (sy_q s)" using ids by (simp add: q distinct_ids_def)
      then have ok: "closers_ok s" using inv by (simp add: closers_inv_def)
      have id: "run_id (connected tok s) t = run_id s t" for t
        by (simp add: run_id_def c)
      have "run_id s t \<noteq> run_id s tok" if "in_phase s t Connected" "t \<noteq> tok" for t
        using connected_ids_differ [OF _ d that(1) tok] inv that(2) by (simp add: closers_inv_def)
      then show ?thesis
        using ok tok unfolding closers_ok_def id q
        by (auto simp: c in_phase_elsewhere register_closer_def get_put split: if_splits)
    qed
    with own show ?thesis by (simp add: closers_inv_def)
  qed
qed

lemma closers_return:
  assumes inv: "closers_inv s" and tok: "in_phase s tok Connected"
  shows "closers_inv (effect (Run_Return tok err) s)"
proof -
  let ?s' = "effect (Run_Return tok err) s"
  have own: "owner_inv ?s'"
    using owner_step [of s "Run_Return tok err"] inv tok by (simp add: closers_inv_def)
  have q: "sy_q ?s' = unregister_closer (run_id s tok) (sy_q s)" by simp
  have "closers_ok ?s'" if ids: "distinct_ids (sy_q ?s')"
  proof -
    have d: "distinct_ids (sy_q s)" using ids by (simp add: distinct_ids_def)
    then have ok: "closers_ok s" using inv by (simp add: closers_inv_def)
    have id: "run_id ?s' t = run_id s t" for t by (simp add: run_id_def)
    have "run_id s t \<noteq> run_id s tok" if "in_phase s t Connected" "t \<noteq> tok" for t
      using connected_ids_differ [OF _ d that(1) tok] inv that(2) by (simp add: closers_inv_def)
    then show ?thesis
      using ok tok unfolding closers_ok_def id q
      by (auto simp: in_phase_elsewhere unregister_closer_def get_del split: if_splits)
  qed
  with own show ?thesis by (simp add: closers_inv_def)
qed

lemma closers_step:
  assumes inv: "closers_inv s" and en: "enabled e s"
  shows "closers_inv (effect e s)"
proof -
  have own: "owner_inv (effect e s)" "refs_ok (sy_q s)"
    using owner_step [OF _ en] inv by (simp_all add: closers_inv_def owner_inv_def)
  show ?thesis
  proof (cases e)
    case (Dispatch clock)
    obtain as q' where r: "dispatch_loop 0 clock ((sy_q s)\<lparr>q_worker := False\<rparr>) = (as, q')" by fastforce
    have "ids_keep (sy_q s) q' \<and> q_active_closers q' = q_active_closers (sy_q s)"
      using dispatch_keeps_ids [OF r] by (simp add: ids_keep_def)
    with own(1) r show ?thesis
      unfolding Dispatch
      by (intro closers_same [OF inv]) (auto simp: dispatch_def in_phase_def run_ref_def nth_append split: if_splits)
  next
    case (Api_Add clock fs cfg)
    have "ids_keep (sy_q s) (add_tasks_locked clock fs cfg (sy_q s))"
      using add_loop_refs [OF own(2), of 0 clock fs "cfg\<lparr>ur_files := []\<rparr>"] by (simp add: ids_keep_def add_tasks_locked_def)
    with own(1) show ?thesis
      unfolding Api_Add
      by (intro closers_same [OF inv]) (auto simp: add_tasks_locked_def add_loop_closers in_phase_def run_ref_def)
  next
    case (Api_Control c env stat i action)
    with own control_keeps_ids [OF own(2)] show ?thesis
      unfolding Api_Control by (intro closers_same [OF inv]) (simp_all add: control_closers)
  next
    case (Api_Concurrency n)
    with own(1) inv show ?thesis
      unfolding Api_Concurrency by (cases "n > 0") (simp_all, intro closers_same [OF inv], auto)
  next
    case (Run_Connect tok)
    with closers_connect [OF inv] en show ?thesis by simp
  next
    case (Run_Return tok err)
    with closers_return [OF inv] en show ?thesis by simp
  next
    case (Run_Finish tok)
    with own(1) show ?thesis
      unfolding Run_Finish
      by (intro closers_same [OF inv]) (auto simp: in_phase_elsewhere on_task_def split: if_splits)
  qed (use own(1) en in \<open>simp; intro closers_same [OF inv];
      auto simp: in_phase_elsewhere on_task_def split: if_splits\<close>)+
qed

lemma start_closers: "qstart s \<Longrightarrow> closers_inv s"
  using start_owner [of s] by (auto simp: closers_inv_def closers_ok_def qstart_def boot_def in_phase_def)

interpretation closers: invariant_of qstart qstep closers_inv
  by unfold_locales (auto simp: start_closers qstep_simps closers_step)

lemma cancelled_connects_none:
  assumes "q_cancelled (sy_q s)" "enabled e s" "in_phase (effect e s) tok Connected"
  shows "in_phase s tok Connected"
proof (cases e)
  case (Dispatch clock)
  then show ?thesis
    using assms(3) by (auto simp: dispatch_def in_phase_def Let_def nth_append split: prod.splits if_splits)
next
  case (Run_Connect t)
  then show ?thesis
    using assms by (auto simp: connected_def run_cancelled_def in_phase_elsewhere split: if_splits)
qed (use assms in \<open>auto simp: in_phase_elsewhere split: if_splits\<close>)

text \<open>
  C12. \<open>Shutdown\<close> interrupts every upload: whatever has happened before, each goroutine that is
  uploading has its closer in the map \<open>Shutdown\<close> copies (as long as no two task objects share an
  identifier), and once the context is cancelled no goroutine starts another upload, so none is
  missed between the copy and the wait.
\<close>

theorem shutdown_closes_every_connection:
  assumes "reach qstart qstep s" "distinct_ids (sy_q s)"
  shows "(\<forall>tok. in_phase s tok Connected \<longrightarrow> tok \<in> set (shutdown_closers (sy_q s)))
    \<and> (q_cancelled (sy_q s) \<longrightarrow>
        (\<forall>e tok. enabled e s \<and> in_phase (effect e s) tok Connected \<longrightarrow> in_phase s tok Connected))"
proof -
  have "closers_ok s" using closers.holds_reach [OF assms(1)] assms(2) by (simp add: closers_inv_def)
  then have "tok \<in> set (shutdown_closers (sy_q s))" if "in_phase s tok Connected" for tok
    using that unfolding closers_ok_def shutdown_closers_def by (auto dest!: spec map_of_SomeD simp: image_iff intro!: bexI)
  then show ?thesis using cancelled_connects_none by blast
qed

theorem shutdown_closes_every_connection_witness:
  "shutdown_closers (sy_q (fold effect [Run_Connect 0, Shut_Down] running_system)) = [0]
   \<and> 0 \<in> set (shutdown_closers (sy_q (fold effect [Run_Connect 0, Shut_Down] running_system)))"
proof -
  let ?s = "fold effect [Run_Connect 0, Shut_Down] running_system"
  have "enabled_along [Run_Connect 0, Shut_Down] running_system" by code_simp
  then have r: "reach qstart qstep ?s" by (rule reach_events [OF running_reach])
  have "q_next_ref (sy_q ?s) = 1" by code_simp
  then have d: "distinct_ids (sy_q ?s)" by (simp add: distinct_ids_def)
  have c: "in_phase ?s 0 Connected" "shutdown_closers (sy_q ?s) = [0]" by code_simp+
  have "0 \<in> set (shutdown_closers (sy_q ?s))"
    using conjunct1 [OF shutdown_closes_every_connection [OF r d], rule_format, OF c(1)] .
  with c(2) show ?thesis by (rule conjI)
qed

end
