(* ===== verification/State_Typing.thy ===== *)
theory State_Typing
  imports Shutdown
begin

text \<open>
  The maps of the queue that hold tokens of goroutines and references to throttles: in every
  reachable state they have one entry per key and point only to what exists.
\<close>

text \<open>The maps of the queue that hold tokens of goroutines and references to throttles.\<close>

definition tables :: "queue_manager \<Rightarrow> (string, run_token) go_map \<times> (string, run_token) go_map \<times> (string, lim_ref) go_map \<times> nat" where
  "tables q = (q_active_cancels q, q_active_closers q, q_limiters q, q_next_lim q)"

lemma tables_frames [simp]:
  "tables (trigger q) = tables q" "tables (set_task a t q) = tables q" "tables (save_state c env q) = tables q"
  "tables (cancel_run i q) = tables q" "tables (release_slot q) = tables q" "tables (update_concurrency n q) = tables q"
  "tables (update_throttle h r m l q) = tables q" "tables (q\<lparr>q_tasks := as\<rparr>) = tables q"
  "tables (q\<lparr>q_cancelled := b\<rparr>) = tables q" "tables (q\<lparr>q_worker := b\<rparr>) = tables q"
  by (simp_all add: tables_def trigger_def set_task_def save_state_def cancel_run_def release_slot_def
      update_concurrency_def update_throttle_def Let_def split: option.splits)

lemma add_tables: "tables (add_tasks_locked clock fs cfg q) = tables q"
proof -
  have "tables (add_loop i clock fs cfg q) = tables q" for i cfg
    by (induction i clock fs cfg q rule: add_loop.induct) (simp_all add: alloc_task_def Let_def tables_def)
  then show ?thesis by (simp add: add_tasks_locked_def)
qed

lemma retry_tables: "tables (fst (retry_loop stat as q found)) = tables q"
  by (induction stat as q found rule: retry_loop.induct) (simp_all add: Let_def)

lemma control_tables: "tables (snd (control_task c env stat i action q)) = tables q"
proof (cases rule: control_task_outcome [where c = c and env = env and stat = stat and i = i and action = action and q = q])
  case (found k)
  then show ?thesis
    by (cases rule: control_found_outcome [where c = c and env = env and stat = stat and k = k and action = action and q = q]) auto
qed (simp_all add: retry_tables)

lemma dispatch_tables: "dispatch_loop i clock q = (as, q') \<Longrightarrow> tables q' = tables q"
proof (induction i clock q arbitrary: as q' rule: dispatch_loop.induct)
  case (1 i clock q)
  show ?case
  proof (cases "q_running_tasks q < q_max_concurrent q \<and> first_pending q \<noteq> None")
    case False
    with "1.prems" show ?thesis by (auto simp: dispatch_loop.simps [of i] split: if_splits option.splits)
  next
    case True
    then obtain a where a: "first_pending q = Some a" by blast
    obtain bs q1 where r: "dispatch_loop (Suc i) clock (start_task (clock i) a q) = (bs, q1)" by fastforce
    have "q' = q1" using True a r "1.prems" by (simp add: dispatch_loop.simps [of i])
    then show ?thesis
      using "1.IH" [OF conjunct1 [OF True] a r] by (simp add: start_task_def tables_def set_task_def)
  qed
qed

definition table_ok :: "nat \<Rightarrow> (string, nat) go_map \<Rightarrow> bool" where
  "table_ok n m \<longleftrightarrow> map_ok m \<and> (\<forall>v\<in>snd ` set m. v < n)"

lemma table_put: "table_ok n m \<Longrightarrow> v < n \<Longrightarrow> table_ok n (go_put k v m)"
  using put_sub [of k v m] by (auto simp: table_ok_def)

lemma table_del: "table_ok n m \<Longrightarrow> table_ok n (go_del k m)"
  using set_del_sub [of k m] by (auto simp: table_ok_def)

lemma table_more: "table_ok n m \<Longrightarrow> n \<le> n' \<Longrightarrow> table_ok n' m"
  by (auto simp: table_ok_def)

definition tables_ok :: "system \<Rightarrow> bool" where
  "tables_ok s \<longleftrightarrow> (case tables (sy_q s) of (cancels, closers, limiters, n) \<Rightarrow>
     table_ok (length (sy_runs s)) cancels \<and> table_ok (length (sy_runs s)) closers \<and> table_ok n limiters)"

lemma tables_ok_same:
  "tables_ok s \<Longrightarrow> tables (sy_q s') = tables (sy_q s) \<Longrightarrow> length (sy_runs s) \<le> length (sy_runs s') \<Longrightarrow> tables_ok s'"
  by (auto simp: tables_ok_def intro: table_more)

lemma limiter_table:
  assumes "table_ok (q_next_lim q) (q_limiters q)"
  shows "table_ok (q_next_lim (snd (get_or_create_limiter ord1 ord2 cfg q)))
    (q_limiters (snd (get_or_create_limiter ord1 ord2 cfg q)))"
proof -
  let ?m = "limiter_room (active_hosts q, ord1, ord2) (q_limiters q)"
  have "table_ok (Suc (q_next_lim q)) ?m"
    using throttles.room_sub [of "(active_hosts q, ord1, ord2)" "q_limiters q"]
      throttles.room_ok [of "q_limiters q" "(active_hosts q, ord1, ord2)"] assms
    by (auto simp: table_ok_def intro!: less_SucI)
  then have "table_ok (Suc (q_next_lim q)) (go_put h (q_next_lim q) ?m)" for h
    by (rule table_put) simp
  with assms show ?thesis
    by (simp add: get_or_create_limiter_def Let_def split: option.split)
qed

lemma tables_step:
  assumes ok: "tables_ok s" and en: "enabled e s"
  shows "tables_ok (effect e s)"
proof -
  note same = tables_ok_same [OF ok]
  have entries: "table_ok (length (sy_runs s)) (q_active_cancels (sy_q s))"
    "table_ok (length (sy_runs s)) (q_active_closers (sy_q s))" "table_ok (q_next_lim (sy_q s)) (q_limiters (sy_q s))"
    using ok by (simp_all add: tables_ok_def tables_def)
  have below: "in_phase s tok ph \<Longrightarrow> tok < length (sy_runs s)" for tok ph by (simp add: in_phase_def)
  show ?thesis
  proof (cases e)
    case (Dispatch clock)
    obtain as q' where r: "dispatch_loop 0 clock ((sy_q s)\<lparr>q_worker := False\<rparr>) = (as, q')" by fastforce
    from dispatch_tables [OF r] r show ?thesis
      by (intro same) (simp_all add: Dispatch dispatch_def)
  next
    case (Run_Register tok)
    with en below have "tok < length (sy_runs s)" by simp
    with Run_Register entries show ?thesis
      by (simp add: tables_ok_def tables_def register_run_def table_put)
  next
    case (Run_Connect tok)
    with en below have "tok < length (sy_runs s)" by simp
    with Run_Connect entries show ?thesis
      by (simp add: connected_def tables_ok_def tables_def register_closer_def table_put)
  next
    case (Run_Return tok err)
    with entries show ?thesis by (simp add: tables_ok_def tables_def unregister_closer_def table_del)
  next
    case (Run_Unregister tok)
    with entries show ?thesis by (simp add: tables_ok_def tables_def unregister_run_def table_del)
  next
    case (Run_Limiter tok ord1 ord2)
    have "q_active_closers (snd (get_or_create_limiter ord1 ord2 cfg q)) = q_active_closers q" for cfg q
      by simp
    with Run_Limiter entries limiter_table [OF entries(3)] show ?thesis by (simp add: tables_ok_def tables_def)
  qed (simp_all add: same add_tables control_tables on_task_def)
qed

lemma load_loop_keeps_tables: "load_loop c ds q loaded legacy = (q', l, b) \<Longrightarrow> tables q' = tables q"
proof (induction ds arbitrary: q loaded legacy)
  case (Cons d ds)
  have "tables (snd (open_config c i d q)) = tables q" for i
    by (simp add: open_config_def tables_def retain_def Let_def split: option.split sum.split)
  then have "tables (load_entry c d t q) = tables q" for t
    by (simp add: load_entry_def tables_def alloc_task_def Let_def)
  with Cons show ?case
    by (cases "dk_task d") (auto simp: load_loop_Cons)
qed simp

lemma load_keeps_tables: "tables (fst (load_state c env root_ok q)) = tables q"
proof -
  have rec: "tables (q1\<lparr>q_max_concurrent := n\<rparr>) = tables q1" for q1 :: queue_manager and n by (simp add: tables_def)
  show ?thesis
    using load_loop_keeps_tables [of c _ q "[]" False]
    by (auto simp: load_state_def Let_def rec split: option.split state_file.split prod.split)
qed

lemma start_tables: "qstart s \<Longrightarrow> tables_ok s"
  by (auto simp: qstart_def boot_def new_queue_manager_def tables_ok_def load_keeps_tables table_ok_def Let_def)
    (auto simp: tables_def empty_manager_def)

interpretation tables: invariant_of qstart qstep tables_ok
  by unfold_locales (auto simp: start_tables qstep_simps tables_step)

end
