(* ===== verification/App_Runs.thy ===== *)
theory App_Runs
  imports Http_Api State_Typing
begin

text \<open>
  The application as a whole: HTTP requests interleaved with the dispatcher and the upload
  goroutines. Each request is a run of the step relation of the queue (\<open>Queue_Workers\<close>) and of the
  login tables (\<open>Sessions\<close>), so what those theories show for every interleaving of their
  steps holds for the program that serves requests.
\<close>

subsection \<open>Requests as runs of the queue\<close>

text \<open>Some sequence of enabled events turns the queue of \<open>s\<close> into \<open>q\<close> and leaves nothing pending behind.\<close>

definition queue_run :: "system \<Rightarrow> queue_manager \<Rightarrow> bool" where
  "queue_run s q \<longleftrightarrow> (\<exists>es. enabled_along es s \<and> fold effect es s = s\<lparr>sy_q := q\<rparr>)"

lemma queue_runI: "enabled_along es s \<Longrightarrow> fold effect es s = s\<lparr>sy_q := q\<rparr> \<Longrightarrow> queue_run s q"
  by (auto simp: queue_run_def)

lemma queue_run_refl: "q = sy_q s \<Longrightarrow> queue_run s q"
  by (rule queue_runI [of "[]"]) simp_all

lemma queue_run_trans: "queue_run s q \<Longrightarrow> queue_run (s\<lparr>sy_q := q\<rparr>) q' \<Longrightarrow> queue_run s q'"
proof -
  assume "queue_run s q" "queue_run (s\<lparr>sy_q := q\<rparr>) q'"
  then obtain es fs where "enabled_along es s" "fold effect es s = s\<lparr>sy_q := q\<rparr>"
    "enabled_along fs (s\<lparr>sy_q := q\<rparr>)" "fold effect fs (s\<lparr>sy_q := q\<rparr>) = s\<lparr>sy_q := q'\<rparr>"
    by (auto simp: queue_run_def)
  then show "queue_run s q'" by (intro queue_runI [of "es @ fs"]) simp_all
qed

lemma run_control: "queue_run s (snd (control_task c env stat i action (sy_q s)))"
  by (rule queue_runI [of "[Api_Control c env stat i action]"]) (simp_all add: on_queue_def)

lemma run_throttle: "queue_run s (throttle_queue req (sy_q s))"
proof -
  let ?t = "Api_Throttle (ur_host req) (ur_rate_limit_kbps req) (ur_min_limit_kbps req) (ur_max_latency_ms req)"
  show ?thesis
  proof (cases "ur_concurrent_files req > 0")
    case True
    then show ?thesis
      by (intro queue_runI [of "[?t, Api_Concurrency (ur_concurrent_files req), Trigger]"])
        (simp_all add: on_queue_def owe_trigger_def throttle_queue_def update_host_limiter_def)
  next
    case False
    then show ?thesis
      by (intro queue_runI [of "[?t]"]) (simp_all add: on_queue_def throttle_queue_def update_host_limiter_def)
  qed
qed

lemma pending_triggers:
  "n \<le> sy_due s \<Longrightarrow> enabled_along (replicate n Trigger) s
     \<and> fold effect (replicate n Trigger) s = s\<lparr>sy_due := sy_due s - n, sy_q := (trigger ^^ n) (sy_q s)\<rparr>"
proof (induction n arbitrary: s)
  case (Suc n)
  have "n \<le> sy_due (effect Trigger s)" using Suc.prems by (simp add: on_queue_def)
  from Suc.IH [OF this] Suc.prems show ?case
    by (simp add: on_queue_def funpow_swap1)
qed simp

lemma run_add: "queue_run s (add_tasks c env clock fs cfg (sy_q s))"
proof (cases "fs = []")
  case True
  then show ?thesis by (intro queue_run_refl) (simp add: add_tasks_def Let_def)
next
  case False
  let ?k = "length (sy_adds s)" and ?n = "length fs"
  let ?es = "[Api_Add clock fs cfg, Api_Saved ?k c env]"
  let ?s = "s\<lparr>sy_q := save_state c env (add_tasks_locked clock fs cfg (sy_q s)), sy_due := sy_due s + ?n\<rparr>"
  have es: "enabled_along ?es s" "fold effect ?es s = ?s"
    using False by (simp_all add: on_queue_def owe_trigger_def nth_append)
  have "enabled_along (replicate ?n Trigger) ?s"
    "fold effect (replicate ?n Trigger) ?s = s\<lparr>sy_q := add_tasks c env clock fs cfg (sy_q s)\<rparr>"
    using pending_triggers [of ?n ?s] False by (simp_all add: add_tasks_def Let_def)
  with es show ?thesis
    by (intro queue_runI [of "?es @ replicate ?n Trigger"]) (simp_all del: effect.simps fold_simps add: fold_simps)
qed

subsubsection \<open>Every route\<close>

definition runs_queue :: "('s, 'r) app \<Rightarrow> api_reply \<times> ('s, 'r) app \<Rightarrow> bool" where
  "runs_queue ap r \<longleftrightarrow> (\<forall>s. sy_q s = ap_queue ap \<longrightarrow> queue_run s (ap_queue (snd r)))"

lemma runs_same: "ap_queue (snd r) = ap_queue ap \<Longrightarrow> runs_queue ap r"
  by (simp add: runs_queue_def queue_run_refl)

lemma update_sessions_queue [simp]: "ap_queue (snd (update_sessions f ap)) = ap_queue ap"
  using update_sessions_data [of ap f] by (simp add: same_data_def)

lemma runs_guarded:
  assumes "\<And>ap'. ap_queue ap' = ap_queue ap \<Longrightarrow> runs_queue ap' (f ap')"
  shows "runs_queue ap (guarded ae rq f ap)"
proof -
  obtain ok ap' where u: "update_sessions (with_auth (cf_auth_password (ae_config ae)) (ae_now1 ae) (ae_now2 ae) (rq_cookie rq)) ap
      = (ok, ap')" by fastforce
  then have "ap_queue ap' = ap_queue ap" using update_sessions_queue [of _ ap] by (metis snd_conv)
  with assms [of ap'] u show ?thesis by (simp add: guarded_def runs_queue_def queue_run_refl)
qed

lemma runs_with_client:
  assumes "\<And>c ap'. ap_queue ap' = ap_queue ap \<Longrightarrow> ap_queue (snd (f c ap')) = ap_queue ap"
  shows "runs_queue ap (with_client ae req f ap)"
  using assms by (intro runs_same) (simp add: with_client_def Let_def split: prod.splits option.splits)

lemma runs_handle_queue: "runs_queue ap (handle_queue ae limit rq ap)"
proof -
  have "queue_run s (ap_queue (snd (handle_queue ae limit rq ap)))" if "sy_q s = ap_queue ap" for s
    using run_control [of s "ae_crypto ae" "ae_save ae" "ae_stat ae"] that
    by (auto simp: handle_queue_def queue_run_refl split: option.splits prod.splits) (metis snd_conv)
  then show ?thesis by (simp add: runs_queue_def)
qed

lemma runs_handle_throttle: "runs_queue ap (handle_throttle limit rq ap)"
  using run_throttle by (auto simp: runs_queue_def handle_throttle_def queue_run_refl split: option.splits) (metis run_throttle)

lemma runs_handle_upload: "runs_queue ap (handle_upload ae limit rq ap)"
proof -
  have "queue_run s (add_tasks c env clock fs req (throttle_queue req' (sy_q s)))" for s c env clock fs req req'
    using queue_run_trans [OF run_throttle [of s req']]
      run_add [of "s\<lparr>sy_q := throttle_queue req' (sy_q s)\<rparr>" c env clock fs req] by simp
  then show ?thesis
    by (auto simp: runs_queue_def handle_upload_def queue_run_refl split: option.splits prod.splits) (metis)+
qed

lemma runs_serve_remote: "runs_queue ap (serve_remote_files ae limit rq ap)" "runs_queue ap (serve_remote_action ae limit rq ap)"
  "runs_queue ap (handle_test_connection ae limit rq ap)" "runs_queue ap (serve_local_action ae limit rq ap)"
proof -
  have plain: "runs_queue ap (x, ap)" for x by (rule runs_same) simp
  show "runs_queue ap (serve_remote_files ae limit rq ap)" "runs_queue ap (serve_remote_action ae limit rq ap)"
    "runs_queue ap (handle_test_connection ae limit rq ap)"
    unfolding serve_remote_files_def serve_remote_action_def handle_test_connection_def
    using plain by (auto split: option.split prod.split intro!: runs_with_client)
  show "runs_queue ap (serve_local_action ae limit rq ap)"
    by (rule runs_same) (simp add: serve_local_action_def split: option.split prod.split)
qed

lemma runs_if: "runs_queue ap x \<Longrightarrow> runs_queue ap y \<Longrightarrow> runs_queue ap (if P then x else y)"
  by simp

lemma runs_route:
  fixes ap :: "('s, 'r) app"
  shows "runs_queue ap (route ae limit rq ap)"
proof -
  have plain: "runs_queue ap (x, ap)" for x and ap :: "('s, 'r) app" by (rule runs_same) simp
  have login: "runs_queue ap (serve_login ae limit rq ap)"
    by (rule runs_same) (simp add: serve_login_def split: prod.split)
  have sessions: "runs_queue ap (case update_sessions f ap of (x, ap') \<Rightarrow> (g x, ap'))" for f :: "session_table \<Rightarrow> 'x \<times> session_table" and g
    by (rule runs_same) (simp add: case_prod_beta)
  have stats: "runs_queue ap (handle_stats ae rq ap)" for ap :: "('s, 'r) app"
    by (rule runs_same) (simp add: handle_stats_def)
  note handlers = plain login sessions stats runs_handle_queue runs_handle_throttle runs_handle_upload runs_serve_remote
  show ?thesis
    unfolding route_def Let_def by (intro runs_if handlers runs_guarded)
qed

theorem serve_is_queue_run:
  assumes "sy_q s = ap_queue ap"
  shows "queue_run s (ap_queue (snd (serve ae rq ap)))"
proof -
  have "runs_queue ap (serve ae rq ap)"
    using runs_route [of ap ae _ rq] by (auto simp: serve_def runs_same split: json_gate.split)
  with assms show ?thesis by (simp add: runs_queue_def)
qed

subsection \<open>Requests as runs of the login tables\<close>

definition auth_run :: "auth_state \<Rightarrow> auth_state \<Rightarrow> bool" where
  "auth_run st st' \<longleftrightarrow> (\<forall>issued. reach auth_start auth_step (st, issued) \<longrightarrow>
     (\<exists>issued'. reach auth_start auth_step (st', issued')))"

lemma auth_run_refl: "auth_run st st"
  by (auto simp: auth_run_def)

lemma auth_run_trans: "auth_run st st1 \<Longrightarrow> auth_run st1 st2 \<Longrightarrow> auth_run st st2"
  by (auto simp: auth_run_def)

lemma auth_run_step:
  assumes "\<And>issued. auth_enabled ev (st, issued)" "\<And>issued. fst (auth_effect ev (st, issued)) = st'"
  shows "auth_run st st'"
  unfolding auth_run_def
proof (intro allI impI)
  fix issued
  assume "reach auth_start auth_step (st, issued)"
  from auth_reach_events [OF this assms(1)] show "\<exists>issued'. reach auth_start auth_step (st', issued')"
    using assms(2) [of issued] by (metis prod.collapse)
qed

text \<open>A \<open>range\<close> over a map visits all of its keys: the login tables at the points a request loops over them.\<close>

definition client_of :: "('s, 'r) api_env \<Rightarrow> request \<Rightarrow> string" where
  "client_of ae rq = client_ip (rq_remote_addr rq) (rq_forwarded_for rq) (cf_trust_proxy (ae_config ae))"

definition visits_all :: "('s, 'r) api_env \<Rightarrow> request \<Rightarrow> auth_state \<Rightarrow> bool" where
  "visits_all ae rq st \<longleftrightarrow>
     (let e = ae_login ae; st1 = snd (login_begin e (client_of ae rq) st) in
      covers (ln_order e 0) (au_attempts st) \<and> covers (ln_order e 1) (au_attempts st1)
      \<and> covers (ln_order e 2) (au_sessions st1))"

definition runs_auth :: "('s, 'r) app \<Rightarrow> api_reply \<times> ('s, 'r) app \<Rightarrow> bool" where
  "runs_auth ap r \<longleftrightarrow> auth_run (ap_auth ap) (ap_auth (snd r))"

lemma auth_same: "ap_auth (snd r) = ap_auth ap \<Longrightarrow> runs_auth ap r"
  by (simp add: runs_auth_def auth_run_refl)

lemma auth_check: "auth_run st (st\<lparr>au_sessions := snd (with_auth pw now1 now2 cookie (au_sessions st))\<rparr>)"
proof (cases "pw = [] \<or> cookie = None")
  case True
  then show ?thesis by (auto simp: with_auth_def auth_run_refl)
next
  case False
  then show ?thesis
    by (auto simp: with_auth_def intro!: auth_run_step [of "Auth_Check now1 now2 (the cookie)"])
qed

lemma auth_update_sessions:
  "ap_auth (snd (update_sessions f ap)) = (ap_auth ap)\<lparr>au_sessions := snd (f (au_sessions (ap_auth ap)))\<rparr>"
  by (simp add: update_sessions_def split: prod.split)

lemma auth_guarded:
  assumes "\<And>ap'. ap_auth (snd (f ap')) = ap_auth ap'"
  shows "runs_auth ap (guarded ae rq f ap)"
  using assms auth_check [of "ap_auth ap"]
  by (simp add: guarded_def runs_auth_def auth_update_sessions case_prod_beta)

lemma auth_login:
  assumes "visits_all ae rq (ap_auth ap)"
  shows "runs_auth ap (serve_login ae limit rq ap)"
proof -
  let ?e = "ae_login ae" and ?ip = "client_of ae rq" and ?st = "ap_auth ap"
  define st1 where "st1 = snd (login_begin ?e ?ip ?st)"
  have c: "covers (ln_order ?e 0) (au_attempts ?st)" "covers (ln_order ?e 1) (au_attempts st1)" "covers (ln_order ?e 2) (au_sessions st1)"
    using assms by (simp_all add: visits_all_def Let_def st1_def)
  have first: "auth_run ?st st1"
    using c(1) by (intro auth_run_step [of "Auth_Begin ?e ?ip"]) (simp_all add: st1_def)
  have "auth_run st1 (snd (login_finish pw ?e ?ip password st1))" for pw password
  proof (cases "password = pw")
    case True
    have "auth_run st1 (snd (login_succeed ?e ?ip st1))"
      using c(3) by (intro auth_run_step [of "Auth_Right ?e ?ip"]) simp_all
    with True show ?thesis
      by (cases "login_succeed ?e ?ip st1") (simp add: login_finish_def split: option.split)
  next
    case False
    have "auth_run st1 (login_fail ?e ?ip st1)"
      using c(2) by (intro auth_run_step [of "Auth_Wrong ?e ?ip"]) simp_all
    with False show ?thesis by (simp add: login_finish_def)
  qed
  then have "auth_run ?st (snd (login pw ?e ?ip body ?st))" for pw body
    using first auth_run_trans
    by (auto simp: login_def auth_run_refl st1_def case_prod_beta Let_def split: option.split)
  then show ?thesis
    by (simp add: serve_login_def runs_auth_def client_of_def case_prod_beta)
qed

lemma auth_if: "runs_auth ap x \<Longrightarrow> runs_auth ap y \<Longrightarrow> runs_auth ap (if P then x else y)"
  by simp

lemma with_client_auth:
  assumes "\<And>c ap'. ap_auth (snd (f c ap')) = ap_auth ap'"
  shows "ap_auth (snd (with_client ae req f ap)) = ap_auth ap"
  using assms by (simp add: with_client_def Let_def split: prod.splits option.splits)

lemma handlers_keep_auth:
  "ap_auth (snd (handle_queue ae limit rq ap)) = ap_auth ap" "ap_auth (snd (handle_throttle limit rq ap)) = ap_auth ap"
  "ap_auth (snd (handle_upload ae limit rq ap)) = ap_auth ap" "ap_auth (snd (handle_stats ae rq ap)) = ap_auth ap"
  "ap_auth (snd (serve_local_action ae limit rq ap)) = ap_auth ap"
  by (simp_all add: handle_queue_def handle_throttle_def handle_upload_def handle_stats_def serve_local_action_def
      split: option.split prod.split)

lemma remote_handlers_keep_auth:
  "ap_auth (snd (serve_remote_files ae limit rq ap)) = ap_auth ap"
  "ap_auth (snd (serve_remote_action ae limit rq ap)) = ap_auth ap"
  "ap_auth (snd (handle_test_connection ae limit rq ap)) = ap_auth ap"
  by (auto simp: serve_remote_files_def serve_remote_action_def handle_test_connection_def
      split: option.split prod.split intro!: with_client_auth)

lemma auth_route:
  fixes ap :: "('s, 'r) app"
  assumes "visits_all ae rq (ap_auth ap)"
  shows "runs_auth ap (route ae limit rq ap)"
proof -
  let ?st = "ap_auth ap"
  have plain: "runs_auth ap (x, ap)" for x by (rule auth_same) simp
  have logout: "runs_auth ap (case update_sessions (logout (rq_method rq) (rq_cookie rq)) ap of (st, ap') \<Rightarrow> (ApiStatus st, ap'))"
  proof -
    have "auth_run ?st (?st\<lparr>au_sessions := go_del tok (au_sessions ?st)\<rparr>)" for tok
      by (intro auth_run_step [of "Auth_Logout tok"]) simp_all
    then show ?thesis
      by (simp add: runs_auth_def auth_update_sessions case_prod_beta logout_def auth_run_refl split: option.split)
  qed
  have page: "runs_auth ap (case update_sessions (index_page pw (ae_now1 ae) (ae_now2 ae) (rq_cookie rq)) ap of
      (page, ap') \<Rightarrow> (ApiPage page, ap'))" for pw
    using auth_check [of ?st] by (simp add: runs_auth_def auth_update_sessions case_prod_beta index_page_def)
  have keeps: "ap_auth (snd (f ap')) = ap_auth ap'" if "f = (\<lambda>ap'. (g ap', ap'))" for f g and ap' :: "('s, 'r) app"
    by (simp add: that)
  note guards = auth_guarded [OF handlers_keep_auth(1)] auth_guarded [OF handlers_keep_auth(2)]
    auth_guarded [OF handlers_keep_auth(3)] auth_guarded [OF handlers_keep_auth(4)] auth_guarded [OF handlers_keep_auth(5)]
    auth_guarded [OF remote_handlers_keep_auth(1)] auth_guarded [OF remote_handlers_keep_auth(2)]
    auth_guarded [OF remote_handlers_keep_auth(3)] auth_guarded [OF keeps [OF refl]]
  show ?thesis
    unfolding route_def Let_def by (intro auth_if plain logout page auth_login [OF assms] guards)
qed

theorem serve_is_auth_run:
  assumes "visits_all ae rq (ap_auth ap)"
  shows "auth_run (ap_auth ap) (ap_auth (snd (serve ae rq ap)))"
proof -
  have "runs_auth ap (serve ae rq ap)"
    using auth_route [OF assms] by (auto simp: serve_def auth_same split: json_gate.split)
  then show ?thesis by (simp add: runs_auth_def)
qed

subsection \<open>Requests and goroutines together\<close>

text \<open>
  A state of the program is the application and the queue with its goroutines, which share the
  queue manager. It changes by a request or by one critical section of the dispatcher, of a
  goroutine or of a request in progress.
\<close>

type_synonym ('s, 'r) world = "('s, 'r) app \<times> system"

datatype ('s, 'r) world_event = Request "('s, 'r) api_env" request | Internal event

inductive wstep :: "('s, 'r) world \<Rightarrow> ('s, 'r) world_event \<Rightarrow> ('s, 'r) world \<Rightarrow> bool" where
  request: "visits_all ae rq (ap_auth ap) \<Longrightarrow> serve ae rq ap = (reply, ap') \<Longrightarrow>
     wstep (ap, s) (Request ae rq) (ap', s\<lparr>sy_q := ap_queue ap'\<rparr>)"
| internal: "enabled e s \<Longrightarrow> wstep (ap, s) (Internal e) (ap\<lparr>ap_queue := sy_q (effect e s)\<rparr>, effect e s)"

definition wstart :: "('s, 'r) world \<Rightarrow> bool" where
  "wstart w \<longleftrightarrow> qstart (snd w) \<and> ap_queue (fst w) = sy_q (snd w) \<and> ap_auth (fst w) = initial_auth"

definition world_inv :: "('s, 'r) world \<Rightarrow> bool" where
  "world_inv w \<longleftrightarrow> ap_queue (fst w) = sy_q (snd w) \<and> reach qstart qstep (snd w)
     \<and> (\<exists>issued. reach auth_start auth_step (ap_auth (fst w), issued))"

lemma queue_run_reach: "reach qstart qstep s \<Longrightarrow> queue_run s q \<Longrightarrow> reach qstart qstep (s\<lparr>sy_q := q\<rparr>)"
  by (auto simp: queue_run_def dest: reach_events)

lemma world_inv_step:
  assumes inv: "world_inv w" and step: "wstep w e w'"
  shows "world_inv w'"
  using step
proof (cases rule: wstep.cases)
  case (request ae rq ap reply ap' s)
  have s: "sy_q s = ap_queue ap" "reach qstart qstep s" "\<exists>issued. reach auth_start auth_step (ap_auth ap, issued)"
    using inv request by (simp_all add: world_inv_def)
  have "queue_run s (ap_queue ap')" "auth_run (ap_auth ap) (ap_auth ap')"
    using serve_is_queue_run [OF s(1), of ae rq] serve_is_auth_run [OF request(4)] request(5) by simp_all
  then show ?thesis
    using s queue_run_reach request by (auto simp: world_inv_def auth_run_def)
next
  case (internal e s ap)
  then show ?thesis
    using inv by (auto simp: world_inv_def intro: reach_step qstep)
qed

lemma world_inv_start: "wstart w \<Longrightarrow> world_inv w"
  using auth_reach_start by (auto simp: wstart_def world_inv_def intro: reach_start)

interpretation world: invariant_of wstart wstep world_inv
  by unfold_locales (fact world_inv_start, fact world_inv_step)

text \<open>
  C4. Requests refine the step relations: in every interleaving of HTTP requests with the
  dispatcher and the upload goroutines, the queue is in a state that its own steps can reach and
  the login tables are in a state that theirs can, so every invariant of those relations
  holds for the running program.
\<close>

theorem requests_refine_steps:
  assumes "reach wstart wstep (ap, s)"
  shows "ap_queue ap = sy_q s \<and> reach qstart qstep s \<and> (\<exists>issued. reach auth_start auth_step (ap_auth ap, issued))"
  using world.holds_reach [OF assms] by (simp add: world_inv_def)

subsection \<open>Well-typed states\<close>


subsection \<open>Without the password nothing happens, however often one tries\<close>

fun serve_all :: "(('s, 'r) api_env \<times> request) list \<Rightarrow> ('s, 'r) app \<Rightarrow> api_reply list \<times> ('s, 'r) app" where
  "serve_all [] ap = ([], ap)"
| "serve_all ((ae, rq) # rest) ap =
     (case serve ae rq ap of (reply, ap') \<Rightarrow> (case serve_all rest ap' of (replies, ap'') \<Rightarrow> (reply # replies, ap'')))"

definition session_keys :: "('s, 'r) app \<Rightarrow> string set" where
  "session_keys ap = fst ` set (au_sessions (ap_auth ap))"

text \<open>A request that does not carry the password or the token of a session.\<close>

definition outsider :: "string \<Rightarrow> string set \<Rightarrow> ('s, 'r) api_env \<times> request \<Rightarrow> bool" where
  "outsider pw tokens r \<longleftrightarrow> cf_auth_password (ae_config (fst r)) = pw \<and> rq_password (snd r) \<noteq> Some pw
     \<and> (case rq_cookie (snd r) of None \<Rightarrow> True | Some tok \<Rightarrow> tok \<notin> tokens)"

lemma outsider_sub: "tokens' \<subseteq> tokens \<Longrightarrow> outsider pw tokens r \<Longrightarrow> outsider pw tokens' r"
  by (auto simp: outsider_def split: option.splits)

lemma outsider_no_session: "outsider pw (session_keys ap) (ae, rq) \<Longrightarrow> \<not> has_session ae rq ap"
  by (auto simp: outsider_def has_session_def session_live_def session_keys_def image_iff
      split: option.splits dest!: map_of_SomeD)

lemma outsider_login:
  assumes "password \<noteq> Some pw"
  shows "au_sessions (snd (login pw e ip password st)) = au_sessions st"
proof -
  have find: "au_sessions (snd (find_attempt now ord ip st)) = au_sessions st" for now ord st
    by (simp add: find_attempt_def split: option.split)
  have "au_sessions (snd (login_begin e ip st)) = au_sessions st" for st
    using find by (simp add: login_begin_def put_attempt_def Let_def case_prod_beta)
  moreover have "au_sessions (login_fail e ip st) = au_sessions st" for st
    using find by (simp add: login_fail_def put_attempt_def Let_def case_prod_beta)
  ultimately show ?thesis
    using assms by (auto simp: login_def login_finish_def Let_def case_prod_beta split: option.splits)
qed

lemma outsider_keys:
  fixes ap :: "('s, 'r) app"
  assumes "pw \<noteq> []" "outsider pw (session_keys ap) (ae, rq)"
  shows "session_keys (snd (serve ae rq ap)) \<subseteq> session_keys ap"
proof -
  have pw: "cf_auth_password (ae_config ae) = pw" "rq_password rq \<noteq> Some pw" "\<not> has_session ae rq ap"
    using assms(2) outsider_no_session [OF assms(2)] by (simp_all add: outsider_def)
  have checked: "session_keys (snd (update_sessions f ap)) \<subseteq> session_keys ap"
    if "\<And>m. set (snd (f m)) \<subseteq> set m" for f :: "session_table \<Rightarrow> 'x \<times> session_table"
    using that [of "au_sessions (ap_auth ap)"] by (auto simp: session_keys_def auth_update_sessions)
  have valid: "set (snd (with_auth pw' now1 now2 cookie m)) \<subseteq> set m" for pw' now1 now2 cookie m
    using valid_session_sub(1) by (auto simp: with_auth_def split: option.splits)
  have login: "session_keys (snd (serve_login ae limit rq ap)) \<subseteq> session_keys ap" for limit
    using outsider_login [of "decode_body limit rq rq_password" pw] pw(2)
    by (simp add: serve_login_def session_keys_def case_prod_beta pw(1) decode_body_def split: option.splits)
  have guard: "session_keys (snd (guarded ae rq f ap)) \<subseteq> session_keys ap" for f
  proof -
    have "\<not> fst (with_auth (cf_auth_password (ae_config ae)) (ae_now1 ae) (ae_now2 ae) (rq_cookie rq) (au_sessions (ap_auth ap)))"
      using pw assms(1) by (intro with_auth_refused) (auto simp: has_session_def split: option.splits)
    then show ?thesis
      using checked [OF valid] by (simp add: guarded_def case_prod_beta fst_update_sessions)
  qed
  have out: "session_keys (snd (case update_sessions (logout m c) ap of (st, ap') \<Rightarrow> (ApiStatus st, ap'))) \<subseteq> session_keys ap" for m c
  proof -
    have "set (snd (logout m c t)) \<subseteq> set t" for t
      using set_del_sub [of _ t] by (auto simp: logout_def split: option.split)
    from checked [OF this] show ?thesis by (simp add: case_prod_beta)
  qed
  have page: "session_keys (snd (case update_sessions (index_page pw' n1 n2 c) ap of (page, ap') \<Rightarrow> (ApiPage page, ap'))) \<subseteq> session_keys ap"
    for pw' n1 n2 c
    using checked [of "index_page pw' n1 n2 c"] valid by (auto simp: index_page_def case_prod_beta)
  have "session_keys (snd (route ae limit rq ap)) \<subseteq> session_keys ap" for limit
    unfolding route_def Let_def using login guard out page by simp
  then show ?thesis by (auto simp: serve_def split: json_gate.splits if_splits)
qed

text \<open>
  An outsider achieves nothing, however many requests of whatever kind they send: as long as
  none of them carries the password or the token of an existing session, the queue, the local
  files, the remote hosts and the known hosts stay what they were, and every reply is a status, a
  static file, the login page or the reply of a login.
\<close>

theorem outsiders_have_no_effect:
  assumes "pw \<noteq> []" "list_all (outsider pw (session_keys ap)) reqs"
  shows "same_data ap (snd (serve_all reqs ap)) \<and> list_all public_reply (fst (serve_all reqs ap))"
  using assms(2)
proof (induction reqs arbitrary: ap)
  case (Cons r reqs)
  obtain ae rq where r: "r = (ae, rq)" by fastforce
  then have o: "outsider pw (session_keys ap) (ae, rq)" using Cons.prems by simp
  let ?ap' = "snd (serve ae rq ap)"
  have one: "public_reply (fst (serve ae rq ap)) \<and> same_data ap ?ap'"
    using route_refused [of ae rq ap] outsider_no_session [OF o] o assms(1)
    by (simp add: serve_def outsider_def split: json_gate.split)
  have "list_all (outsider pw (session_keys ?ap')) reqs"
    using outsider_sub [OF outsider_keys [OF assms(1) o]] Cons.prems unfolding list_all_iff by auto
  from Cons.IH [OF this] one show ?case
    by (simp add: r case_prod_beta same_data_def)
qed simp

subsection \<open>A small program\<close>

definition start_app :: "(tiny_fs, string list) app" where
  "start_app = demo_app\<lparr>ap_auth := initial_auth, ap_queue := sy_q empty_system\<rparr>"

definition login_request :: request where
  "login_request = demo_request\<lparr>rq_path := ''/api/login'', rq_cookie := None, rq_password := Some ''right'', rq_control := None\<rparr>"

lemma start_world: "reach wstart wstep (start_app, empty_system)"
proof (rule reach_start)
  have "empty_system = boot (new_queue_manager demo_crypto no_key no_disk False ''data'' None)"
    by (simp add: empty_system_def new_queue_manager_def load_secret_key_def no_key_def load_state_def trim_space_Nil)
  then have "qstart empty_system" unfolding qstart_def by blast
  then show "wstart (start_app, empty_system)"
    by (simp add: wstart_def start_app_def)
qed

definition login_api :: "(tiny_fs, string list) api_env" where
  "login_api = demo_api\<lparr>ae_login := (demo_login 100)\<lparr>ln_order := (\<lambda>_. [''10.0.0.2''])\<rparr>\<rparr>"

text \<open>After one login.\<close>

definition logged_in :: "(tiny_fs, string list) world" where
  "logged_in = (let r = serve login_api login_request start_app in (snd r, empty_system\<lparr>sy_q := ap_queue (snd r)\<rparr>))"

lemma visits_logged: "visits_all login_api rq st \<longleftrightarrow>
    covers [''10.0.0.2''] (au_attempts st)
    \<and> covers [''10.0.0.2''] (au_attempts (snd (login_begin (ae_login login_api) (client_of login_api rq) st)))
    \<and> covers [''10.0.0.2''] (au_sessions (snd (login_begin (ae_login login_api) (client_of login_api rq) st)))"
  by (simp add: visits_all_def Let_def login_api_def)

lemma request_step:
  assumes "reach wstart wstep (ap, s)" "visits_all ae rq (ap_auth ap)"
  shows "reach wstart wstep (snd (serve ae rq ap), s\<lparr>sy_q := ap_queue (snd (serve ae rq ap))\<rparr>)"
  by (rule reach_step [OF assms(1) wstep.request [OF assms(2) prod.collapse [symmetric]]])

lemma logged_in_reach: "reach wstart wstep logged_in"
proof -
  have "visits_all login_api login_request (ap_auth start_app)"
    unfolding visits_logged covers_def by code_simp
  from request_step [OF start_world this] show ?thesis by (simp add: logged_in_def Let_def)
qed

lemma login_run:
  "serve login_api login_request start_app =
     (ApiLogin (LoginOk ''tok''),
      start_app\<lparr>ap_auth := snd (login ''right'' (ae_login login_api) ''10.0.0.2'' (Some ''right'') initial_auth)\<rparr>)"
  "length (au_sessions (snd (login ''right'' (ae_login login_api) ''10.0.0.2'' (Some ''right'') initial_auth))) = 1"
proof -
  let ?rq = login_request
  have m: "mux_path (rq_path ?rq) = rq_path ?rq" "\<not> cross_origin ?rq" "client_ip ''10.0.0.2:4711'' [] False = ''10.0.0.2''"
    by code_simp+
  have g: "require_json_body ?rq = PassBody (Some max_json_body)"
    by (simp add: require_json_body_def login_request_def demo_request_def is_safe_method_def has_prefix_def)
  have d: "decode_body (Some max_json_body) ?rq rq_password = Some ''right''"
    by (simp add: decode_body_def max_json_body_def login_request_def demo_request_def)
  have r: "route login_api (Some max_json_body) ?rq start_app = serve_login login_api (Some max_json_body) ?rq start_app"
    by (simp add: route_def login_request_def has_prefix_def)
  have f: "fst (login ''right'' (ae_login login_api) ''10.0.0.2'' (Some ''right'') initial_auth) = LoginOk ''tok''"
    by code_simp
  have c: "cf_auth_password (ae_config login_api) = ''right''" "cf_trust_proxy (ae_config login_api) = False"
    "rq_remote_addr ?rq = ''10.0.0.2:4711''" "rq_forwarded_for ?rq = []" "ap_auth start_app = initial_auth"
    by (simp_all add: login_api_def demo_api_def login_request_def demo_request_def start_app_def)
  show "serve login_api login_request start_app =
     (ApiLogin (LoginOk ''tok''),
      start_app\<lparr>ap_auth := snd (login ''right'' (ae_login login_api) ''10.0.0.2'' (Some ''right'') initial_auth)\<rparr>)"
    using m g r f by (simp add: serve_def serve_login_def d c case_prod_beta)
  show "length (au_sessions (snd (login ''right'' (ae_login login_api) ''10.0.0.2'' (Some ''right'') initial_auth))) = 1"
    by code_simp
qed

theorem requests_refine_steps_witness:
  "fst (serve login_api login_request start_app) = ApiLogin (LoginOk ''tok'')
   \<and> length (au_sessions (ap_auth (fst logged_in))) = 1 \<and> reach qstart qstep (snd logged_in)"
proof -
  have "reach wstart wstep (fst logged_in, snd logged_in)" using logged_in_reach by simp
  from requests_refine_steps [OF this] show ?thesis
    using login_run by (simp add: logged_in_def Let_def)
qed


theorem outsiders_have_no_effect_witness:
  "same_data start_app (snd (serve_all [(login_api, login_request\<lparr>rq_password := Some ''wrong''\<rparr>),
      (login_api, demo_request\<lparr>rq_cookie := Some ''guess''\<rparr>)] start_app))"
proof -
  let ?reqs = "[(login_api, login_request\<lparr>rq_password := Some ''wrong''\<rparr>), (login_api, demo_request\<lparr>rq_cookie := Some ''guess''\<rparr>)]"
  have "list_all (outsider ''right'' (session_keys start_app)) ?reqs"
    by (simp add: outsider_def session_keys_def login_api_def demo_api_def login_request_def demo_request_def
        start_app_def initial_auth_def)
  from outsiders_have_no_effect [OF _ this] show ?thesis by simp
qed

end
