(* ===== verification/Responses.thy ===== *)
theory Responses
  imports Http_Api
begin

text \<open>
  What a response carries besides its body: the status, the headers the program sets and the
  cookies (\<open>internal/api/middleware.go\<close>, the handlers of \<open>internal/api/server.go\<close>). Headers that
  \<open>net/http\<close> adds by itself (\<open>Date\<close>, a sniffed \<open>Content-Type\<close>, those of its file server and of
  \<open>ServeContent\<close>) and the text of a body are not modelled.
\<close>

subsection \<open>Headers and cookies\<close>

record cookie =
  ck_name :: string
  ck_value :: string
  ck_path :: string
  ck_http_only :: bool
  ck_secure :: bool
  ck_same_site_lax :: bool
  ck_max_age :: int

record response =
  rs_status :: nat
  rs_headers :: "(string, string) go_map"
  rs_cookies :: "cookie list"

text \<open>A keyword of the policy is written between single quotes.\<close>

definition quoted :: "string \<Rightarrow> string" where
  "quoted w = CHR 0x27 # w @ [CHR 0x27]"

definition content_security_policy :: string where
  "content_security_policy =
     ''default-src '' @ quoted ''self'' @ ''; ''
     @ ''style-src '' @ quoted ''self'' @ '' '' @ quoted ''unsafe-inline'' @ ''; ''
     @ ''img-src '' @ quoted ''self'' @ '' data:; ''
     @ ''object-src '' @ quoted ''none'' @ ''; ''
     @ ''base-uri '' @ quoted ''self'' @ ''; ''
     @ ''form-action '' @ quoted ''self'' @ ''; ''
     @ ''frame-ancestors '' @ quoted ''none''"

definition hardening :: "(string \<times> string) list" where
  "hardening =
     [(''Content-Security-Policy'', content_security_policy), (''X-Content-Type-Options'', ''nosniff''),
      (''X-Frame-Options'', ''DENY''), (''Referrer-Policy'', ''same-origin'')]"

text \<open>\<open>Header.Set\<close> in order, the later call winning.\<close>

definition set_headers :: "(string \<times> string) list \<Rightarrow> (string, string) go_map \<Rightarrow> (string, string) go_map" where
  "set_headers hs h = fold (\<lambda>(k, v). go_put k v) hs h"

text \<open>\<open>securityHeaders\<close> sets its headers before the handler runs.\<close>

definition security_headers :: "(string \<times> string) list \<Rightarrow> (string, string) go_map" where
  "security_headers handler_headers = set_headers handler_headers (set_headers hardening [])"

definition session_cookie :: "bool \<Rightarrow> string \<Rightarrow> int \<Rightarrow> cookie" where
  "session_cookie secure token max_age =
     \<lparr>ck_name = ''uplarr_session'', ck_value = token, ck_path = ''/'', ck_http_only = True,
      ck_secure = secure, ck_same_site_lax = True, ck_max_age = max_age\<rparr>"

definition one_week :: int where "one_week = 3600 * 24 * 7"

subsection \<open>What each handler sets\<close>

definition json_type :: "(string \<times> string) list" where
  "json_type = [(''Content-Type'', ''application/json'')]"

text \<open>\<open>http.Error\<close>.\<close>

definition error_headers :: "(string \<times> string) list" where
  "error_headers = [(''Content-Type'', ''text/plain; charset=utf-8''), (''X-Content-Type-Options'', ''nosniff'')]"

definition stream_headers :: "(string \<times> string) list" where
  "stream_headers = [(''Content-Type'', ''text/event-stream''), (''Cache-Control'', ''no-cache''),
     (''Connection'', ''keep-alive''), (''X-Accel-Buffering'', ''no'')]"

text \<open>
  What is outside: the connection and its proxy, whether an embedded page can be read,
  \<open>mime.FormatMediaType\<close>, and the status with which \<open>ServeMux\<close> redirects, its file server answers
  for the embedded files and \<open>ServeContent\<close> answers for a download (ranges, conditional requests).
\<close>

record response_env =
  re_tls :: bool
  re_forwarded_proto :: string
  re_asset :: "string \<Rightarrow> bool"
  re_attachment :: "string \<Rightarrow> string"
  re_redirect :: nat
  re_static :: nat
  re_content :: nat

definition allow_header :: "string \<Rightarrow> (string \<times> string) list" where
  "allow_header path =
     (if path = ''/api/logout'' then [(''Allow'', ''POST'')]
      else if path = ''/api/queue'' then [(''Allow'', ''GET, POST'')]
      else if path = ''/api/stats'' then [(''Allow'', ''GET'')]
      else [])"

text \<open>Status, headers and cookies of a plain status on a path; 200 is a success, the rest \<open>http.Error\<close>.\<close>

definition status_response :: "bool \<Rightarrow> request \<Rightarrow> nat \<Rightarrow> nat \<times> (string \<times> string) list \<times> cookie list" where
  "status_response secure rq n =
     (if n = 200 then
        (200, if rq_path rq = ''/api/health'' then json_type else [],
         if rq_path rq = ''/api/logout'' then [session_cookie secure [] (-1)] else [])
      else if n = 405 then (405, allow_header (rq_path rq) @ error_headers, [])
      else if n = 400 \<and> rq_path rq = ''/api/remote/files'' then (400, json_type, [])
      else (n, error_headers, []))"

definition login_response :: "bool \<Rightarrow> login_reply \<Rightarrow> nat \<times> (string \<times> string) list \<times> cookie list" where
  "login_response secure r =
     (case r of
        LoginOpen \<Rightarrow> (200, [], [])
      | LoginBadRequest \<Rightarrow> (400, error_headers, [])
      | LoginBlocked \<Rightarrow> (429, error_headers, [])
      | LoginWrong \<Rightarrow> (401, error_headers, [])
      | LoginFailed \<Rightarrow> (500, error_headers, [])
      | LoginOk tok \<Rightarrow> (200, [], [session_cookie secure tok one_week]))"

definition local_response :: "response_env \<Rightarrow> local_reply \<Rightarrow> nat \<times> (string \<times> string) list \<times> cookie list" where
  "local_response re r =
     (case r of
        LocalOk \<Rightarrow> (200, [], [])
      | LocalListing path files \<Rightarrow> (200, json_type, [])
      | LocalFile name data \<Rightarrow> (re_content re, [(''Content-Disposition'', re_attachment re name)], [])
      | LocalStatus n \<Rightarrow> (n, error_headers, []))"

definition remote_response :: "request \<Rightarrow> remote_reply \<Rightarrow> nat \<times> (string \<times> string) list \<times> cookie list" where
  "remote_response rq r =
     (case r of
        RemoteOk \<Rightarrow> (200, [], [])
      | RemoteListing path files \<Rightarrow> (200, json_type, [])
      | RemoteUnauthorized msg \<Rightarrow> (401, error_headers, [])
      | RemoteBadRequest msg \<Rightarrow> (400, error_headers, [])
      | RemoteInternal msg \<Rightarrow> (500, if rq_path rq = ''/api/remote/files'' then json_type else error_headers, []))"

definition handler_response ::
  "response_env \<Rightarrow> config \<Rightarrow> request \<Rightarrow> api_reply \<Rightarrow> nat \<times> (string \<times> string) list \<times> cookie list" where
  "handler_response re cfg rq reply =
     (let secure = is_secure_request (re_tls re) (cf_trust_proxy cfg) (re_forwarded_proto re) in
      case reply of
        ApiStatus n \<Rightarrow> status_response secure rq n
      | ApiRedirect \<Rightarrow> (re_redirect re, [], [])
      | ApiStatic \<Rightarrow> (re_static re, [], [])
      | ApiPage page \<Rightarrow>
          if re_asset re page then (200, [(''Content-Type'', ''text/html'')], []) else (500, error_headers, [])
      | ApiLogin r \<Rightarrow> login_response secure r
      | ApiAuthRequired b \<Rightarrow> (200, json_type, [])
      | ApiLogs \<Rightarrow> (200, stream_headers, [])
      | ApiLocal r \<Rightarrow> local_response re r
      | ApiRemote r \<Rightarrow> remote_response rq r
      | ApiConnectError msg \<Rightarrow> (401, json_type, [])
      | ApiMessage msg \<Rightarrow> (200, if rq_path rq = ''/api/test-connection'' then json_type else [], [])
      | ApiInvalidFiles fs \<Rightarrow> (400, json_type, [])
      | ApiRetriesRange \<Rightarrow> (400, json_type, [])
      | ApiTasks ts \<Rightarrow> (200, json_type, [])
      | ApiStats hs \<Rightarrow> (200, json_type, []))"

text \<open>
  The response to a request. The outer \<open>ServeMux\<close>, which holds only the wrapped application, answers
  a path it would clean by itself, before the wrapper is reached.
\<close>

definition respond ::
  "response_env \<Rightarrow> ('s, 'r) api_env \<Rightarrow> request \<Rightarrow> ('s, 'r) app \<Rightarrow> response \<times> ('s, 'r) app" where
  "respond re ae rq ap =
     (case serve ae rq ap of (reply, ap') \<Rightarrow>
        (case handler_response re (ae_config ae) rq reply of (status, headers, cookies) \<Rightarrow>
           (\<lparr>rs_status = status,
             rs_headers = (if mux_path (rq_path rq) \<noteq> rq_path rq \<and> rq_method rq \<noteq> ''CONNECT''
               then [] else security_headers headers),
             rs_cookies = cookies\<rparr>, ap')))"

subsection \<open>Every response is hardened\<close>

lemma get_set_headers:
  "go_get (set_headers hs h) k = (case go_get (rev hs) k of Some v \<Rightarrow> Some v | None \<Rightarrow> go_get h k)"
proof (induction hs arbitrary: h)
  case (Cons x hs)
  then show ?case by (cases x) (auto simp: set_headers_def map_simps split: option.splits)
qed (simp add: set_headers_def)

text \<open>A header list that leaves the hardening headers as they are.\<close>

definition keeps_hardening :: "(string \<times> string) list \<Rightarrow> bool" where
  "keeps_hardening hs =
     list_all (\<lambda>(k, v). list_all (\<lambda>(j, w). k = j \<longrightarrow> v = w) hardening) hs"

lemma keeps_hardening_append [simp]: "keeps_hardening (xs @ ys) \<longleftrightarrow> keeps_hardening xs \<and> keeps_hardening ys"
  by (simp add: keeps_hardening_def)

lemma keeps_hardening_lists [simp]:
  "keeps_hardening []" "keeps_hardening json_type" "keeps_hardening error_headers" "keeps_hardening stream_headers"
  "keeps_hardening (allow_header p)" "keeps_hardening [(''Content-Disposition'', v)]"
  "keeps_hardening [(''Content-Type'', ''text/html'')]"
  by (simp_all add: keeps_hardening_def hardening_def json_type_def error_headers_def stream_headers_def allow_header_def)

lemma handlers_keep_hardening: "keeps_hardening (fst (snd (handler_response re cfg rq reply)))"
proof -
  have "keeps_hardening (fst (snd (status_response sec rq n)))" for sec n
    by (simp add: status_response_def)
  moreover have "keeps_hardening (fst (snd (login_response sec r)))" for sec r
    by (simp add: login_response_def split: login_reply.split)
  moreover have "keeps_hardening (fst (snd (local_response re r)))" for r
    by (simp add: local_response_def split: local_reply.split)
  moreover have "keeps_hardening (fst (snd (remote_response rq r)))" for r
    by (simp add: remote_response_def split: remote_reply.split)
  ultimately show ?thesis
    by (simp add: handler_response_def Let_def split: api_reply.split)
qed

lemma hardening_survives:
  assumes "keeps_hardening hs" "(k, v) \<in> set hardening"
  shows "go_get (security_headers hs) k = Some v"
proof (cases "go_get (rev hs) k")
  case None
  have "distinct (map fst (rev hardening))" by (simp add: hardening_def)
  then have "go_get (rev hardening) k = Some v"
    by (rule map_of_is_SomeI) (simp add: assms(2))
  then have "go_get (set_headers hardening []) k = Some v" by (simp add: get_set_headers)
  then show ?thesis using None by (simp add: security_headers_def get_set_headers [of hs])
next
  case (Some w)
  then have "(k, w) \<in> set hs" by (auto dest: map_of_SomeD)
  then have "list_all (\<lambda>(j, u). k = j \<longrightarrow> w = u) hardening"
    using assms(1) by (auto simp: keeps_hardening_def list_all_iff)
  then have "w = v" using assms(2) by (auto simp: list_all_iff)
  then show ?thesis using Some by (simp add: security_headers_def get_set_headers [of hs])
qed

text \<open>
  C38. Every response of the application, refusals and errors included, carries the four hardening
  headers with exactly their values: no handler overwrites one. The only response without them is
  the outer \<open>ServeMux\<close>'s redirect to the cleaned path, which is sent before the wrapper is reached.
\<close>

theorem responses_are_hardened:
  "let h = rs_headers (fst (respond re ae rq ap)) in
   if mux_path (rq_path rq) = rq_path rq \<or> rq_method rq = ''CONNECT''
   then list_all (\<lambda>(k, v). go_get h k = Some v)
     [(''Content-Security-Policy'', content_security_policy), (''X-Content-Type-Options'', ''nosniff''),
      (''X-Frame-Options'', ''DENY''), (''Referrer-Policy'', ''same-origin'')]
   else rs_status (fst (respond re ae rq ap)) = re_redirect re \<and> h = []"
proof (cases "mux_path (rq_path rq) = rq_path rq \<or> rq_method rq = ''CONNECT''")
  case True
  obtain reply ap' where s: "serve ae rq ap = (reply, ap')" by (cases "serve ae rq ap")
  obtain n hs cs where r: "handler_response re (ae_config ae) rq reply = (n, hs, cs)"
    by (cases "handler_response re (ae_config ae) rq reply") auto
  have "keeps_hardening hs" using handlers_keep_hardening [of re "ae_config ae" rq reply] r by simp
  then have "list_all (\<lambda>(k, v). go_get (security_headers hs) k = Some v) hardening"
    unfolding list_all_iff using hardening_survives by blast
  then have "list_all (\<lambda>(k, v). go_get (security_headers hs) k = Some v)
     [(''Content-Security-Policy'', content_security_policy), (''X-Content-Type-Options'', ''nosniff''),
      (''X-Frame-Options'', ''DENY''), (''Referrer-Policy'', ''same-origin'')]"
    unfolding hardening_def .
  moreover have "rs_headers (fst (respond re ae rq ap)) = security_headers hs"
    using True by (auto simp: respond_def s r)
  ultimately show ?thesis using True by simp
next
  case False
  then have "serve ae rq ap = (ApiRedirect, ap)" by (simp add: serve_def)
  then have "respond re ae rq ap = (\<lparr>rs_status = re_redirect re, rs_headers = [], rs_cookies = []\<rparr>, ap)"
    using False by (simp add: respond_def handler_response_def)
  then show ?thesis using False by simp
qed

subsection \<open>Cookies\<close>

fun is_login :: "api_reply \<Rightarrow> bool" where
  "is_login (ApiLogin r) = True"
| "is_login r = False"

lemma handlers_not_login:
  "\<not> is_login (fst (serve_local_action ae limit rq ap))" "\<not> is_login (fst (handle_upload ae limit rq ap))"
  "\<not> is_login (fst (handle_throttle limit rq ap))" "\<not> is_login (fst (handle_queue ae limit rq ap))"
  "\<not> is_login (fst (handle_stats ae rq ap))"
  by (simp_all add: serve_local_action_def handle_upload_def handle_throttle_def handle_queue_def handle_stats_def
      split: option.split prod.split)

lemma with_client_not_login:
  assumes "\<And>c ap'. \<not> is_login (fst (f c ap'))"
  shows "\<not> is_login (fst (with_client ae req f ap))"
  using assms by (simp add: with_client_def Let_def split: option.split prod.split)

lemma connecting_not_login:
  "\<not> is_login (fst (handle_test_connection ae limit rq ap))" "\<not> is_login (fst (serve_remote_files ae limit rq ap))"
  "\<not> is_login (fst (serve_remote_action ae limit rq ap))"
  unfolding handle_test_connection_def serve_remote_files_def serve_remote_action_def
  by (auto simp: case_prod_beta split: option.split intro!: with_client_not_login)

lemma guarded_not_login:
  assumes "\<And>ap'. \<not> is_login (fst (f ap'))"
  shows "\<not> is_login (fst (guarded ae rq f ap))"
  using assms by (simp add: guarded_def split: prod.split)

lemma route_not_login:
  assumes "rq_path rq \<noteq> ''/api/login''"
  shows "\<not> is_login (fst (route ae limit rq ap))"
  unfolding route_def Let_def
  using assms by (simp add: guarded_not_login [OF handlers_not_login(1)] guarded_not_login [OF handlers_not_login(2)]
      guarded_not_login [OF handlers_not_login(3)] guarded_not_login [OF handlers_not_login(4)]
      guarded_not_login [OF handlers_not_login(5)] guarded_not_login [OF connecting_not_login(1)]
      guarded_not_login [OF connecting_not_login(2)] guarded_not_login [OF connecting_not_login(3)]
      guarded_not_login case_prod_beta)

text \<open>A login is answered by \<open>LoginOk\<close> only when it was given the password, and opens a session.\<close>

lemma login_ok:
  assumes "login pw e ip body st = (LoginOk tok, st')"
  shows "pw \<noteq> []" "body = Some pw" "ln_token e = Some tok"
    "go_get (au_sessions st') tok = Some (ln_clock e 9 + session_ttl)"
  using assms
  by (auto simp: login_def login_finish_def login_succeed_def add_session_def Let_def map_simps
      split: if_splits option.splits prod.splits)

lemma serve_login_ok:
  assumes "serve ae rq ap = (ApiLogin (LoginOk tok), ap')"
  shows "cf_auth_password (ae_config ae) \<noteq> []" "rq_password rq = Some (cf_auth_password (ae_config ae))"
    "ln_token (ae_login ae) = Some tok" "\<not> cross_origin rq"
    "go_get (au_sessions (ap_auth ap')) tok = Some (ln_clock (ae_login ae) 9 + session_ttl)"
proof -
  obtain limit where r: "route ae limit rq ap = (ApiLogin (LoginOk tok), ap')" and c: "\<not> cross_origin rq"
    using assms by (auto simp: serve_def split: if_splits json_gate.splits)
  then have "rq_path rq = ''/api/login''" using route_not_login [of rq ae limit ap] by (cases "rq_path rq = ''/api/login''") auto
  with r have s: "serve_login ae limit rq ap = (ApiLogin (LoginOk tok), ap')"
    by (simp add: route_def has_prefix_def)
  then obtain au where l: "login (cf_auth_password (ae_config ae)) (ae_login ae)
      (client_ip (rq_remote_addr rq) (rq_forwarded_for rq) (cf_trust_proxy (ae_config ae)))
      (decode_body limit rq rq_password) (ap_auth ap) = (LoginOk tok, au)" and "ap' = ap\<lparr>ap_auth := au\<rparr>"
    unfolding serve_login_def by (auto split: prod.splits)
  then show "cf_auth_password (ae_config ae) \<noteq> []" "rq_password rq = Some (cf_auth_password (ae_config ae))"
    "ln_token (ae_login ae) = Some tok" "\<not> cross_origin rq"
    "go_get (au_sessions (ap_auth ap')) tok = Some (ln_clock (ae_login ae) 9 + session_ttl)"
    using login_ok [OF l] c by (auto simp: decode_body_def split: option.splits if_splits)
qed

lemma serve_logout_ok:
  assumes "serve ae rq ap = (ApiStatus 200, ap')" "rq_path rq = ''/api/logout''"
  shows "rq_method rq = ''POST''"
    "case rq_cookie rq of None \<Rightarrow> True | Some tok \<Rightarrow> go_get (au_sessions (ap_auth ap')) tok = None"
proof -
  obtain limit where "route ae limit rq ap = (ApiStatus 200, ap')"
    using assms(1) by (auto simp: serve_def split: if_splits json_gate.splits)
  with assms(2) have u: "update_sessions (logout (rq_method rq) (rq_cookie rq)) ap = (200, ap')"
    by (simp add: route_def has_prefix_def split: prod.splits)
  then show "rq_method rq = ''POST''"
    by (auto simp: update_sessions_def logout_def split: if_splits)
  with u show "case rq_cookie rq of None \<Rightarrow> True | Some tok \<Rightarrow> go_get (au_sessions (ap_auth ap')) tok = None"
    by (auto simp: update_sessions_def logout_def map_simps split: option.splits)
qed

lemma cookie_sources:
  assumes "ck \<in> set (snd (snd (handler_response re cfg rq reply)))"
  defines "sec \<equiv> is_secure_request (re_tls re) (cf_trust_proxy cfg) (re_forwarded_proto re)"
  shows "reply = ApiStatus 200 \<and> rq_path rq = ''/api/logout'' \<and> ck = session_cookie sec [] (-1)
    \<or> (\<exists>tok. reply = ApiLogin (LoginOk tok) \<and> ck = session_cookie sec tok one_week)"
proof (cases reply)
  case (ApiStatus n)
  with assms show ?thesis by (auto simp: handler_response_def status_response_def Let_def split: if_splits)
next
  case (ApiLogin r)
  with assms show ?thesis by (auto simp: handler_response_def login_response_def Let_def split: login_reply.splits)
next
  case (ApiLocal r)
  with assms show ?thesis by (auto simp: handler_response_def local_response_def Let_def split: local_reply.splits)
next
  case (ApiRemote r)
  with assms show ?thesis by (auto simp: handler_response_def remote_response_def Let_def split: remote_reply.splits)
qed (use assms in \<open>auto simp: handler_response_def Let_def split: if_splits\<close>)

text \<open>
  C17. The only cookie the program ever sets is the session cookie. It is hidden from scripts, not
  sent along by other sites, marked secure exactly when the request came over TLS, and either
  empties the cookie of a POST to the logout, after the session is gone, or holds a fresh token for
  a request that was not cross-site and gave the configured password; then it lives as long as the
  session it names.
\<close>

theorem session_cookie_scope:
  assumes "ck \<in> set (rs_cookies (fst (respond re ae rq ap)))"
  defines "ap' \<equiv> snd (respond re ae rq ap)"
  shows "ck_name ck = ''uplarr_session'' \<and> ck_path ck = ''/'' \<and> ck_http_only ck \<and> ck_same_site_lax ck
    \<and> ck_secure ck = is_secure_request (re_tls re) (cf_trust_proxy (ae_config ae)) (re_forwarded_proto re)
    \<and> (ck_value ck = [] \<and> ck_max_age ck = -1 \<and> rq_method rq = ''POST'' \<and> rq_path rq = ''/api/logout''
         \<and> (case rq_cookie rq of None \<Rightarrow> True | Some tok \<Rightarrow> go_get (au_sessions (ap_auth ap')) tok = None)
       \<or> cf_auth_password (ae_config ae) \<noteq> [] \<and> rq_password rq = Some (cf_auth_password (ae_config ae))
         \<and> \<not> cross_origin rq \<and> ln_token (ae_login ae) = Some (ck_value ck)
         \<and> go_get (au_sessions (ap_auth ap')) (ck_value ck)
             = Some (ln_clock (ae_login ae) 9 + 1000000000 * ck_max_age ck))"
proof -
  obtain reply ap1 where s: "serve ae rq ap = (reply, ap1)" by (cases "serve ae rq ap")
  obtain n hs cs where r: "handler_response re (ae_config ae) rq reply = (n, hs, cs)"
    by (cases "handler_response re (ae_config ae) rq reply") auto
  have e: "rs_cookies (fst (respond re ae rq ap)) = cs" "ap' = ap1"
    by (simp_all add: ap'_def respond_def s r)
  have ttl: "session_ttl = 1000000000 * one_week"
    by (simp add: session_ttl_def one_week_def minutes_def)
  let ?sec = "is_secure_request (re_tls re) (cf_trust_proxy (ae_config ae)) (re_forwarded_proto re)"
  have "ck \<in> set (snd (snd (handler_response re (ae_config ae) rq reply)))"
    using assms(1) e(1) r by simp
  from cookie_sources [OF this] show ?thesis
  proof (elim disjE conjE exE)
    assume "reply = ApiStatus 200" and p: "rq_path rq = ''/api/logout''" and ck: "ck = session_cookie ?sec [] (-1)"
    with serve_logout_ok [of ae rq ap ap1] s show ?thesis
      unfolding e(2) by (simp add: p session_cookie_def)
  next
    fix tok
    assume "reply = ApiLogin (LoginOk tok)" and ck: "ck = session_cookie ?sec tok one_week"
    with serve_login_ok [of ae rq ap tok ap1] s show ?thesis
      unfolding e(2) by (simp add: session_cookie_def ttl)
  qed
qed

text \<open>\<open>generateToken\<close> on what the random source gives.\<close>

definition generate_token :: "string option \<Rightarrow> string option" where
  "generate_token random = map_option std_encode random"

text \<open>What \<open>http.SetCookie\<close> makes of a value: bytes a cookie cannot hold are dropped, and a blank or a comma quotes it.\<close>

definition cookie_byte :: "char \<Rightarrow> bool" where
  "cookie_byte c \<longleftrightarrow> 0x20 \<le> byte_val c \<and> byte_val c < 0x7F \<and> c \<notin> {CHR 0x22, CHR '';'', CHR 0x5C}"

definition sanitize_cookie_value :: "string \<Rightarrow> string" where
  "sanitize_cookie_value v =
     (let w = filter cookie_byte v in
      if CHR '' '' \<in> set w \<or> CHR '','' \<in> set w then CHR 0x22 # w @ [CHR 0x22] else w)"

lemma std_encode_chars: "set (std_encode b) \<subseteq> insert (CHR ''='') (set std_alphabet)"
  unfolding std_encode_def
  by (induction "std_alphabet" "''=''" b rule: b64_encode.induct) (simp_all add: sextet_in(1))

lemma alphabet_cookie: "\<forall>c\<in>insert (CHR ''='') (set std_alphabet). cookie_byte c \<and> c \<noteq> CHR '' '' \<and> c \<noteq> CHR '',''"
  by (simp add: std_alphabet_def cookie_byte_def)

text \<open>The browser is given exactly the token of the session table, and two tokens differ when their random bytes do.\<close>

theorem token_survives_cookie:
  assumes "generate_token (Some b) = Some t"
  shows "sanitize_cookie_value t = t \<and> std_decode t = Some b"
proof -
  have t: "t = std_encode b" using assms by (simp add: generate_token_def)
  have "cookie_byte c \<and> c \<noteq> CHR '' '' \<and> c \<noteq> CHR '',''" if "c \<in> set t" for c
    using that std_encode_chars [of b] alphabet_cookie t by blast
  then have "filter cookie_byte t = t" "CHR '' '' \<notin> set t" "CHR '','' \<notin> set t"
    by (auto simp: filter_id_conv)
  then show ?thesis by (simp add: sanitize_cookie_value_def Let_def t std_decode_encode)
qed

definition demo_response :: response_env where
  "demo_response =
     \<lparr>re_tls = False, re_forwarded_proto = ''HTTPS'', re_asset = (\<lambda>_. True), re_attachment = (\<lambda>n. ''attachment; filename='' @ n),
      re_redirect = 307, re_static = 200, re_content = 200\<rparr>"

definition login_post :: request where
  "login_post = demo_request\<lparr>rq_path := ''/api/login'', rq_cookie := None, rq_password := Some ''right''\<rparr>"

lemma demo_login_reply: "\<exists>ap'. serve demo_api login_post demo_app = (ApiLogin (LoginOk ''tok''), ap')"
proof -
  have m: "mux_path (rq_path login_post) = rq_path login_post" "\<not> cross_origin login_post"
    by code_simp+
  have j: "require_json_body login_post = PassBody (Some max_json_body)"
    by (simp add: require_json_body_def login_post_def demo_request_def is_safe_method_def has_prefix_def)
  have d: "decode_body (Some max_json_body) login_post rq_password = Some ''right''"
    by (simp add: decode_body_def login_post_def demo_request_def max_json_body_def)
  have "fst (login ''right'' (demo_login 100) (client_ip ''10.0.0.2:4711'' [] False) (Some ''right'') (ap_auth demo_app))
      = LoginOk ''tok''"
    by code_simp
  then have "fst (route demo_api (Some max_json_body) login_post demo_app) = ApiLogin (LoginOk ''tok'')"
    using d by (simp add: route_def serve_login_def login_post_def demo_request_def demo_api_def has_prefix_def case_prod_beta)
  then show ?thesis
    using m j by (cases "route demo_api (Some max_json_body) login_post demo_app") (simp add: serve_def)
qed

theorem session_cookie_scope_witness:
  "\<exists>ck. rs_cookies (fst (respond demo_response demo_api login_post demo_app)) = [ck]
    \<and> ck_value ck = ''tok'' \<and> \<not> ck_secure ck
    \<and> go_get (au_sessions (ap_auth (snd (respond demo_response demo_api login_post demo_app)))) ''tok''
      = Some (100 + 1000000000 * 604800)"
proof -
  obtain ap' where s: "serve demo_api login_post demo_app = (ApiLogin (LoginOk ''tok''), ap')"
    using demo_login_reply by (elim exE)
  have sec: "\<not> is_secure_request (re_tls demo_response) (cf_trust_proxy (ae_config demo_api)) (re_forwarded_proto demo_response)"
    by code_simp
  let ?ck = "session_cookie False ''tok'' one_week"
  have c: "rs_cookies (fst (respond demo_response demo_api login_post demo_app)) = [?ck]"
    using sec by (simp add: respond_def s handler_response_def login_response_def)
  then have "?ck \<in> set (rs_cookies (fst (respond demo_response demo_api login_post demo_app)))" by simp
  from session_cookie_scope [OF this]
  have "go_get (au_sessions (ap_auth (snd (respond demo_response demo_api login_post demo_app)))) ''tok''
      = Some (100 + 1000000000 * 604800)"
    by (simp add: session_cookie_def demo_api_def demo_login_def one_week_def)
  with c show ?thesis by (simp add: session_cookie_def)
qed

end
