(* ===== verification/Event_Stream.thy ===== *)
theory Event_Stream
  imports Logger
begin

text \<open>
  What a page reads from \<open>/api/logs\<close>: the handler's loop (\<open>internal/api/server.go\<close>), the level
  functions of \<open>internal/logger/logger.go\<close>, and their two inverses on the other side, the line
  format of an event stream and the strings of JSON. Reading back gives the messages that were
  logged, in order, with invalid UTF-8 replaced.
\<close>

subsection \<open>What the handler writes\<close>

definition log_info :: "string \<Rightarrow> string \<Rightarrow> string option" where
  "log_info now msg = log_text now ''info'' msg None"

definition log_error :: "string \<Rightarrow> string \<Rightarrow> string option" where
  "log_error now msg = log_text now ''error'' msg None"

definition log_warn :: "string \<Rightarrow> string \<Rightarrow> string option" where
  "log_warn now msg = log_text now ''warn'' msg None"

text \<open>What the loop of the handler finds: an entry in its channel, or a tick of its heartbeat.\<close>

datatype stream_item = Entry string | Keepalive

definition blank_line :: string where
  "blank_line = [CHR 0x0A, CHR 0x0A]"

definition stream_preamble :: string where
  "stream_preamble = '': connected'' @ blank_line @ '': '' @ replicate 512 (CHR '' '') @ blank_line"

fun item_text :: "stream_item \<Rightarrow> string" where
  "item_text (Entry msg) = sse_event msg"
| "item_text Keepalive = '': keepalive'' @ blank_line"

definition stream_text :: "stream_item list \<Rightarrow> string" where
  "stream_text items = stream_preamble @ concat (map item_text items)"

fun entries_of :: "stream_item list \<Rightarrow> string list" where
  "entries_of [] = []"
| "entries_of (Entry msg # items) = msg # entries_of items"
| "entries_of (Keepalive # items) = entries_of items"

subsection \<open>Reading an event stream\<close>

text \<open>
  The data of the events an \<open>EventSource\<close> dispatches. Lines end with LF, CR or CRLF; a line that
  starts with a colon is a comment; an empty line dispatches what the data lines before it hold.
\<close>

fun unify_ends :: "string \<Rightarrow> string" where
  "unify_ends [] = []"
| "unify_ends (c # cs) =
     (if c = CHR 0x0D then CHR 0x0A # (case cs of [] \<Rightarrow> [] | d # ds \<Rightarrow> if d = CHR 0x0A then unify_ends ds else unify_ends cs)
      else c # unify_ends cs)"

text \<open>Field name and value; one space after the colon is dropped.\<close>

definition sse_field :: "string \<Rightarrow> string \<times> string" where
  "sse_field line =
     (let v = drop 1 (dropWhile (\<lambda>c. c \<noteq> CHR '':'') line) in
      (takeWhile (\<lambda>c. c \<noteq> CHR '':'') line, case v of [] \<Rightarrow> [] | c # cs \<Rightarrow> if c = CHR '' '' then cs else v))"

fun sse_events :: "string list \<Rightarrow> string \<Rightarrow> string list" where
  "sse_events [] buf = []"
| "sse_events (l # ls) buf =
     (if l = [] then (if buf = [] then sse_events ls [] else butlast buf # sse_events ls [])
      else if hd l = CHR '':'' then sse_events ls buf
      else case sse_field l of (f, v) \<Rightarrow>
        sse_events ls (if f = ''data'' then buf @ v @ [CHR 0x0A] else buf))"

definition read_stream :: "string \<Rightarrow> string list" where
  "read_stream s = sse_events (butlast (split_on (CHR 0x0A) (unify_ends s))) []"

subsection \<open>Reading JSON strings\<close>

definition hex_val :: "char \<Rightarrow> nat option" where
  "hex_val c =
     (let n = byte c in
      if 48 \<le> n \<and> n \<le> 57 then Some (n - 48)
      else if 97 \<le> n \<and> n \<le> 102 then Some (n - 87)
      else if 65 \<le> n \<and> n \<le> 70 then Some (n - 55) else None)"

definition hex4 :: "char \<Rightarrow> char \<Rightarrow> char \<Rightarrow> char \<Rightarrow> nat option" where
  "hex4 a b c d =
     (case (hex_val a, hex_val b, hex_val c, hex_val d) of
        (Some w, Some x, Some y, Some z) \<Rightarrow> Some (((w * 16 + x) * 16 + y) * 16 + z)
      | _ \<Rightarrow> None)"

text \<open>UTF-8 of a code point below \<open>2 ^ 16\<close> that is not half of a surrogate pair.\<close>

definition utf8 :: "nat \<Rightarrow> string option" where
  "utf8 n =
     (if n < 0x80 then Some [char_of n]
      else if n < 0x800 then Some [char_of (0xC0 + n div 64), char_of (0x80 + n mod 64)]
      else if 0xD800 \<le> n \<and> n < 0xE000 then None
      else Some [char_of (0xE0 + n div 4096), char_of (0x80 + n div 64 mod 64), char_of (0x80 + n mod 64)])"

definition short_escapes :: "(char \<times> char) list" where
  "short_escapes = [(CHR 0x22, CHR 0x22), (CHR 0x5C, CHR 0x5C), (CHR ''/'', CHR ''/''), (CHR ''b'', CHR 0x08),
     (CHR ''f'', CHR 0x0C), (CHR ''n'', CHR 0x0A), (CHR ''r'', CHR 0x0D), (CHR ''t'', CHR 0x09)]"

definition prepend :: "string option \<Rightarrow> (string \<times> string) option \<Rightarrow> (string \<times> string) option" where
  "prepend p r = (case (p, r) of (Some x, Some (y, rest)) \<Rightarrow> Some (x @ y, rest) | _ \<Rightarrow> None)"

text \<open>The value of a string whose opening quote is read, and what follows its closing quote.\<close>

fun read_string :: "string \<Rightarrow> (string \<times> string) option" where
  "read_string [] = None"
| "read_string (c # cs) =
     (if c = CHR 0x22 then Some ([], cs)
      else if byte c < 32 then None
      else if c \<noteq> CHR 0x5C then prepend (Some [c]) (read_string cs)
      else case cs of
          [] \<Rightarrow> None
        | d # ds \<Rightarrow>
            if d = CHR ''u'' then
              (case ds of
                 w # x # y # z # rest \<Rightarrow> prepend (Option.bind (hex4 w x y z) utf8) (read_string rest)
               | _ \<Rightarrow> None)
            else prepend (map_option (\<lambda>e. [e]) (map_of short_escapes d)) (read_string ds))"

declare read_string.simps(2) [simp del]

text \<open>The members of an object whose values are strings.\<close>

fun read_members :: "nat \<Rightarrow> string \<Rightarrow> (string \<times> string) list option" where
  "read_members 0 s = None"
| "read_members (Suc n) s =
     (case s of
        q # s1 \<Rightarrow>
          (case read_string s1 of
             Some (k, col # q' # s2) \<Rightarrow>
               if q = CHR 0x22 \<and> col = CHR '':'' \<and> q' = CHR 0x22 then
                 (case read_string s2 of
                    Some (v, e # s3) \<Rightarrow>
                      if e = CHR ''}'' \<and> s3 = [] then Some [(k, v)]
                      else if e = CHR '','' then map_option (\<lambda>ms. (k, v) # ms) (read_members n s3)
                      else None
                  | _ \<Rightarrow> None)
               else None
           | _ \<Rightarrow> None)
      | [] \<Rightarrow> None)"

text \<open>Every member takes at least one byte, so the length of the text is enough fuel.\<close>

definition read_object :: "string \<Rightarrow> (string \<times> string) list option" where
  "read_object s = (case s of [] \<Rightarrow> None | c # cs \<Rightarrow> if c = CHR ''{'' then read_members (length cs) cs else None)"

subsection \<open>Strings read back\<close>

text \<open>What an encoder makes of a string: bytes that are no UTF-8 become U+FFFD.\<close>

function valid_text :: "string \<Rightarrow> string" where
  "valid_text [] = []"
| "valid_text (c # cs) =
     (if byte c < 128 then c # valid_text cs
      else if rune_size (c # cs) = 0 then [CHR 0xEF, CHR 0xBF, CHR 0xBD] @ valid_text cs
      else take (rune_size (c # cs)) (c # cs) @ valid_text (drop (rune_size (c # cs)) (c # cs)))"
  by pat_completeness auto
termination
  by (relation "measure length") auto

declare valid_text.simps(2) [simp del]

lemma valid_text_ascii: "\<forall>c\<in>set s. byte c < 128 \<Longrightarrow> valid_text s = s"
  by (induction s) (simp_all add: valid_text.simps(2))

lemma prepend_Some [simp]: "prepend (Some x) (Some (y, r)) = Some (x @ y, r)"
  by (simp add: prepend_def)

lemma prepend_prepend: "prepend (Some x) (prepend (Some y) r) = prepend (Some (x @ y)) r"
  by (auto simp: prepend_def split: option.split)

lemma byte_char_of: "n < 256 \<Longrightarrow> byte (char_of n) = n"
  by (simp add: byte_def)

lemma char_of_byte [simp]: "char_of (byte c) = c"
  by (simp add: byte_def)

lemma read_plain:
  "c \<noteq> CHR 0x22 \<Longrightarrow> c \<noteq> CHR 0x5C \<Longrightarrow> 32 \<le> byte c \<Longrightarrow> read_string (c # cs) = prepend (Some [c]) (read_string cs)"
  by (simp add: read_string.simps(2))

lemma read_high:
  assumes "\<And>x. x \<in> set s \<Longrightarrow> 128 \<le> byte x"
  shows "read_string (s @ r) = (if s = [] then read_string r else prepend (Some s) (read_string r))"
  using assms
proof (induction s)
  case (Cons c s)
  have "128 \<le> byte c" using Cons.prems by simp
  moreover from this have "c \<noteq> CHR 0x22" "c \<noteq> CHR 0x5C" "32 \<le> byte c" by (auto simp: byte_def)
  ultimately show ?case using Cons by (simp add: read_plain prepend_prepend)
qed simp

lemma read_short:
  "d \<noteq> CHR ''u'' \<Longrightarrow> read_string (CHR 0x5C # d # ds) = prepend (map_option (\<lambda>e. [e]) (map_of short_escapes d)) (read_string ds)"
  by (simp add: read_string.simps(2) byte_def)

lemma read_unicode:
  "read_string (CHR 0x5C # CHR ''u'' # w # x # y # z # rest) = prepend (Option.bind (hex4 w x y z) utf8) (read_string rest)"
  by (simp add: read_string.simps(2) byte_def)

lemma hex_val_char: "n < 16 \<Longrightarrow> hex_val (hex_char n) = Some n"
  by (simp add: hex_val_def hex_char_def byte_def)

lemma hex4_low:
  "hex4 (CHR ''0'') (CHR ''0'') (hex_char (byte c div 16)) (hex_char (byte c mod 16)) = Some (byte c)"
proof -
  have "byte c div 16 < 16" using byte_less [of c] by simp
  moreover have "hex_val (CHR ''0'') = Some 0" by (simp add: hex_val_def byte_def)
  ultimately show ?thesis by (simp add: hex4_def hex_val_char)
qed

lemma read_escape_ascii:
  assumes "byte c < 128"
  shows "read_string (escape_ascii c @ r) = prepend (Some [c]) (read_string r)"
proof -
  consider (quote) "c = CHR 0x22 \<or> c = CHR 0x5C"
    | (short) "c \<in> {CHR 0x08, CHR 0x0C, CHR 0x0A, CHR 0x0D, CHR 0x09}"
    | (uni) "c \<notin> {CHR 0x22, CHR 0x5C, CHR 0x08, CHR 0x0C, CHR 0x0A, CHR 0x0D, CHR 0x09}"
        "byte c < 32 \<or> c = CHR ''<'' \<or> c = CHR ''>'' \<or> c = CHR ''&''"
    | (plain) "c \<notin> {CHR 0x22, CHR 0x5C, CHR 0x08, CHR 0x0C, CHR 0x0A, CHR 0x0D, CHR 0x09}" "32 \<le> byte c"
        "c \<noteq> CHR ''<'' \<and> c \<noteq> CHR ''>'' \<and> c \<noteq> CHR ''&''"
    by force
  then show ?thesis
  proof cases
    case quote
    then show ?thesis by (auto simp: escape_ascii_def read_short short_escapes_def)
  next
    case short
    then show ?thesis by (auto simp: escape_ascii_def read_short short_escapes_def)
  next
    case uni
    then have "escape_ascii c = [CHR 0x5C, CHR ''u'', CHR ''0'', CHR ''0'', hex_char (byte c div 16), hex_char (byte c mod 16)]"
      by (auto simp: escape_ascii_def)
    then show ?thesis using assms by (simp add: read_unicode hex4_low utf8_def)
  next
    case plain
    then have "escape_ascii c = [c]" by (auto simp: escape_ascii_def)
    then show ?thesis using plain by (simp add: read_plain)
  qed
qed

lemma high_chars:
  "char_of (226 :: nat) = CHR 0xE2" "char_of (128 :: nat) = CHR 0x80" "char_of (168 :: nat) = CHR 0xA8"
  "char_of (169 :: nat) = CHR 0xA9" "char_of (239 :: nat) = CHR 0xEF" "char_of (191 :: nat) = CHR 0xBF"
  "char_of (189 :: nat) = CHR 0xBD"
  using char_of_byte [of "CHR 0xE2"] char_of_byte [of "CHR 0x80"] char_of_byte [of "CHR 0xA8"]
    char_of_byte [of "CHR 0xA9"] char_of_byte [of "CHR 0xEF"] char_of_byte [of "CHR 0xBF"] char_of_byte [of "CHR 0xBD"]
  by (simp_all add: byte_def)

text \<open>U+2028 and U+2029.\<close>

lemma read_separator:
  assumes "d = CHR 0xA8 \<or> d = CHR 0xA9"
  shows "read_string (CHR 0x5C # ''u202'' @ [hex_char (byte d mod 16)] @ r) = prepend (Some [CHR 0xE2, CHR 0x80, d]) (read_string r)"
proof -
  have "Option.bind (hex4 (CHR ''2'') (CHR ''0'') (CHR ''2'') (hex_char (byte d mod 16))) utf8 = Some [CHR 0xE2, CHR 0x80, d]"
    using assms by (auto simp: hex4_def hex_val_def hex_char_def byte_def utf8_def high_chars)
  then show ?thesis by (simp add: read_unicode)
qed

lemma read_replacement: "read_string (replacement @ r) = prepend (Some [CHR 0xEF, CHR 0xBF, CHR 0xBD]) (read_string r)"
proof -
  have "Option.bind (hex4 (CHR ''f'') (CHR ''f'') (CHR ''f'') (CHR ''d'')) utf8 = Some [CHR 0xEF, CHR 0xBF, CHR 0xBD]"
    by (simp add: hex4_def hex_val_def byte_def utf8_def high_chars)
  then show ?thesis by (simp add: replacement_def read_unicode)
qed

text \<open>The three ways a byte above the ASCII range is encoded.\<close>

lemma json_body_high:
  fixes c :: char and cs :: string
  assumes "128 \<le> byte c"
  defines "n \<equiv> rune_size (c # cs)"
  obtains (bad) "n = 0" "json_body (c # cs) = replacement @ json_body cs"
    | (separator) d where "n > 0" "take n (c # cs) = [CHR 0xE2, CHR 0x80, d]" "d = CHR 0xA8 \<or> d = CHR 0xA9"
        "json_body (c # cs) = CHR 0x5C # ''u202'' @ [hex_char (byte d mod 16)] @ json_body (drop n (c # cs))"
    | (rune) "n > 0" "json_body (c # cs) = take n (c # cs) @ json_body (drop n (c # cs))"
proof -
  have low: "\<not> byte c < 128" using assms(1) by simp
  let ?line = "take 2 (c # cs) = [CHR 0xE2, CHR 0x80] \<and> (cs ! 1 = CHR 0xA8 \<or> cs ! 1 = CHR 0xA9)"
  consider "n = 0" | "n > 0" ?line | "n > 0" "\<not> ?line" by blast
  then show thesis
  proof cases
    case 1
    then show thesis using low by (intro bad) (simp_all add: json_body.simps(2) n_def)
  next
    case 2
    then have c: "c = CHR 0xE2" "take 1 cs = [CHR 0x80]" by (auto simp: numeral_2_eq_2)
    obtain d r where cs: "cs = CHR 0x80 # r" using c(2) by (cases cs) auto
    have "0 < rune_size (CHR 0xE2 # CHR 0x80 # r)" using 2(1) by (simp add: n_def c cs)
    moreover have "rune_size (CHR 0xE2 # CHR 0x80 # r) =
        (case r of [] \<Rightarrow> 0 | e # _ \<Rightarrow> if three_ok (CHR 0xE2) (CHR 0x80) \<and> continuation e then 3 else 0)"
      by (rule rune_three) (simp_all add: byte_def)
    ultimately obtain e r' where r: "r = e # r'" and n3: "n = 3"
      by (cases r) (auto simp: n_def c cs split: if_splits)
    have body: "json_body (c # cs) = CHR 0x5C # ''u202'' @ [hex_char (byte (cs ! 1) mod 16)] @ json_body (drop n (c # cs))"
      unfolding json_body.simps(2) Let_def n_def [symmetric] using low 2 by (simp only: if_False if_True simp_thms) simp
    show thesis
    proof (rule separator [of e])
      show "n > 0" by (rule 2(1))
      show "take n (c # cs) = [CHR 0xE2, CHR 0x80, e]" by (simp add: n3 c cs r)
      show "e = CHR 0xA8 \<or> e = CHR 0xA9" using 2(2) by (simp add: cs r)
      show "json_body (c # cs) = CHR 0x5C # ''u202'' @ [hex_char (byte e mod 16)] @ json_body (drop n (c # cs))"
        using body by (simp add: cs r)
    qed
  next
    case 3
    then show thesis
      using low by (intro rune) (simp_all only: json_body.simps(2) n_def [symmetric] Let_def if_False if_not_P)
  qed
qed

lemma read_body: "read_string (json_body s @ CHR 0x22 # r) = Some (valid_text s, r)"
proof (induction s rule: length_induct)
  case (1 s)
  show ?case
  proof (cases s)
    case Nil
    then show ?thesis by (simp add: read_string.simps(2))
  next
    case (Cons c cs)
    have IH: "read_string (json_body t @ CHR 0x22 # r) = Some (valid_text t, r)" if "length t \<le> length cs" for t
      using that 1 Cons by simp
    show ?thesis
    proof (cases "byte c < 128")
      case True
      then show ?thesis
        using IH [of cs] Cons by (simp add: json_body.simps(2) read_escape_ascii valid_text.simps(2))
    next
      case False
      define n where "n = rune_size (c # cs)"
      have c: "128 \<le> byte c" using False by simp
      have vt: "valid_text (c # cs) = (if n = 0 then [CHR 0xEF, CHR 0xBF, CHR 0xBD] @ valid_text cs
          else take n (c # cs) @ valid_text (drop n (c # cs)))"
        using False by (simp add: valid_text.simps(2) n_def)
      have rest: "read_string (json_body (drop n (c # cs)) @ CHR 0x22 # r) = Some (valid_text (drop n (c # cs)), r)" if "n > 0"
        using that by (intro IH) simp
      show ?thesis
      proof (rule json_body_high [OF c, of cs, folded n_def])
        assume "n = 0" "json_body (c # cs) = replacement @ json_body cs"
        then show ?thesis unfolding Cons vt using IH [of cs] by (simp add: read_replacement)
      next
        fix d
        assume "n > 0" "take n (c # cs) = [CHR 0xE2, CHR 0x80, d]" and d: "d = CHR 0xA8 \<or> d = CHR 0xA9"
          and "json_body (c # cs) = CHR 0x5C # ''u202'' @ [hex_char (byte d mod 16)] @ json_body (drop n (c # cs))"
        with read_separator [OF d, of "json_body (drop n (c # cs)) @ CHR 0x22 # r"] rest show ?thesis
          unfolding Cons vt by simp
      next
        assume n: "n > 0" and body: "json_body (c # cs) = take n (c # cs) @ json_body (drop n (c # cs))"
        have "128 \<le> byte x" if "x \<in> set (take n (c # cs))" for x
          using rune_bytes [OF n_def [symmetric] n that] .
        from read_high [OF this] n body rest show ?thesis unfolding Cons vt by simp
      qed
    qed
  qed
qed

subsection \<open>Entries read back\<close>

definition plain_key :: "string \<Rightarrow> bool" where
  "plain_key k \<longleftrightarrow> (\<forall>r. read_string (k @ CHR 0x22 # r) = Some (k, r))"

lemma plain_keys: "plain_key ''level''" "plain_key ''time''" "plain_key ''msg''"
  by (simp_all add: plain_key_def read_string.simps(2) byte_def)

lemma read_member:
  assumes "plain_key k"
  shows "read_members (Suc n) (key k @ json_string v @ e # s) =
    (if e = CHR ''}'' \<and> s = [] then Some [(k, valid_text v)]
     else if e = CHR '','' then map_option (\<lambda>ms. (k, valid_text v) # ms) (read_members n s) else None)"
  using assms by (simp add: key_def json_string_def plain_key_def read_body)

lemma read_entry:
  "\<exists>entry. log_text now level msg None = Some entry
    \<and> read_object entry = Some [(''level'', valid_text level), (''time'', valid_text now), (''msg'', valid_text msg)]"
proof -
  define body where "body = key ''level'' @ json_string level @ CHR '','' # (key ''time'' @ json_string now
    @ CHR '','' # (key ''msg'' @ json_string msg @ CHR ''}'' # []))"
  have entry: "log_text now level msg None = Some (CHR ''{'' # body)"
    by (simp add: log_text_def marshal_def body_def)
  have "Suc (Suc (Suc 0)) \<le> length body" by (simp add: body_def key_def)
  then obtain n where n: "length body = Suc (Suc (Suc n))" by (auto dest: le_Suc_ex)
  have "read_members (length body) body = Some [(''level'', valid_text level), (''time'', valid_text now), (''msg'', valid_text msg)]"
    unfolding n unfolding body_def by (simp only: read_member plain_keys) simp
  then show ?thesis using entry by (intro exI [of _ "CHR ''{'' # body"] conjI) (simp_all add: read_object_def)
qed

lemma log_text_lines:
  assumes "log_text now level msg None = Some entry"
  shows "CHR 0x0A \<notin> set entry" "CHR 0x0D \<notin> set entry"
proof -
  have "32 \<le> byte c" if "c \<in> set entry" for c
    using assms body_printable that by (auto simp: log_text_def marshal_def json_string_def key_def byte_def)
  moreover have "\<not> 32 \<le> byte (CHR 0x0A)" "\<not> 32 \<le> byte (CHR 0x0D)" by (simp_all add: byte_def)
  ultimately show "CHR 0x0A \<notin> set entry" "CHR 0x0D \<notin> set entry" by blast+
qed

subsection \<open>The stream read back\<close>

lemma unify_ends_clean: "CHR 0x0D \<notin> set s \<Longrightarrow> unify_ends s = s"
  by (induction s) auto

definition stream_lines :: "string \<Rightarrow> string list" where
  "stream_lines s = butlast (split_on (CHR 0x0A) s)"

lemma stream_lines_block:
  assumes "CHR 0x0A \<notin> set l"
  shows "stream_lines (l @ blank_line @ s) = l # [] # stream_lines s"
proof -
  have "split_on (CHR 0x0A) (l @ CHR 0x0A # CHR 0x0A # s) = l # [] # split_on (CHR 0x0A) s"
    using assms by (simp add: split_on_append_sep split_on_clean)
  then show ?thesis by (simp add: stream_lines_def blank_line_def)
qed

lemma comment_block:
  assumes "CHR 0x0A \<notin> set l"
  shows "sse_events (stream_lines ((CHR '':'' # l) @ blank_line @ s)) [] = sse_events (stream_lines s) []"
  using assms by (subst stream_lines_block) simp_all

lemma data_block:
  assumes "CHR 0x0A \<notin> set msg"
  shows "sse_events (stream_lines (sse_event msg @ s)) [] = msg # sse_events (stream_lines s) []"
proof -
  have "sse_event msg @ s = (''data: '' @ msg) @ blank_line @ s" by (simp add: sse_event_def blank_line_def)
  moreover have "sse_field (''data: '' @ msg) = (''data'', msg)" by (simp add: sse_field_def)
  ultimately show ?thesis using assms stream_lines_block [of "''data: '' @ msg" s] by simp
qed

lemma read_stream_entries:
  assumes "\<forall>m\<in>set (entries_of items). CHR 0x0A \<notin> set m \<and> CHR 0x0D \<notin> set m"
  shows "read_stream (stream_text items) = entries_of items"
proof -
  have items: "sse_events (stream_lines (concat (map item_text items))) [] = entries_of items"
    using assms
  proof (induction items rule: entries_of.induct)
    case 1
    then show ?case by (simp add: stream_lines_def)
  next
    case (2 msg items)
    then show ?case by (simp add: data_block)
  next
    case (3 items)
    then show ?case using comment_block [of "'' keepalive''" "concat (map item_text items)"] by simp
  qed
  have "CHR 0x0D \<notin> set (concat (map item_text items))"
    using assms by (induction items rule: entries_of.induct) (auto simp: sse_event_def blank_line_def)
  then have "CHR 0x0D \<notin> set (stream_text items)"
    by (auto simp: stream_text_def stream_preamble_def blank_line_def)
  then have "unify_ends (stream_text items) = stream_text items" by (rule unify_ends_clean)
  moreover have "sse_events (stream_lines (stream_text items)) [] = entries_of items"
    using comment_block [of "'' connected''" "'': '' @ replicate 512 (CHR '' '') @ blank_line @ concat (map item_text items)"]
      comment_block [of "CHR '' '' # replicate 512 (CHR '' '')" "concat (map item_text items)"] items
    by (simp add: stream_text_def stream_preamble_def del: replicate.simps replicate_Suc)
  ultimately show ?thesis by (simp add: read_stream_def stream_lines_def)
qed

text \<open>A run of the handler that received these entries, between any number of heartbeats.\<close>

datatype logged = Logged string string string | Beat

fun entry_item :: "logged \<Rightarrow> stream_item option" where
  "entry_item (Logged now level msg) = map_option Entry (log_text now level msg None)"
| "entry_item Beat = Some Keepalive"

text \<open>The three fields of a logged entry, as a page gets them.\<close>

definition entry_fields :: "string \<Rightarrow> string \<Rightarrow> string \<Rightarrow> (string \<times> string) list" where
  "entry_fields now level msg =
     [(''level'', valid_text level), (''time'', valid_text now), (''msg'', valid_text msg)]"

lemma entries_read_back:
  "\<exists>items. those (map entry_item ls) = Some items
    \<and> map read_object (read_stream (stream_text items)) = [Some (entry_fields now level msg). Logged now level msg \<leftarrow> ls]"
proof -
  have "\<exists>items. those (map entry_item ls) = Some items
    \<and> (\<forall>m\<in>set (entries_of items). CHR 0x0A \<notin> set m \<and> CHR 0x0D \<notin> set m)
    \<and> map read_object (entries_of items) = [Some (entry_fields now level msg). Logged now level msg \<leftarrow> ls]"
  proof (induction ls)
    case (Cons l ls)
    then obtain items where ih: "those (map entry_item ls) = Some items"
      "\<forall>m\<in>set (entries_of items). CHR 0x0A \<notin> set m \<and> CHR 0x0D \<notin> set m"
      "map read_object (entries_of items) =
        [Some (entry_fields now level msg). Logged now level msg \<leftarrow> ls]" by (elim exE conjE)
    show ?case
    proof (cases l)
      case (Logged now level msg)
      obtain entry where t: "log_text now level msg None = Some entry"
        "read_object entry = Some (entry_fields now level msg)"
        using read_entry [of now level msg] unfolding entry_fields_def by (elim exE conjE)
      show ?thesis
        using log_text_lines [OF t(1)] ih t by (intro exI [of _ "Entry entry # items"]) (simp add: Logged)
    next
      case Beat
      then show ?thesis using ih by (intro exI [of _ "Keepalive # items"]) simp
    qed
  qed simp
  then show ?thesis using read_stream_entries by (elim exE conjE) (intro exI conjI, assumption, simp)
qed


end
