(* ===== verification/Program.thy ===== *)
theory Program
  imports Startup App_Runs Event_Stream
begin

text \<open>
  The started program: \<open>Run\<close> (\<open>cmd/uplarr/main.go\<close>) together with the parts it configures, the
  process-wide settings of \<open>internal/sftpclient/security.go\<close>, the routes of \<open>SetupApp\<close> and the
  limits of the HTTP server.
\<close>

subsection \<open>Settings of the SFTP client\<close>

record host_security =
  hs_known_hosts_file :: string
  hs_trust_on_first :: bool
  hs_keys_dir :: string

definition no_settings :: host_security where
  "no_settings = \<lparr>hs_known_hosts_file = [], hs_trust_on_first = False, hs_keys_dir = []\<rparr>"

definition set_known_hosts_file :: "string \<Rightarrow> bool \<Rightarrow> host_security \<Rightarrow> host_security" where
  "set_known_hosts_file path tofu s = s\<lparr>hs_known_hosts_file := path, hs_trust_on_first := tofu\<rparr>"

definition set_keys_dir :: "string \<Rightarrow> host_security \<Rightarrow> host_security" where
  "set_keys_dir dir s = s\<lparr>hs_keys_dir := dir\<rparr>"

definition host_security_settings :: "host_security \<Rightarrow> string \<times> bool \<times> string" where
  "host_security_settings s = (hs_known_hosts_file s, hs_trust_on_first s, hs_keys_dir s)"

text \<open>\<open>os.OpenRoot\<close> of the directory, then \<open>Root.ReadFile\<close>.\<close>

definition read_key_file :: "(string \<Rightarrow> bool) \<Rightarrow> (string \<Rightarrow> string \<Rightarrow> string option) \<Rightarrow> string \<Rightarrow> string \<Rightarrow> string option" where
  "read_key_file open_root root_read dir name = (if \<not> open_root dir then None else root_read dir name)"

text \<open>A connection takes the settings as they are when it is made.\<close>

definition with_settings :: "host_security \<Rightarrow> connect_env \<Rightarrow> connect_env" where
  "with_settings s e =
     (case host_security_settings s of (path, tofu, dir) \<Rightarrow>
        e\<lparr>ce_keys := (ce_keys e)\<lparr>ks_dir := dir\<rparr>, ce_known_hosts_file := path, ce_trust_on_first := tofu\<rparr>)"

fun apply_setting :: "run_event \<Rightarrow> host_security \<Rightarrow> host_security" where
  "apply_setting (UseKnownHosts path tofu) s = set_known_hosts_file path tofu s"
| "apply_setting (UseKeysDir dir) s = set_keys_dir dir s"
| "apply_setting e s = s"

definition settings_after :: "run_event list \<Rightarrow> host_security" where
  "settings_after events = fold apply_setting events no_settings"

text \<open>\<open>SetupApp\<close> fails when the local directory cannot be created, and for no other reason.\<close>

definition setup_app :: "(string \<Rightarrow> string option) \<Rightarrow> config \<Rightarrow> string option" where
  "setup_app mkdir_all cfg = mkdir_all (cf_local_dir cfg)"

subsection \<open>What a started program enforces\<close>

definition configured_known_hosts :: "environment \<Rightarrow> string" where
  "configured_known_hosts env =
     get_env env ''SSH_KNOWN_HOSTS'' (path_join [get_env env ''CONFIG_DIR'' ''./config'', ''known_hosts''])"

lemma started_settings:
  assumes "run_server e = (err, events)" "SetupRoutes cfg \<in> set events"
  shows "settings_after events =
    \<lparr>hs_known_hosts_file = configured_known_hosts (st_env e),
     hs_trust_on_first = (get_env (st_env e) ''SSH_TOFU'' ''true'' = ''true''),
     hs_keys_dir = get_env (st_env e) ''SSH_KEYS_DIR'' (path_join [get_env (st_env e) ''CONFIG_DIR'' ''./config'', ''keys''])\<rparr>"
  using assms
  by (auto simp: run_server_def Let_def settings_after_def no_settings_def set_known_hosts_file_def set_keys_dir_def
      configured_known_hosts_def start_config_def split: sum.splits option.splits)

lemma started_password:
  assumes "run_server e = (err, events)" "SetupRoutes cfg \<in> set events"
  obtains pw kept where "resolve_auth_password (st_env e) (st_dir e (cf_config_dir (start_config (st_env e)))) = (Inr pw, kept)"
    "cfg = (start_config (st_env e))\<lparr>cf_auth_password := pw\<rparr>"
proof -
  let ?r = "resolve_auth_password (st_env e) (st_dir e (cf_config_dir (start_config (st_env e))))"
  have "fst ?r \<noteq> Inl err'" for err'
    using assms by (auto simp: run_server_def Let_def)
  then obtain pw where pw: "fst ?r = Inr pw" by (cases "fst ?r") auto
  then have "?r = (Inr pw, snd ?r)" by (cases ?r) simp
  moreover have "cfg = (start_config (st_env e))\<lparr>cf_auth_password := pw\<rparr>"
    using assms pw by (auto simp: run_server_def Let_def split: option.splits)
  ultimately show thesis by (rule that)
qed

lemma resolved_password:
  assumes "resolve_auth_password env d = (Inr pw, kept)" "cd_random d \<noteq> Some []"
    and "get_env env ''AUTH_PASSWORD'' [] \<noteq> [] \<or> os_getenv env ''ALLOW_NO_AUTH'' \<noteq> ''true''"
  shows "pw \<noteq> []"
  using assms raw_url_nonempty
  by (auto simp: resolve_auth_password_def generate_password_def Let_def
      split: if_splits read_result.splits option.splits)

text \<open>
  C3. A started program is closed to everyone who does not know the password: unless running open
  was requested explicitly, whatever the requests to the routes \<open>Run\<close> set up, in whatever
  number, as long as none carries the resolved password or the token of a session that existed
  before, the queue, the local files, the remote hosts and the known hosts stay what they were
  and every reply is public.
\<close>

theorem started_program_is_guarded:
  assumes "run_server e = (err, events)" "SetupRoutes cfg \<in> set events"
    and "get_env (st_env e) ''AUTH_PASSWORD'' [] \<noteq> [] \<or> os_getenv (st_env e) ''ALLOW_NO_AUTH'' \<noteq> ''true''"
    and "cd_random (st_dir e (get_env (st_env e) ''CONFIG_DIR'' ''./config'')) \<noteq> Some []"
    and "list_all (\<lambda>(ae, rq). ae_config ae = cfg) reqs"
    and "list_all (\<lambda>(ae, rq). rq_password rq \<noteq> Some (cf_auth_password cfg)
      \<and> (case rq_cookie rq of None \<Rightarrow> True | Some tok \<Rightarrow> tok \<notin> session_keys ap)) reqs"
  shows "same_data ap (snd (serve_all reqs ap)) \<and> list_all public_reply (fst (serve_all reqs ap))"
proof -
  from started_password [OF assms(1,2)] obtain pw kept where
    pw: "resolve_auth_password (st_env e) (st_dir e (cf_config_dir (start_config (st_env e)))) = (Inr pw, kept)"
    and cfg: "cfg = (start_config (st_env e))\<lparr>cf_auth_password := pw\<rparr>" .
  have "pw \<noteq> []"
    using resolved_password [OF pw] assms(3,4) by (simp add: start_config_def)
  moreover have "list_all (outsider pw (session_keys ap)) reqs"
    using assms(5,6) cfg by (auto simp: list_all_iff outsider_def)
  ultimately show ?thesis by (rule outsiders_have_no_effect)
qed

text \<open>
  With the settings of a started program a client without a file of its own that does not skip the
  check is verified against the configured file, \<open>known_hosts\<close> in the configuration directory
  unless another is named, and pins new keys unless told otherwise. Connecting without
  verification needs the request to ask for it, or \<open>SSH_KNOWN_HOSTS\<close> set to nothing to fail.
\<close>

theorem started_host_policy:
  assumes "run_server e = (err, events)" "SetupRoutes cfg \<in> set events"
    and "sc_known_hosts_path c = []" "\<not> sc_skip_host_key_verification c"
  shows "host_policy (with_settings (settings_after events) ce) c =
    (if configured_known_hosts (st_env e) = [] then Inl HostKeyRequired
     else Inr (TrustOnFirst (configured_known_hosts (st_env e)) (get_env (st_env e) ''SSH_TOFU'' ''true'' = ''true'')))"
  using assms(3,4) unfolding started_settings [OF assms(1,2)]
  by (simp add: host_policy_def with_settings_def host_security_settings_def)

text \<open>A first start with an empty environment.\<close>

definition first_start :: startup_env where
  "first_start =
     \<lparr>st_env = (\<lambda>_. None),
      st_dir = (\<lambda>_. \<lparr>cd_mkdir_ok = True, cd_root_ok = True, cd_file = ReadNotExist,
        cd_random = Some ''0123456789abcdefgh'', cd_write_ok = True\<rparr>),
      st_setup = setup_app (\<lambda>_. None), st_ended = None, st_shutdown = None, st_late = ServeClosed\<rparr>"

definition first_config :: config where
  "first_config = (start_config (\<lambda>_. None))\<lparr>cf_auth_password := ''MDEyMzQ1Njc4OWFiY2RlZmdo''\<rparr>"

lemma first_start_runs:
  "\<exists>events. run_server first_start = (None, events) \<and> SetupRoutes first_config \<in> set events"
proof -
  have "fst (resolve_auth_password (st_env first_start) (st_dir first_start (cf_config_dir (start_config (st_env first_start)))))
      = Inr ''MDEyMzQ1Njc4OWFiY2RlZmdo''"
    by code_simp
  then show ?thesis
    by (simp add: run_server_def Let_def first_start_def setup_app_def run_http_server_def serve_error_def first_config_def)
qed

theorem started_program_is_guarded_witness:
  "same_data start_app (snd (serve_all [(login_api\<lparr>ae_config := first_config\<rparr>, login_request)] start_app))"
proof -
  obtain events where run: "run_server first_start = (None, events)" "SetupRoutes first_config \<in> set events"
    using first_start_runs by (elim exE conjE)
  let ?reqs = "[(login_api\<lparr>ae_config := first_config\<rparr>, login_request)]"
  have a: "get_env (st_env first_start) ''AUTH_PASSWORD'' [] \<noteq> [] \<or> os_getenv (st_env first_start) ''ALLOW_NO_AUTH'' \<noteq> ''true''"
    "cd_random (st_dir first_start (get_env (st_env first_start) ''CONFIG_DIR'' ''./config'')) \<noteq> Some []"
    by (simp_all add: first_start_def os_getenv_def)
  have r: "list_all (\<lambda>(ae, rq). ae_config ae = first_config) ?reqs"
    "list_all (\<lambda>(ae, rq). rq_password rq \<noteq> Some (cf_auth_password first_config)
      \<and> (case rq_cookie rq of None \<Rightarrow> True | Some tok \<Rightarrow> tok \<notin> session_keys start_app)) ?reqs"
    by (simp_all add: login_request_def demo_request_def first_config_def)
  from started_program_is_guarded [OF run a r] show ?thesis by simp
qed

subsection \<open>The limits of the server\<close>

record server_config =
  sv_addr :: string
  sv_read_header_timeout :: duration
  sv_read_timeout :: duration
  sv_write_timeout :: duration
  sv_idle_timeout :: duration
  sv_max_header_bytes :: nat

definition seconds :: "int \<Rightarrow> duration" where
  "seconds n = n * 1000000000"

definition http_server :: "string \<Rightarrow> server_config" where
  "http_server addr =
     \<lparr>sv_addr = addr, sv_read_header_timeout = seconds 10, sv_read_timeout = seconds 30,
      sv_write_timeout = seconds 30, sv_idle_timeout = minutes 2, sv_max_header_bytes = 2 ^ 20\<rparr>"

text \<open>
  What \<open>net/http\<close> documents of \<open>WriteTimeout\<close>: the time a response may take from the end of its
  request's header, unlimited when it is not positive. A write after it fails and cancels the
  context of the request, so the loop of \<open>/api/logs\<close> ends at the first of them.
\<close>

definition in_time :: "server_config \<Rightarrow> instant \<Rightarrow> instant \<Rightarrow> bool" where
  "in_time sv started t \<longleftrightarrow> sv_write_timeout sv \<le> 0 \<or> t < started + sv_write_timeout sv"

definition delivered :: "server_config \<Rightarrow> instant \<Rightarrow> (instant \<times> 'a) list \<Rightarrow> 'a list" where
  "delivered sv started ws = map snd (takeWhile (\<lambda>(t, _). in_time sv started t) ws)"

lemma takeWhile_sorted:
  fixes ws :: "(instant \<times> 'a) list"
  assumes "sorted (map fst ws)"
  shows "takeWhile (\<lambda>(t, _). t < d) ws = filter (\<lambda>(t, _). t < d) ws"
  using assms
proof (induction ws)
  case (Cons w ws)
  show ?case
  proof (cases "fst w < d")
    case False
    then have "\<forall>x\<in>set (w # ws). \<not> fst x < d" using Cons.prems by auto
    then have "filter (\<lambda>(t, _). t < d) (w # ws) = []" by (auto simp: filter_empty_conv)
    moreover have "takeWhile (\<lambda>(t, _). t < d) (w # ws) = []" using False by (simp add: case_prod_beta)
    ultimately show ?thesis by simp
  qed (use Cons in \<open>simp add: case_prod_beta\<close>)
qed simp

text \<open>
  The log page goes dark after half a minute: of what is written to it, heartbeats included, it
  reads exactly the entries of the first thirty seconds of the connection. The heartbeat, which
  is to keep the connection alive, does not help, and what is logged until the page has connected
  again is not shown.
\<close>

theorem log_stream_cut_off:
  assumes "sorted (map fst ws)"
  shows "\<exists>items. those (map entry_item (delivered (http_server addr) started ws)) = Some items
    \<and> map read_object (read_stream (stream_text items)) =
        [Some (entry_fields now level msg). (t, Logged now level msg) \<leftarrow> ws, t < started + seconds 30]"
proof -
  have "delivered (http_server addr) started ws = map snd (filter (\<lambda>(t, _). t < started + seconds 30) ws)"
    using takeWhile_sorted [OF assms, of "started + seconds 30"]
    by (simp add: delivered_def in_time_def http_server_def seconds_def)
  moreover have "[Some (entry_fields now level msg). Logged now level msg \<leftarrow> map snd (filter (\<lambda>(t, _). t < d) us)]
      = [Some (entry_fields now level msg). (t, Logged now level msg) \<leftarrow> us, t < d]"
    for us :: "(instant \<times> logged) list" and d
    by (induction us) (auto split: logged.split)
  ultimately show ?thesis
    using entries_read_back [of "delivered (http_server addr) started ws"] by simp
qed

text \<open>The second heartbeat is already too late.\<close>

lemma second_heartbeat_late:
  "delivered (http_server addr) 0 [(seconds 15, Beat), (seconds 29, Logged n l m), (seconds 30, Beat), (seconds 31, Logged n l m')]
    = [Beat, Logged n l m]"
  by (simp add: delivered_def in_time_def http_server_def seconds_def)

subsection \<open>Shutting down with an open page\<close>

definition shutdown_timeout :: duration where
  "shutdown_timeout = seconds 10"

text \<open>
  \<open>http.Server.Shutdown\<close> waits for the requests that are being served and does not interrupt them:
  \<open>ends\<close> is when each of them will end.
\<close>

definition http_shutdown :: "instant \<Rightarrow> instant list \<Rightarrow> string option" where
  "http_shutdown signal ends =
     (if list_all (\<lambda>f. f \<le> signal + shutdown_timeout) ends then None else Some ''context deadline exceeded'')"

text \<open>A stream that nobody closes ends at the first write that fails.\<close>

definition stream_end :: "server_config \<Rightarrow> instant \<Rightarrow> (instant \<times> 'a) list \<Rightarrow> instant option" where
  "stream_end sv started ws = map_option fst (find (\<lambda>(t, _). \<not> in_time sv started t) ws)"

text \<open>
  A page that has been watching the log for less than twenty seconds when the program is told to
  stop makes the shutdown of the server fail: \<open>Run\<close> returns an error, and the program ends with
  exit code 1.
\<close>

theorem open_page_fails_shutdown:
  assumes "stream_end (http_server addr) started ws = Some f" "signal < started + seconds 20"
    and "f \<in> set ends" "st_ended e = None" "st_shutdown e = http_shutdown signal ends"
    and "run_server e = (err, events)" "Listen addr' \<in> set events"
  shows "err = Some (''shut down HTTP server: '' @ ''context deadline exceeded'') \<and> exit_code e = 1"
proof -
  have "started + seconds 30 \<le> f"
    using assms(1) by (auto simp: stream_end_def in_time_def http_server_def seconds_def find_Some_iff)
  then have "\<not> f \<le> signal + shutdown_timeout" using assms(2) by (simp add: shutdown_timeout_def seconds_def)
  then have "st_shutdown e = Some ''context deadline exceeded''"
    using assms(3,5) by (auto simp: http_shutdown_def list_all_iff)
  then have "run_http_server (st_ended e) (st_shutdown e) (st_late e)
      = Some (''shut down HTTP server: '' @ ''context deadline exceeded'')"
    using assms(4) by (simp add: run_http_server_def)
  then have "err = Some (''shut down HTTP server: '' @ ''context deadline exceeded'')"
    using assms(6,7) by (auto simp: run_server_def Let_def split: sum.splits option.splits)
  with assms(6) show ?thesis by (simp add: exit_code_def)
qed

end
