(* ===== verification/Path_Test.thy ===== *)
theory Path_Test
  imports Remote_Path
begin

text \<open>
  \<open>scratch/test_paths.go\<close>, a program that prints what the path packages make of six paths below a
  remote directory \<open>/upload\<close>: its loop body, its output, and how its verdict relates to the check
  of the SFTP client.
\<close>

definition test_paths :: "string list" where
  "test_paths = [''/upload/file.txt'', ''/etc/passwd'', ''/upload/../etc/passwd'', ''../forbidden'', ''/'', ''/root'']"

record path_verdict =
  pv_cleaned :: string
  pv_base :: string
  pv_rel :: string
  pv_posix_rel :: string
  pv_traversal :: bool

text \<open>None is the error of \<open>filepath.Rel\<close>.\<close>

definition test_path :: "string \<Rightarrow> path_verdict option" where
  "test_path p =
     (let c0 = path_clean p;
          base = ''/upload'';
          c = (if \<not> is_abs c0 then path_join [base, c0] else c0)
      in case path_rel base c of
           None \<Rightarrow> None
         | Some rel \<Rightarrow>
             Some \<lparr>pv_cleaned = c, pv_base = base, pv_rel = rel, pv_posix_rel = rel,
                   pv_traversal = (rel = ''..'' \<or> has_prefix rel ''../'')\<rparr>)"

lemma test_path_run:
  "map (\<lambda>p. map_option (\<lambda>v. (pv_rel v, pv_traversal v)) (test_path p)) test_paths =
     [Some (''file.txt'', False), Some (''../etc/passwd'', True), Some (''../etc/passwd'', True),
      Some (''../forbidden'', True), Some (''..'', True), Some (''../root'', True)]"
  unfolding test_paths_def by code_simp

text \<open>
  The verdict of the program is that of the client for relative paths, but not for absolute ones:
  the client accepts every absolute path, the program only those below the remote directory.
\<close>

lemma test_path_relative:
  assumes "sc_connected c" "sc_remote_dir c = ''/upload''" "\<not> is_abs p"
  shows "(\<exists>v. test_path p = Some v \<and> \<not> pv_traversal v) \<longleftrightarrow> (\<exists>q. validate_remote_path c p = Inr q)"
proof -
  have "path_clean ''/upload'' = ''/upload''" by code_simp
  then have "(\<exists>q. validate_remote_path c p = Inr q) \<longleftrightarrow> contained ''/upload'' (path_join [''/upload'', path_clean p])"
    using validate_rel(1) [OF assms(1,3)] assms(2) by simp
  then show ?thesis
    using assms(3) by (auto simp: test_path_def contained_def escapes_def Let_def split: option.splits)
qed

theorem test_path_and_client:
  "(\<exists>v. test_path p = Some v \<and> \<not> pv_traversal v) \<longleftrightarrow>
     (if is_abs p then contained ''/upload'' (path_clean p)
      else \<exists>q. validate_remote_path (demo_client ''/upload'') p = Inr q)"
proof (cases "is_abs p")
  case True
  then show ?thesis
    by (auto simp: test_path_def contained_def escapes_def Let_def split: option.splits)
next
  case False
  then show ?thesis using test_path_relative [of "demo_client ''/upload''" p] by simp
qed

end
