(* ===== verification/Spec2Isabelle.thy ===== *)
theory Spec2Isabelle
  imports Prelude Go_Text Go_Path Base64_Codec Models Limiter Secrets Queue_State Queue_Ops
    Queue_Spec Queue_Workers Queue_Safety Remote_Path Upload Go_Net Sessions Local_Files Host_Security
    Http_Api Logger Startup Upload_Attempts Reader_Stack Process_Task Shutdown State_Typing App_Runs Responses
    Event_Stream Program Path_Test
begin

text \<open>
  Uplarr is a web service that uploads files from a local directory to SFTP servers. A browser
  talks to the HTTP API (\<open>internal/api\<close>), which authenticates requests, browses and changes local
  and remote files, and hands uploads to the queue (\<open>internal/queue\<close>). The queue keeps its tasks in
  a state file with encrypted passwords and runs a bounded number of upload goroutines; each of
  them drives one SFTP client (\<open>internal/sftpclient\<close>), which throttles, resumes, verifies and
  publishes the file. \<open>cmd/uplarr/main.go\<close> starts and stops the parts.

  The theories, in the order of the calls:

  \<^item> \<open>Prelude\<close>: Go's integers, maps with an explicit iteration order, reachable states; the
    interfaces \<open>invariant_of\<close> (an invariant of a step relation) and \<open>capped_table\<close> (making room in
    a bounded map).
  \<^item> \<open>Go_Text\<close>, \<open>Go_Path\<close>, \<open>Go_Net\<close>, \<open>Base64_Codec\<close>: what the program uses of the standard
    library: \<open>strings\<close>, \<open>strconv\<close>, \<open>path/filepath\<close> on Unix, \<open>net\<close>, \<open>encoding/base64\<close>. \<open>Go_Path\<close>
    shows the containment test of the handlers equivalent to walking the paths from the root.
  \<^item> \<open>Models\<close>: the structs of \<open>internal/models\<close>.
  \<^item> \<open>Limiter\<close>: \<open>Limiter\<close>, the latency sampler and the throttled reader (\<open>client.go\<close> 67--323,
    892--933).
  \<^item> \<open>Secrets\<close>: \<open>secrets.go\<close>, with the construction of AES-GCM over its block cipher and hash.
  \<^item> \<open>Queue_State\<close>, \<open>Queue_Ops\<close>, \<open>Queue_Spec\<close>: the state of \<open>QueueManager\<close>, its state file, every
    operation of its API, and the abstract list the operations refine.
  \<^item> \<open>Queue_Workers\<close>, \<open>Queue_Safety\<close>: the dispatcher, the upload goroutines and \<open>Shutdown\<close> as a
    labelled step relation over the critical sections, and its invariants.
  \<^item> \<open>Remote_Path\<close>: the path checks of the SFTP client and the remote file handlers.
  \<^item> \<open>Upload\<close>: \<open>UploadFile\<close> with its resume, verification and clean-up, and the retry loop.
    \<open>Upload_Attempts\<close>: the callbacks of an attempt, and what several attempts leave on a server
    that fails; the contract of such a session is the locale \<open>sftp_session\<close>. \<open>Reader_Stack\<close>: the
    readers around the local file (\<open>client.go\<close> 261--375, 767--801), each keeping the contract
    \<open>byte_source\<close>.
  \<^item> \<open>Process_Task\<close>: \<open>processTask\<close> as a whole, from the checks of the file over \<open>Connect\<close> to the
    result of the upload, and as a run of the step relation. \<open>Shutdown\<close>: the connections it closes
    and that the goroutines it waits for come to their end.
  \<^item> \<open>Host_Security\<close>: \<open>security.go\<close> (private keys, trust on first use, dial targets), \<open>Connect\<close>.
  \<^item> \<open>Sessions\<close>: the session table, the login limiter, login, logout and the session check.
  \<^item> \<open>Local_Files\<close>: the local file handlers and the check of an upload's file list.
  \<^item> \<open>Http_Api\<close>: \<open>middleware.go\<close>, the remaining handlers, the routing, and one request as a
    function over the state of the whole application. \<open>Responses\<close>: the status, headers and
    cookies of its reply.
  \<^item> \<open>State_Typing\<close>, \<open>App_Runs\<close>: the whole program as a step relation in which requests
    interleave with the dispatcher and the upload goroutines; what is well-typed about its state.
  \<^item> \<open>Logger\<close>: \<open>logger.go\<close>. \<open>Event_Stream\<close>: the stream of \<open>/api/logs\<close> and how a page reads it.
  \<^item> \<open>Startup\<close>: \<open>main.go\<close>. \<open>Program\<close>: the started program, with the settings and the password
    \<open>Run\<close> hands to the other parts, and what the write time-out of its server cuts off.
    \<open>Path_Test\<close>: \<open>scratch/test_paths.go\<close>.
\<close>

text \<open>
  How the code is read. A struct is a record whose fields keep their Go names behind a prefix; a
  pointer to a task or a limiter is a number into a heap, so that aliasing is visible. A region
  under a mutex is one function, and goroutines that interleave are steps of a relation. What a
  call meets outside the program (clocks, random bytes, errors of the operating system, the order
  in which a map is visited) is an argument, in records named after the call. Errors are values;
  a panic is None.

  Integers that can overflow are wrapped to 64 bits (\<open>wrap64\<close>, \<open>64 word\<close> for the task counter).
  The rates of the throttle are \<open>float64\<close> in Go and reals here, so rounding is not modelled. A
  parser of a body and an encoder of a reply stand for the value; only the encoding of log entries
  is spelled out, with the decoder of a page, because the program relies on it to keep entries apart.

  Third-party code is a parameter: the SFTP session of \<open>pkg/sftp\<close> (\<open>file_ops\<close>, \<open>dir_ops\<close>), the
  handshake and \<open>known_hosts\<close> of \<open>golang.org/x/crypto\<close> (\<open>connect_env\<close>, \<open>known_hosts_lib\<close>), the token
  bucket of \<open>golang.org/x/time/rate\<close>. What is relied on is a named hypothesis (\<open>sftp_laws\<close>,
  \<open>kh_laws\<close>), and each theorem that uses one has a witness on a concrete instance. The operating
  system's files are a parameter in the same way (\<open>root_ops\<close>, \<open>local_file\<close>).

  No definition of the program needs fuel: loops are structural or have a measure, such as the free
  slots of the dispatcher, the attempts left of the retry loop, and the bytes left of the throttled
  reader; waiting for tokens is a partial function, and \<open>Reader_Stack\<close> shows that it returns. The
  reader of JSON objects, which belongs to the page, takes the length of its text as fuel, as every
  member has at least one byte.

  What the lemmas show. Queue: a state file restores the queue and never holds a password in plain
  text when there is a key; every operation refines the list operation; in all interleavings a task
  has one worker, slots are accounted for, pending work is always on its way to the dispatcher, and
  a shutdown drains. Uploads: a task that ends as completed has its file, and nothing else, at the
  destination, also after failed attempts, on a server that behaves as documented; what is sent is
  what the file holds. Files: every local or remote operation stays below its directory, with the
  exceptions that are stated as theorems. Login: bounded tables, the lockout, and what parallel
  guessing can do. HTTP: without a session nothing changes, for one request, for any sequence and
  for the program as it is started; cross-site requests are not handled; every response is
  hardened; the cookie is only set for the password. Program: requests are steps of the queue and
  login relations, so their invariants hold for the whole, and its state is well-typed. Host keys:
  the first key is pinned. Logging: entries reach a page unchanged and in order, and streaming
  neither panics nor blocks.

  Several theorems state behaviour that a reader may not expect: \<open>resume_can_corrupt\<close>,
  \<open>parallel_guesses_pass\<close>, \<open>cancel_entry_can_be_lost\<close>, \<open>remote_action_can_escape\<close>,
  \<open>relative_remote_dir_applied_twice\<close>, \<open>floor_overrides_maximum\<close>, \<open>pause_is_not_durable\<close>,
  \<open>mkdir_fails_behind_symlink\<close>, \<open>delete_follows_links\<close>, \<open>pin_joins_unterminated_line\<close>,
  \<open>link_local_zone_denied\<close>, \<open>get_request_changes_state\<close>, \<open>status_404_by_substring\<close>,
  \<open>log_stream_cut_off\<close>, \<open>open_page_fails_shutdown\<close>, \<open>responses_are_hardened\<close> (the redirect that
  is not), \<open>test_path_and_client\<close>.

  Not modelled: the web page, static files that \<open>src/ui\<close> embeds, and the build and deployment
  files; headers \<open>net/http\<close> adds by itself and the texts of error replies; which log messages are
  written; the other time-outs of the HTTP server; range requests of downloads; the concurrent
  writes inside \<open>pkg/sftp\<close> beyond the law a transfer obeys; methods that only pass a call on
  (\<open>realSFTPClient\<close>, the getters of \<open>Limiter\<close>).
\<close>

end
